(* ===== verification/Prelude.thy ===== *)
theory Prelude
  imports Main "HOL-Library.Word" "HOL-Library.Char_ord"
begin

text \<open>
  What every component of the model shares: the exceptions of the program as values, the
  result type of the operations that may throw, the reading of a C++ \<open>char\<close>, and the generic
  lemmas on lists that the string components use.

  A C++ string or a range of characters is an Isabelle \<open>string\<close> (a list of 8-bit characters).
  A plain \<open>char\<close> is signed, as on the x86 targets the packages are built for, so
  \<open>schar\<close> reads a character as the number from -128 to 127 the comparisons of the code see,
  and \<open>uchar\<close> as the byte.
\<close>

named_theorems inv_intros \<open>preservation of the invariants of the components\<close>

text \<open>The exceptions the program throws (\<open>std::exception\<close> and what derives from it).\<close>

datatype xiva_error =
    Http_error nat
  | Runtime_error string
  | Logic_error string
  | Length_error
  | Bad_alloc
  | Xiva_error string
  | Bad_lexical_cast
  | Assertion_failed
  | Undefined_behaviour

type_synonym 'a result = "xiva_error + 'a"

text \<open>Sequencing of operations that may throw, and an assertion of the code (a failing
  \<open>assert\<close> ends the program).\<close>

definition bind_result :: "'a result \<Rightarrow> ('a \<Rightarrow> 'b result) \<Rightarrow> 'b result" where
  "bind_result r f = (case r of Inl e \<Rightarrow> Inl e | Inr x \<Rightarrow> f x)"

definition assert_that :: "bool \<Rightarrow> 'a result \<Rightarrow> 'a result" where
  "assert_that b r = (if b then r else Inl Assertion_failed)"

lemma bind_result_simps [simp]:
  "bind_result (Inl e) f = Inl e" "bind_result (Inr x) f = f x"
  by (simp_all add: bind_result_def)

lemma bind_result_eq_Inr:
  "bind_result r f = Inr y \<longleftrightarrow> (\<exists>x. r = Inr x \<and> f x = Inr y)"
  by (cases r) auto

lemma assert_that_True [simp]: "assert_that True r = r"
  by (simp add: assert_that_def)

lemma assert_that_eq_Inr: "assert_that b r = Inr y \<longleftrightarrow> b \<and> r = Inr y"
  by (simp add: assert_that_def)

definition uchar :: "char \<Rightarrow> nat" where
  "uchar c = of_char c"

definition schar :: "char \<Rightarrow> int" where
  "schar c = (if uchar c < 128 then int (uchar c) else int (uchar c) - 256)"

lemma uchar_less [simp]: "uchar c < 256"
  by (simp add: uchar_def)

lemma uchar_div_16 [simp]: "uchar c div 16 < 16"
  by (rule less_mult_imp_div_less) simp

lemma uchar_inject [simp]: "uchar c = uchar d \<longleftrightarrow> c = d"
  by (simp add: uchar_def)

lemma schar_inject [simp]: "schar c = schar d \<longleftrightarrow> c = d"
proof
  assume eq: "schar c = schar d"
  have "uchar c < 256" "uchar d < 256" by simp_all
  with eq have "uchar c = uchar d"
    unfolding schar_def by (simp only: split: if_splits)
  then show "c = d" by simp
qed simp

lemma char_of_uchar [simp]: "char_of (uchar c) = c"
  by (simp add: uchar_def)

lemma uchar_char_of [simp]: "n < 256 \<Longrightarrow> uchar (char_of n) = n"
  by (simp add: uchar_def)

text \<open>Generic facts on splitting a list at the first element that satisfies a predicate.\<close>

lemma takeWhile_stop:
  "\<forall>x\<in>set xs. P x \<Longrightarrow> \<not> P y \<Longrightarrow> takeWhile P (xs @ y # ys) = xs"
  by (induction xs) auto

lemma dropWhile_stop:
  "\<forall>x\<in>set xs. P x \<Longrightarrow> \<not> P y \<Longrightarrow> dropWhile P (xs @ y # ys) = y # ys"
  by (induction xs) auto

lemma dropWhile_hd: "dropWhile P xs = y # ys \<Longrightarrow> \<not> P y"
  by (induction xs) (auto split: if_splits)

lemma length_dropWhile_less:
  "xs \<noteq> [] \<Longrightarrow> P (hd xs) \<Longrightarrow> length (dropWhile P xs) < length xs"
  by (cases xs) (auto simp: less_Suc_eq_le length_dropWhile_le)

text \<open>Numbers as \<open>std::ostream\<close> and \<open>printf\<close> write them, in a base from 2 to 16.\<close>

definition digit_char :: "nat \<Rightarrow> char" where
  "digit_char d = char_of (if d < 10 then 48 + d else 87 + d)"

definition digit_value :: "char \<Rightarrow> nat" where
  "digit_value c = (if uchar c < 58 then uchar c - 48 else uchar c - 87)"

function show_number :: "nat \<Rightarrow> nat \<Rightarrow> string" where
  "show_number b n =
     (if b < 2 \<or> n < b then [digit_char n] else show_number b (n div b) @ [digit_char (n mod b)])"
  by pat_completeness auto
termination by (relation "measure snd") auto

declare show_number.simps [simp del]

abbreviation show_nat :: "nat \<Rightarrow> string" where
  "show_nat n \<equiv> show_number 10 n"

definition read_number :: "nat \<Rightarrow> string \<Rightarrow> nat" where
  "read_number b s = foldl (\<lambda>n c. n * b + digit_value c) 0 s"

definition pad_zero :: "nat \<Rightarrow> string \<Rightarrow> string" where
  "pad_zero w s = replicate (w - length s) (CHR ''0'') @ s"

lemma digit_value_char: "d < 16 \<Longrightarrow> digit_value (digit_char d) = d"
  by (auto simp: digit_value_def digit_char_def)

lemma read_show_number: "2 \<le> b \<Longrightarrow> b \<le> 16 \<Longrightarrow> read_number b (show_number b n) = n"
proof (induction b n rule: show_number.induct)
  case (1 b n)
  show ?case
  proof (cases "n < b")
    case True
    with 1 show ?thesis
      by (subst show_number.simps) (simp add: read_number_def digit_value_char)
  next
    case False
    with 1 have "read_number b (show_number b (n div b)) = n div b" by simp
    moreover have "n mod b < 16" using 1 mod_less_divisor [of b n] by linarith
    ultimately show ?thesis
      using False 1 by (subst show_number.simps) (simp add: read_number_def digit_value_char)
  qed
qed

lemma show_number_not_Nil [simp]: "show_number b n \<noteq> []"
  by (subst show_number.simps) simp

lemma show_number_chars: "b \<le> 16 \<Longrightarrow> x \<in> set (show_number b n) \<Longrightarrow>
  48 \<le> uchar x \<and> uchar x \<le> 57 \<or> 97 \<le> uchar x \<and> uchar x \<le> 102 \<or> b < 2"
proof (induction b n rule: show_number.induct)
  case (1 b n)
  have digit: "d < 16 \<Longrightarrow> 48 \<le> uchar (digit_char d) \<and> uchar (digit_char d) \<le> 57 \<or>
      97 \<le> uchar (digit_char d) \<and> uchar (digit_char d) \<le> 102" for d
    by (auto simp: digit_char_def)
  show ?case
  proof (cases "b < 2 \<or> n < b")
    case True
    with 1 digit [of n] show ?thesis by (subst (asm) show_number.simps) auto
  next
    case False
    then have "n mod b < 16" using 1 mod_less_divisor [of b n] by linarith
    with False 1 digit [of "n mod b"] show ?thesis
      by (subst (asm) (2) show_number.simps) auto
  qed
qed

text \<open>Reading a C array at an index of type \<open>int\<close>: outside the array the behaviour is undefined.\<close>

definition array_at :: "'a list \<Rightarrow> int \<Rightarrow> 'a result" where
  "array_at xs i = (if 0 \<le> i \<and> i < int (length xs) then Inr (xs ! nat i) else Inl Undefined_behaviour)"

definition crlf :: string where
  "crlf = [CHR 0x0D, CHR 0x0A]"

end
