(* ===== verification/Ordered_Map.thy ===== *)
theory Ordered_Map
  imports Prelude "HOL-Library.List_Lexorder"
begin

text \<open>
  The ordered associative containers of the standard library that the program uses:
  \<open>std::map\<close> and \<open>std::multimap\<close> with an explicit comparator, as lists of pairs in the
  order of the comparator. Two keys are the same key when neither is less than the other,
  which is what makes a header map with a case-insensitive comparator case-insensitive.
  \<open>om_insert\<close> is \<open>map::insert\<close> (an existing entry stays), \<open>om_assign\<close> is
  \<open>m[k] = v\<close> (an existing entry is overwritten, its key stays), \<open>mm_insert\<close> is
  \<open>multimap::insert\<close> (after the entries with an equivalent key).

  The interface a comparator owes to these containers is the locale \<open>comparator\<close>: it
  compares the images of the keys in a linear order (for a case-insensitive comparator, the
  lower-case spelling). The laws of the containers are proved once inside it.
\<close>

fun om_find :: "('k \<Rightarrow> 'k \<Rightarrow> bool) \<Rightarrow> ('k \<times> 'v) list \<Rightarrow> 'k \<Rightarrow> 'v option" where
  "om_find lt [] k = None"
| "om_find lt ((a, v) # m) k =
     (if lt a k then om_find lt m k else if lt k a then None else Some v)"

fun om_insert :: "('k \<Rightarrow> 'k \<Rightarrow> bool) \<Rightarrow> 'k \<Rightarrow> 'v \<Rightarrow> ('k \<times> 'v) list \<Rightarrow> ('k \<times> 'v) list" where
  "om_insert lt k v [] = [(k, v)]"
| "om_insert lt k v ((a, w) # m) =
     (if lt a k then (a, w) # om_insert lt k v m
      else if lt k a then (k, v) # (a, w) # m
      else (a, w) # m)"

fun om_assign :: "('k \<Rightarrow> 'k \<Rightarrow> bool) \<Rightarrow> 'k \<Rightarrow> 'v \<Rightarrow> ('k \<times> 'v) list \<Rightarrow> ('k \<times> 'v) list" where
  "om_assign lt k v [] = [(k, v)]"
| "om_assign lt k v ((a, w) # m) =
     (if lt a k then (a, w) # om_assign lt k v m
      else if lt k a then (k, v) # (a, w) # m
      else (a, v) # m)"

fun om_erase :: "('k \<Rightarrow> 'k \<Rightarrow> bool) \<Rightarrow> 'k \<Rightarrow> ('k \<times> 'v) list \<Rightarrow> ('k \<times> 'v) list" where
  "om_erase lt k [] = []"
| "om_erase lt k ((a, w) # m) =
     (if lt a k then (a, w) # om_erase lt k m
      else if lt k a then (a, w) # m
      else m)"

fun mm_insert :: "('k \<Rightarrow> 'k \<Rightarrow> bool) \<Rightarrow> 'k \<Rightarrow> 'v \<Rightarrow> ('k \<times> 'v) list \<Rightarrow> ('k \<times> 'v) list" where
  "mm_insert lt k v [] = [(k, v)]"
| "mm_insert lt k v ((a, w) # m) =
     (if lt k a then (k, v) # (a, w) # m else (a, w) # mm_insert lt k v m)"

definition mm_range :: "('k \<Rightarrow> 'k \<Rightarrow> bool) \<Rightarrow> ('k \<times> 'v) list \<Rightarrow> 'k \<Rightarrow> ('k \<times> 'v) list" where
  "mm_range lt m k = filter (\<lambda>(a, v). \<not> lt a k \<and> \<not> lt k a) m"

definition om_sorted :: "('k \<Rightarrow> 'k \<Rightarrow> bool) \<Rightarrow> ('k \<times> 'v) list \<Rightarrow> bool" where
  "om_sorted lt m = sorted_wrt (\<lambda>p q. lt (fst p) (fst q)) m"

definition mm_sorted :: "('k \<Rightarrow> 'k \<Rightarrow> bool) \<Rightarrow> ('k \<times> 'v) list \<Rightarrow> bool" where
  "mm_sorted lt m = sorted_wrt (\<lambda>p q. \<not> lt (fst q) (fst p)) m"

lemma om_sorted_Nil [simp]: "om_sorted lt []"
  by (simp add: om_sorted_def)

lemma mm_sorted_Nil [simp]: "mm_sorted lt []"
  by (simp add: mm_sorted_def)

lemma om_sorted_Cons [simp]:
  "om_sorted lt (p # m) \<longleftrightarrow> (\<forall>q\<in>set m. lt (fst p) (fst q)) \<and> om_sorted lt m"
  by (simp add: om_sorted_def)

lemma mm_sorted_Cons [simp]:
  "mm_sorted lt (p # m) \<longleftrightarrow> (\<forall>q\<in>set m. \<not> lt (fst q) (fst p)) \<and> mm_sorted lt m"
  by (simp add: mm_sorted_def)

text \<open>What holds of every key holds of every key after the operation.\<close>

lemma all_keys_insert:
  "\<forall>q\<in>set m. P (fst q) \<Longrightarrow> P k \<Longrightarrow> \<forall>q\<in>set (om_insert lt k v m). P (fst q)"
  proof (induction m)
  case (Cons p m)
  then show ?case by (cases p) simp
qed simp

lemma all_keys_assign:
  "\<forall>q\<in>set m. P (fst q) \<Longrightarrow> P k \<Longrightarrow> \<forall>q\<in>set (om_assign lt k v m). P (fst q)"
  proof (induction m)
  case (Cons p m)
  then show ?case by (cases p) simp
qed simp

lemma all_keys_erase: "\<forall>q\<in>set m. P (fst q) \<Longrightarrow> \<forall>q\<in>set (om_erase lt k m). P (fst q)"
  proof (induction m)
  case (Cons p m)
  then show ?case by (cases p) simp
qed simp

lemma set_mm_insert [simp]: "set (mm_insert lt k v m) = insert (k, v) (set m)"
  by (induction m) (auto split: if_splits)

lemma mm_range_Nil [simp]: "mm_range lt [] k = []"
  by (simp add: mm_range_def)

locale comparator =
  fixes lt :: "'k \<Rightarrow> 'k \<Rightarrow> bool"
    and ord_key :: "'k \<Rightarrow> 'o::linorder"
  assumes lt_ord_key: "lt a b \<longleftrightarrow> ord_key a < ord_key b"
begin

abbreviation same :: "'k \<Rightarrow> 'k \<Rightarrow> bool" where
  "same a b \<equiv> ord_key a = ord_key b"

lemma lt_eq: "lt = (\<lambda>a b. ord_key a < ord_key b)"
  by (simp add: fun_eq_iff lt_ord_key)

lemma lt_trans: "lt a b \<Longrightarrow> lt b c \<Longrightarrow> lt a c"
  by (simp add: lt_ord_key)

lemma lt_asym: "lt a b \<Longrightarrow> \<not> lt b a"
  by (auto simp: lt_ord_key)

lemma lt_same: "\<not> lt a b \<Longrightarrow> \<not> lt b a \<Longrightarrow> same a b"
  by (simp add: lt_ord_key)

lemma find_same: "same a b \<Longrightarrow> om_find lt m a = om_find lt m b"
  by (induction m) (auto simp: lt_ord_key)

lemma find_below:
  "\<forall>q\<in>set m. ord_key a < ord_key (fst q) \<Longrightarrow> ord_key k \<le> ord_key a \<Longrightarrow> om_find lt m k = None"
  by (cases m) (auto simp: lt_ord_key)

lemma insert_sorted: "om_sorted lt m \<Longrightarrow> om_sorted lt (om_insert lt k v m)"
proof (induction m)
  case (Cons p m)
  obtain a w where p: "p = (a, w)" by (cases p)
  from Cons.prems p have below: "\<forall>q\<in>set m. lt a (fst q)" by simp
  have "lt a k \<Longrightarrow> \<forall>q\<in>set (om_insert lt k v m). lt a (fst q)"
    using below by (rule all_keys_insert)
  with Cons p below show ?case by (auto intro: lt_trans)
qed simp

lemma assign_sorted: "om_sorted lt m \<Longrightarrow> om_sorted lt (om_assign lt k v m)"
proof (induction m)
  case (Cons p m)
  obtain a w where p: "p = (a, w)" by (cases p)
  from Cons.prems p have below: "\<forall>q\<in>set m. lt a (fst q)" by simp
  have "lt a k \<Longrightarrow> \<forall>q\<in>set (om_assign lt k v m). lt a (fst q)"
    using below by (rule all_keys_assign)
  with Cons p below show ?case by (auto intro: lt_trans)
qed simp

lemma erase_sorted: "om_sorted lt m \<Longrightarrow> om_sorted lt (om_erase lt k m)"
proof (induction m)
  case (Cons p m)
  obtain a w where p: "p = (a, w)" by (cases p)
  from Cons.prems p have below: "\<forall>q\<in>set m. lt a (fst q)" by simp
  have "\<forall>q\<in>set (om_erase lt k m). lt a (fst q)"
    using below by (rule all_keys_erase)
  with Cons p below show ?case by (auto intro: lt_trans)
qed simp

lemma not_lt_trans: "\<not> lt c b \<Longrightarrow> lt a b \<Longrightarrow> \<not> lt c a"
  by (auto simp: lt_ord_key)

lemma mm_insert_sorted: "mm_sorted lt m \<Longrightarrow> mm_sorted lt (mm_insert lt k v m)"
proof (induction m)
  case (Cons p m)
  obtain a w where p: "p = (a, w)" by (cases p)
  from Cons.prems p have above: "\<forall>q\<in>set m. \<not> lt (fst q) a" by simp
  have "\<forall>q\<in>set m. \<not> lt (fst q) k" "\<not> lt a k" if "lt k a"
    using that above by (auto intro: not_lt_trans simp: lt_ord_key)
  with Cons p above show ?case by auto
qed simp

lemma find_insert:
  "om_sorted lt m \<Longrightarrow>
   om_find lt (om_insert lt k v m) x =
     (if same k x then Some (case om_find lt m k of None \<Rightarrow> v | Some w \<Rightarrow> w) else om_find lt m x)"
  by (induction m) (auto simp: lt_ord_key)

lemma find_assign:
  "om_sorted lt m \<Longrightarrow>
   om_find lt (om_assign lt k v m) x = (if same k x then Some v else om_find lt m x)"
  by (induction m) (auto simp: lt_ord_key)

lemma find_erase:
  "om_sorted lt m \<Longrightarrow>
   om_find lt (om_erase lt k m) x = (if same k x then None else om_find lt m x)"
proof (induction m)
  case (Cons p m)
  then show ?case
    using find_below [of m "fst p" x] by (cases p) (auto simp: lt_eq)
qed simp

lemma range_above: "\<forall>q\<in>set m. ord_key k < ord_key (fst q) \<Longrightarrow> mm_range lt m k = []"
  by (auto simp: mm_range_def filter_empty_conv lt_ord_key)

lemma range_insert:
  "mm_sorted lt m \<Longrightarrow>
   mm_range lt (mm_insert lt k v m) x = mm_range lt m x @ (if same k x then [(k, v)] else [])"
proof (induction m)
  case (Cons p m)
  obtain a w where p: "p = (a, w)" by (cases p)
  show ?case
  proof (cases "lt k a")
    case True
    then have "same k x \<Longrightarrow> mm_range lt (p # m) x = []"
      using Cons.prems p by (intro range_above) (auto simp: lt_ord_key not_less)
    with True p show ?thesis by (auto simp: mm_range_def lt_ord_key)
  next
    case False
    with Cons p show ?thesis by (auto simp: mm_range_def)
  qed
qed (auto simp: mm_range_def lt_ord_key not_less)

lemma find_in_range: "mm_sorted lt m \<Longrightarrow>
  om_find lt m k = (case mm_range lt m k of [] \<Rightarrow> None | p # _ \<Rightarrow> Some (snd p))"
proof (induction m)
  case (Cons p m)
  obtain a w where p: "p = (a, w)" by (cases p)
  show ?case
  proof (cases "lt k a")
    case True
    then have "mm_range lt (p # m) k = []"
      using Cons.prems p by (intro range_above) (auto simp: lt_ord_key not_less)
    with True p show ?thesis by (simp add: lt_asym)
  next
    case False
    with Cons p show ?thesis by (auto simp: mm_range_def)
  qed
qed simp

lemma find_Some_in: "om_find lt m k = Some v \<Longrightarrow> \<exists>a. (a, v) \<in> set m \<and> same a k"
  by (induction m) (auto simp: lt_ord_key split: if_splits)

lemma in_find: "om_sorted lt m \<Longrightarrow> (a, v) \<in> set m \<Longrightarrow> om_find lt m a = Some v"
  by (induction m) (auto simp: lt_ord_key)

lemma find_None_iff: "om_sorted lt m \<Longrightarrow> om_find lt m k = None \<longleftrightarrow> (\<forall>p\<in>set m. \<not> same (fst p) k)"
proof (induction m)
  case (Cons p m)
  then show ?case by (cases p) (auto simp: lt_ord_key)
qed simp

end

text \<open>The comparator on lists that \<open>std::lexicographical_compare\<close> makes of one on elements.\<close>

fun lex_compare :: "('a \<Rightarrow> 'a \<Rightarrow> bool) \<Rightarrow> 'a list \<Rightarrow> 'a list \<Rightarrow> bool" where
  "lex_compare lt xs [] = False"
| "lex_compare lt [] (y # ys) = True"
| "lex_compare lt (x # xs) (y # ys) =
     (if lt x y then True else if lt y x then False else lex_compare lt xs ys)"

context comparator begin

text \<open>Lexicographic comparison of lists is again a comparator, on the lists of images.\<close>

lemma lex_ord_key: "lex_compare lt xs ys \<longleftrightarrow> map ord_key xs < map ord_key ys"
  by (induction xs ys rule: list_induct2') (auto simp: lt_ord_key)

end

end
