(* ===== verification/Text.thy ===== *)
theory Text
  imports Ordered_Map
begin

text \<open>
  Characters, ranges and string utilities (\<open>include/details/char_traits.hpp\<close>,
  \<open>functors.hpp\<close>, \<open>range.hpp\<close>, \<open>string_utils.hpp\<close>). The classification of characters is
  that of the C locale, which the program never changes: only ASCII characters are letters,
  digits or white space. A range is the list of the characters between its iterators, an
  iterator inside a range is the number of characters before it.
\<close>

section \<open>Characters\<close>

definition is_space :: "char \<Rightarrow> bool" where
  "is_space c \<longleftrightarrow> uchar c = 32 \<or> 9 \<le> uchar c \<and> uchar c \<le> 13"

definition is_blank :: "char \<Rightarrow> bool" where
  "is_blank c \<longleftrightarrow> uchar c = 32 \<or> uchar c = 9"

definition is_alpha :: "char \<Rightarrow> bool" where
  "is_alpha c \<longleftrightarrow> 65 \<le> uchar c \<and> uchar c \<le> 90 \<or> 97 \<le> uchar c \<and> uchar c \<le> 122"

definition is_alpha_numeric :: "char \<Rightarrow> bool" where
  "is_alpha_numeric c \<longleftrightarrow> is_alpha c \<or> 48 \<le> uchar c \<and> uchar c \<le> 57"

definition to_upper :: "char \<Rightarrow> char" where
  "to_upper c = (if 97 \<le> uchar c \<and> uchar c \<le> 122 then char_of (uchar c - 32) else c)"

definition to_lower :: "char \<Rightarrow> char" where
  "to_lower c = (if 65 \<le> uchar c \<and> uchar c \<le> 90 then char_of (uchar c + 32) else c)"

definition is_line_end :: "char \<Rightarrow> bool" where
  "is_line_end c \<longleftrightarrow> CHR 0x0A = c \<or> CHR 0x0D = c"

definition is_not_line_end :: "char \<Rightarrow> bool" where
  "is_not_line_end c \<longleftrightarrow> \<not> is_line_end c"

lemma uchar_eq_iff: "n < 256 \<Longrightarrow> uchar c = n \<longleftrightarrow> c = char_of n"
  by (auto simp: uchar_def)

lemma line_end_is_space: "is_line_end c \<Longrightarrow> is_space c"
  by (auto simp: is_line_end_def is_space_def uchar_def)

lemma blank_is_space: "is_blank c \<Longrightarrow> is_space c"
  by (auto simp: is_blank_def is_space_def)

lemma blank_not_line_end: "is_blank c \<Longrightarrow> \<not> is_line_end c"
  by (auto simp: is_line_end_def is_blank_def uchar_def)

lemma uchar_to_lower:
  "uchar (to_lower c) = (if 65 \<le> uchar c \<and> uchar c \<le> 90 then uchar c + 32 else uchar c)"
  by (simp add: to_lower_def)

lemma to_lower_idem [simp]: "to_lower (to_lower c) = to_lower c"
  by (simp add: to_lower_def)

lemma to_lower_to_upper [simp]: "to_lower (to_upper c) = to_lower c"
  by (auto simp: to_lower_def to_upper_def)

section \<open>Comparators\<close>

definition ci_less_char :: "char \<Rightarrow> char \<Rightarrow> bool" where
  "ci_less_char var target \<longleftrightarrow> schar (to_lower var) < schar (to_lower target)"

definition ci_equal_char :: "char \<Rightarrow> char \<Rightarrow> bool" where
  "ci_equal_char var target \<longleftrightarrow> to_lower var = to_lower target"

definition is_ci_less :: "string \<Rightarrow> string \<Rightarrow> bool" where
  "is_ci_less var target = lex_compare ci_less_char var target"

definition is_ci_equal :: "string \<Rightarrow> string \<Rightarrow> bool" where
  "is_ci_equal var target \<longleftrightarrow> length var = length target \<and> list_all2 ci_equal_char var target"

text \<open>\<open>std::less<std::string>\<close>: strings compare by their bytes.\<close>

definition string_less :: "string \<Rightarrow> string \<Rightarrow> bool" where
  "string_less s t = lex_compare (\<lambda>a b. uchar a < uchar b) s t"

definition lower_key :: "string \<Rightarrow> int list" where
  "lower_key s = map (\<lambda>c. schar (to_lower c)) s"

interpretation ci_char: comparator ci_less_char "\<lambda>c. schar (to_lower c)"
  by unfold_locales (simp add: ci_less_char_def)

interpretation ci_string: comparator is_ci_less lower_key
  by unfold_locales (simp add: is_ci_less_def lower_key_def ci_char.lex_ord_key)

interpretation byte_char: comparator "\<lambda>a b. uchar a < uchar b" uchar
  by unfold_locales simp

interpretation byte_string: comparator string_less "map uchar"
  by unfold_locales (simp add: string_less_def byte_char.lex_ord_key)

lemma is_ci_equal_iff: "is_ci_equal s t \<longleftrightarrow> map to_lower s = map to_lower t"
  by (auto simp: is_ci_equal_def ci_equal_char_def list_all2_conv_all_nth list_eq_iff_nth_eq)

lemma lower_key_eq_iff: "lower_key s = lower_key t \<longleftrightarrow> map to_lower s = map to_lower t"
proof -
  have "lower_key s = map schar (map to_lower s)" for s by (simp add: lower_key_def)
  moreover have "inj schar" by (simp add: inj_def)
  ultimately show ?thesis by (simp only: inj_map_eq_map)
qed

lemma map_uchar_eq_iff [simp]: "map uchar s = map uchar t \<longleftrightarrow> s = t"
  by (rule inj_map_eq_map) (simp add: inj_def)

section \<open>Ranges\<close>

definition range_clear :: "string \<Rightarrow> string" where
  "range_clear r = drop (length r) r"

definition range_empty :: "string \<Rightarrow> bool" where
  "range_empty r \<longleftrightarrow> r = []"

definition range_size :: "string \<Rightarrow> int" where
  "range_size r = int (length r)"

definition range_at :: "string \<Rightarrow> nat \<Rightarrow> char result" where
  "range_at r i = (if i < length r then Inr (r ! i) else Inl Undefined_behaviour)"

definition range_less :: "string \<Rightarrow> string \<Rightarrow> bool" where
  "range_less r other = lex_compare (\<lambda>a b. schar a < schar b) r other"

definition range_greater :: "string \<Rightarrow> string \<Rightarrow> bool" where
  "range_greater r other = lex_compare (\<lambda>a b. schar a > schar b) r other"

definition range_eq :: "string \<Rightarrow> string \<Rightarrow> bool" where
  "range_eq r other \<longleftrightarrow>
     (if length r = length other then list_all2 (=) r other else False)"

definition range_neq :: "string \<Rightarrow> string \<Rightarrow> bool" where
  "range_neq r other \<longleftrightarrow> \<not> range_eq r other"

definition range_le :: "string \<Rightarrow> string \<Rightarrow> bool" where
  "range_le r other \<longleftrightarrow> \<not> range_greater r other"

definition range_ge :: "string \<Rightarrow> string \<Rightarrow> bool" where
  "range_ge r other \<longleftrightarrow> \<not> range_less r other"

text \<open>\<open>make_range(char const *)\<close> ends at the terminating zero character.\<close>

definition make_range_cstr :: "string \<Rightarrow> string" where
  "make_range_cstr s = takeWhile (\<lambda>c. c \<noteq> CHR 0x00) s"

interpretation signed_char: comparator "\<lambda>a b. schar a < schar b" schar
  by unfold_locales simp

interpretation range_order: comparator range_less "map schar"
  by unfold_locales (simp add: range_less_def signed_char.lex_ord_key)

lemma range_eq_iff: "range_eq r s \<longleftrightarrow> r = s"
  by (auto simp: range_eq_def list.rel_eq)

lemma range_prefix_both:
  "t \<noteq> [] \<Longrightarrow> range_less s (s @ t) \<and> range_greater s (s @ t) \<and> \<not> range_le s (s @ t)"
proof -
  assume "t \<noteq> []"
  then have "lex_compare lt s (s @ t)" if "\<And>x. \<not> lt x x" for lt
    using that by (induction s) (auto simp: neq_Nil_conv)
  from this [of "\<lambda>a b. schar a < schar b"] this [of "\<lambda>a b. schar a > schar b"]
  show ?thesis by (simp add: range_less_def range_greater_def range_le_def)
qed

section \<open>Searching, trimming and splitting\<close>

fun find_not :: "string \<Rightarrow> char \<Rightarrow> string" where
  "find_not [] value = []"
| "find_not (x # xs) value = (if value \<noteq> x then x # xs else find_not xs value)"

fun find_if_not :: "(char \<Rightarrow> bool) \<Rightarrow> string \<Rightarrow> string" where
  "find_if_not pred [] = []"
| "find_if_not pred (x # xs) = (if \<not> pred x then x # xs else find_if_not pred xs)"

definition trim_left :: "string \<Rightarrow> string" where
  "trim_left r = find_if_not is_space r"

definition trim_right :: "string \<Rightarrow> string" where
  "trim_right r = rev (find_if_not is_space (rev r))"

definition trim :: "string \<Rightarrow> string" where
  "trim r = trim_left (trim_right r)"

fun drop_front :: "string \<Rightarrow> nat \<Rightarrow> string" where
  "drop_front [] left = []"
| "drop_front (x # xs) 0 = x # xs"
| "drop_front (x # xs) (Suc left) = drop_front xs left"

definition truncate_range :: "string \<Rightarrow> nat \<Rightarrow> nat \<Rightarrow> string" where
  "truncate_range r left right = rev (drop_front (rev (drop_front r left)) right)"

definition do_split :: "string \<Rightarrow> nat \<Rightarrow> nat \<Rightarrow> bool \<times> string \<times> string" where
  "do_split r pos sz =
     (if pos \<noteq> length r then (True, take pos r, drop (pos + sz) r)
      else (False, take pos r, []))"

text \<open>The positions the standard searches return.\<close>

fun std_find_if :: "(char \<Rightarrow> bool) \<Rightarrow> string \<Rightarrow> nat" where
  "std_find_if P [] = 0"
| "std_find_if P (x # xs) = (if P x then 0 else Suc (std_find_if P xs))"

fun std_search :: "string \<Rightarrow> string \<Rightarrow> nat" where
  "std_search delim [] = 0"
| "std_search delim (x # xs) =
     (if take (length delim) (x # xs) = delim then 0 else Suc (std_search delim xs))"

definition split_once_char :: "string \<Rightarrow> char \<Rightarrow> bool \<times> string \<times> string" where
  "split_once_char r c = do_split r (std_find_if (\<lambda>x. x = c) r) 1"

definition split_once_range :: "string \<Rightarrow> string \<Rightarrow> bool \<times> string \<times> string" where
  "split_once_range r delim = do_split r (std_search delim r) (length delim)"

definition split_once_cstr :: "string \<Rightarrow> string \<Rightarrow> bool \<times> string \<times> string" where
  "split_once_cstr r chars = split_once_range r (make_range_cstr chars)"

definition split_first_of_once :: "string \<Rightarrow> string \<Rightarrow> bool \<times> string \<times> string" where
  "split_first_of_once r delim = do_split r (std_find_if (\<lambda>x. x \<in> set delim) r) 1"

definition split_first_of_once_cstr :: "string \<Rightarrow> string \<Rightarrow> bool \<times> string \<times> string" where
  "split_first_of_once_cstr r chars = split_first_of_once r (make_range_cstr chars)"

definition split_if_once :: "string \<Rightarrow> (char \<Rightarrow> bool) \<Rightarrow> bool \<times> string \<times> string" where
  "split_if_once r func = do_split r (std_find_if func r) 1"

definition starts_with :: "string \<Rightarrow> string \<Rightarrow> bool" where
  "starts_with r pre \<longleftrightarrow>
     (if length pre \<le> length r then take (length pre) r = pre else False)"

definition ends_with :: "string \<Rightarrow> string \<Rightarrow> bool" where
  "ends_with r suf \<longleftrightarrow>
     (if length suf \<le> length r then drop (length r - length suf) r = suf else False)"

lemma find_if_not_dropWhile: "find_if_not P xs = dropWhile P xs"
  by (induction xs) auto

lemma drop_front_drop: "drop_front xs n = drop n xs"
  by (induction xs n rule: drop_front.induct) auto

lemma std_find_if_takeWhile: "std_find_if P xs = length (takeWhile (\<lambda>x. \<not> P x) xs)"
  by (induction xs) auto

lemma std_find_if_le: "std_find_if P xs \<le> length xs"
  by (simp add: std_find_if_takeWhile length_takeWhile_le)

lemma std_find_if_append:
  "\<forall>x\<in>set xs. \<not> P x \<Longrightarrow> P y \<Longrightarrow> std_find_if P (xs @ y # ys) = length xs"
  by (induction xs) auto

lemma std_find_if_none: "\<forall>x\<in>set xs. \<not> P x \<Longrightarrow> std_find_if P xs = length xs"
  by (induction xs) auto

lemma split_if_once_found:
  "\<forall>x\<in>set a. \<not> P x \<Longrightarrow> P c \<Longrightarrow> split_if_once (a @ c # b) P = (True, a, b)"
  by (simp add: split_if_once_def do_split_def std_find_if_append)

lemma split_if_once_none:
  "\<forall>x\<in>set a. \<not> P x \<Longrightarrow> split_if_once a P = (False, a, [])"
  by (simp add: split_if_once_def do_split_def std_find_if_none)

lemma split_once_char_if: "split_once_char r c = split_if_once r (\<lambda>x. x = c)"
  by (simp add: split_once_char_def split_if_once_def)

lemma split_first_of_if: "split_first_of_once r d = split_if_once r (\<lambda>x. x \<in> set d)"
  by (simp add: split_first_of_once_def split_if_once_def)

lemma split_once_char_found [simp]:
  "c \<notin> set a \<Longrightarrow> split_once_char (a @ c # b) c = (True, a, b)"
  unfolding split_once_char_if by (rule split_if_once_found) auto

lemma split_once_char_none [simp]: "c \<notin> set a \<Longrightarrow> split_once_char a c = (False, a, [])"
  unfolding split_once_char_if by (rule split_if_once_none) auto

lemma split_if_once_rest_less:
  "r \<noteq> [] \<Longrightarrow> split_if_once r P = (b, x, y) \<Longrightarrow> length y < length r"
  by (auto simp: split_if_once_def do_split_def split: if_splits)

lemma split_once_char_rest_less:
  "r \<noteq> [] \<Longrightarrow> split_once_char r c = (b, x, y) \<Longrightarrow> length y < length r"
  unfolding split_once_char_if by (rule split_if_once_rest_less)

lemma split_first_of_rest_less:
  "r \<noteq> [] \<Longrightarrow> split_first_of_once r d = (b, x, y) \<Longrightarrow> length y < length r"
  unfolding split_first_of_if by (rule split_if_once_rest_less)

text \<open>Whatever the search, the parts of a split are the range without the delimiter.\<close>

lemma split_if_once_parts:
  "split_if_once r P = (True, x, y) \<longleftrightarrow>
   (\<exists>c. r = x @ c # y \<and> P c \<and> (\<forall>z\<in>set x. \<not> P z))"
proof
  assume "split_if_once r P = (True, x, y)"
  then have ne: "std_find_if P r \<noteq> length r"
    and x: "x = take (std_find_if P r) r" and y: "y = drop (std_find_if P r + 1) r"
    by (auto simp: split_if_once_def do_split_def split: if_splits)
  let ?n = "std_find_if P r"
  from ne have lt: "?n < length r" using std_find_if_le [of P r] by simp
  then have "r = take ?n r @ r ! ?n # drop (Suc ?n) r" by (rule id_take_nth_drop)
  moreover have "P (r ! ?n)"
    using lt nth_length_takeWhile [of "\<lambda>x. \<not> P x" r] by (simp add: std_find_if_takeWhile)
  moreover have "\<forall>z\<in>set (take ?n r). \<not> P z"
    by (metis std_find_if_takeWhile takeWhile_eq_take set_takeWhileD)
  ultimately show "\<exists>c. r = x @ c # y \<and> P c \<and> (\<forall>z\<in>set x. \<not> P z)"
    using x y by auto
next
  assume "\<exists>c. r = x @ c # y \<and> P c \<and> (\<forall>z\<in>set x. \<not> P z)"
  then show "split_if_once r P = (True, x, y)" by (auto intro: split_if_once_found)
qed

lemma trim_left_dropWhile: "trim_left r = dropWhile is_space r"
  by (simp add: trim_left_def find_if_not_dropWhile)

lemma trim_right_dropWhile: "trim_right r = rev (dropWhile is_space (rev r))"
  by (simp add: trim_right_def find_if_not_dropWhile)

lemma trim_left_id: "r = [] \<or> \<not> is_space (hd r) \<Longrightarrow> trim_left r = r"
  by (cases r) (auto simp: trim_left_dropWhile)

lemma trim_right_id: "r = [] \<or> \<not> is_space (last r) \<Longrightarrow> trim_right r = r"
  by (cases r rule: rev_cases) (auto simp: trim_right_dropWhile)

lemma trim_id: "r = [] \<or> \<not> is_space (hd r) \<and> \<not> is_space (last r) \<Longrightarrow> trim r = r"
  by (auto simp: trim_def trim_left_id trim_right_id)

lemma trim_left_space: "\<forall>c\<in>set w. is_space c \<Longrightarrow> trim_left (w @ r) = trim_left r"
  by (simp add: trim_left_dropWhile dropWhile_append)

lemma trim_right_space: "\<forall>c\<in>set w. is_space c \<Longrightarrow> trim_right (r @ w) = trim_right r"
  by (simp add: trim_right_dropWhile dropWhile_append)

lemma trim_right_left_comm: "trim_left (trim_right r) = trim_right (trim_left r)"
proof (cases "\<forall>c\<in>set r. is_space c")
  case True
  then have "dropWhile is_space r = []" "dropWhile is_space (rev r) = []" by simp_all
  then show ?thesis by (simp only: trim_left_dropWhile trim_right_dropWhile) simp
next
  case False
  then obtain a c b where r: "r = a @ c # b" "\<forall>x\<in>set a. is_space x" "\<not> is_space c"
    using split_list_first_prop [of r "\<lambda>c. \<not> is_space c"] by auto
  have "trim_right (a @ c # b) = a @ trim_right (c # b)"
    using r(3) by (simp add: trim_right_dropWhile dropWhile_append)
  moreover have "trim_right (c # b) = c # trim_right b"
    using r(3) by (cases "\<forall>x\<in>set b. is_space x")
      (auto simp: trim_right_dropWhile dropWhile_append)
  ultimately show ?thesis
    using r by (auto simp: trim_left_space trim_left_dropWhile dropWhile_append)
qed

lemma hd_trim: "trim r \<noteq> [] \<Longrightarrow> \<not> is_space (hd (trim r))"
  by (simp add: trim_def trim_left_dropWhile hd_dropWhile)

lemma last_trim: "trim r \<noteq> [] \<Longrightarrow> \<not> is_space (last (trim r))"
  unfolding trim_def trim_right_left_comm
  by (simp add: trim_right_dropWhile last_rev hd_dropWhile)

end
