(* ===== verification/Line_Reader.thy ===== *)
theory Line_Reader
  imports Text
begin

text \<open>
  The reader of header lines (\<open>include/details/line_reader.hpp\<close>). The reader owns the
  characters from its position to the end of the buffer. A line ends at a run of line ends
  that is not followed by a blank: a blank after the line ends continues the line, and the
  reader then reports it as a multi-line one. The whole run of line ends is returned with the
  line.
\<close>

record line_reader =
  lr_begin :: string
  lr_multiline :: bool

definition line_reader :: "string \<Rightarrow> line_reader" where
  "line_reader s = \<lparr>lr_begin = s, lr_multiline = False\<rparr>"

function read_line_loop :: "string \<Rightarrow> string \<Rightarrow> bool \<Rightarrow> string \<times> string \<times> line_reader" where
  "read_line_loop before position ml =
     (let line_end = find_if_not is_not_line_end position;
          newline_begin = find_if_not is_line_end line_end;
          line = before @ take (length position - length line_end) position;
          end_line = take (length line_end - length newline_begin) line_end
      in if line_end = [] \<or> newline_begin = []
         then (line, end_line, \<lparr>lr_begin = [], lr_multiline = ml\<rparr>)
         else if \<not> is_blank (hd newline_begin)
         then (line, end_line, \<lparr>lr_begin = newline_begin, lr_multiline = ml\<rparr>)
         else read_line_loop (line @ end_line) newline_begin True)"
  by pat_completeness auto
termination
proof (relation "measure (\<lambda>(_, position, _). length position)", simp)
  fix before position :: string and ml line_end newline_begin line end_line
  assume *: "line_end = find_if_not is_not_line_end position"
    "newline_begin = find_if_not is_line_end line_end" "\<not> (line_end = [] \<or> newline_begin = [])"
  have "is_line_end (hd line_end)"
    using * hd_dropWhile [of is_not_line_end position]
    by (auto simp: find_if_not_dropWhile is_not_line_end_def)
  then have "length newline_begin < length line_end"
    using * by (simp add: find_if_not_dropWhile length_dropWhile_less)
  also have "length line_end \<le> length position"
    using * by (simp add: find_if_not_dropWhile length_dropWhile_le)
  finally show "((line @ end_line, newline_begin, True), before, position, ml)
    \<in> measure (\<lambda>(_, position, _). length position)" by simp
qed

definition read_line :: "line_reader \<Rightarrow> (string \<times> string \<times> line_reader) option" where
  "read_line lr = (if lr_begin lr = [] then None else Some (read_line_loop [] (lr_begin lr) False))"

declare read_line_loop.simps [simp del]

text \<open>The three parts of the buffer at a position: up to the first line end, the run of line
  ends, and what follows it.\<close>

definition line_part :: "string \<Rightarrow> string" where
  "line_part s = takeWhile is_not_line_end s"

definition end_part :: "string \<Rightarrow> string" where
  "end_part s = takeWhile is_line_end (dropWhile is_not_line_end s)"

definition next_part :: "string \<Rightarrow> string" where
  "next_part s = dropWhile is_line_end (dropWhile is_not_line_end s)"

lemma parts_append: "line_part s @ end_part s @ next_part s = s"
  by (simp add: line_part_def end_part_def next_part_def)

lemma line_part_no_end: "\<forall>c\<in>set (line_part s). \<not> is_line_end c"
  by (auto simp: line_part_def is_not_line_end_def dest: set_takeWhileD)

lemma end_part_all_end: "\<forall>c\<in>set (end_part s). is_line_end c"
  by (auto simp: end_part_def dest: set_takeWhileD)

lemma next_part_hd: "next_part s \<noteq> [] \<Longrightarrow> \<not> is_line_end (hd (next_part s))"
  unfolding next_part_def by (rule hd_dropWhile) auto

lemma next_part_end: "next_part s \<noteq> [] \<Longrightarrow> end_part s \<noteq> []"
proof -
  assume ne: "next_part s \<noteq> []"
  then have "dropWhile is_not_line_end s \<noteq> []" unfolding next_part_def by force
  then obtain c t where t: "dropWhile is_not_line_end s = c # t"
    by (cases "dropWhile is_not_line_end s") auto
  then have "is_line_end c" by (metis dropWhile_hd is_not_line_end_def)
  with t show ?thesis by (simp add: end_part_def)
qed

lemma next_part_shorter: "next_part s \<noteq> [] \<Longrightarrow> length (next_part s) < length s"
proof -
  assume "next_part s \<noteq> []"
  then have "end_part s \<noteq> []" by (rule next_part_end)
  moreover have "length (line_part s) + length (end_part s) + length (next_part s) = length s"
    by (metis parts_append length_append add.assoc)
  ultimately show ?thesis by (cases "end_part s") auto
qed

lemma span_take: "take (length s - length (dropWhile P s)) s = takeWhile P s"
proof -
  have "length (takeWhile P s) + length (dropWhile P s) = length s"
    by (simp flip: length_append)
  then have "length s - length (dropWhile P s) = length (takeWhile P s)" by simp
  then show ?thesis by (metis takeWhile_eq_take)
qed

lemma read_line_loop_eq:
  "read_line_loop before position ml =
     (if next_part position = []
      then (before @ line_part position, end_part position, \<lparr>lr_begin = [], lr_multiline = ml\<rparr>)
      else if \<not> is_blank (hd (next_part position))
      then (before @ line_part position, end_part position,
            \<lparr>lr_begin = next_part position, lr_multiline = ml\<rparr>)
      else read_line_loop (before @ line_part position @ end_part position) (next_part position) True)"
proof -
  let ?le = "find_if_not is_not_line_end position"
  let ?nb = "find_if_not is_line_end ?le"
  have parts: "take (length position - length ?le) position = line_part position"
    "?nb = next_part position" "take (length ?le - length (next_part position)) ?le = end_part position"
    by (simp_all only: line_part_def end_part_def next_part_def find_if_not_dropWhile span_take)
  have "?le = [] \<or> next_part position = [] \<longleftrightarrow> next_part position = []"
    using parts(2) by auto
  then show ?thesis
    by (subst read_line_loop.simps) (simp only: Let_def parts append_assoc)
qed

lemma read_line_loop_concat:
  "read_line_loop before position ml = (line, end_line, lr) \<Longrightarrow>
   before @ position = line @ end_line @ lr_begin lr"
proof (induction "length position" arbitrary: before position ml rule: less_induct)
  case less
  show ?case
    using less.prems less.hyps [OF next_part_shorter] parts_append [of position]
    by (subst (asm) read_line_loop_eq) (force split: if_splits)
qed

lemma read_line_loop_end_line:
  "read_line_loop before position ml = (line, end_line, lr) \<Longrightarrow>
   (\<forall>c\<in>set end_line. is_line_end c) \<and>
   (lr_begin lr \<noteq> [] \<longrightarrow>
      end_line \<noteq> [] \<and> \<not> is_line_end (hd (lr_begin lr)) \<and> \<not> is_blank (hd (lr_begin lr)))"
proof (induction "length position" arbitrary: before position ml rule: less_induct)
  case less
  show ?case
    using less.prems less.hyps [OF next_part_shorter] end_part_all_end [of position]
      next_part_end [of position] next_part_hd [of position]
    by (subst (asm) read_line_loop_eq) (force split: if_splits)
qed

lemma read_line_loop_multiline:
  "read_line_loop before position ml = (line, end_line, lr) \<Longrightarrow>
   ml = (\<exists>c\<in>set before. is_line_end c) \<Longrightarrow>
   lr_multiline lr = (\<exists>c\<in>set line. is_line_end c)"
proof (induction "length position" arbitrary: before position ml rule: less_induct)
  case less
  have ex: "\<exists>c\<in>set (end_part position). is_line_end c" if "next_part position \<noteq> []"
    using next_part_end [OF that] end_part_all_end [of position] by (cases "end_part position") auto
  show ?case
  proof (cases "next_part position \<noteq> [] \<and> is_blank (hd (next_part position))")
    case True
    with less.prems have "read_line_loop (before @ line_part position @ end_part position)
        (next_part position) True = (line, end_line, lr)"
      by (subst (asm) read_line_loop_eq) simp
    from less.hyps [OF next_part_shorter this] True ex show ?thesis by auto
  next
    case False
    with less.prems line_part_no_end [of position] show ?thesis
      by (subst (asm) read_line_loop_eq) (auto split: if_splits)
  qed
qed

lemma read_line_cases:
  assumes "read_line lr = Some (line, end_line, lr')"
  shows "lr_begin lr = line @ end_line @ lr_begin lr'"
    and "\<forall>c\<in>set end_line. is_line_end c"
    and "lr_begin lr' \<noteq> [] \<Longrightarrow> end_line \<noteq> []"
    and "lr_begin lr' \<noteq> [] \<Longrightarrow> \<not> is_line_end (hd (lr_begin lr')) \<and> \<not> is_blank (hd (lr_begin lr'))"
    and "lr_multiline lr' \<longleftrightarrow> (\<exists>c\<in>set line. is_line_end c)"
  using assms read_line_loop_concat [of "[]" "lr_begin lr" False line end_line lr']
    read_line_loop_end_line [of "[]" "lr_begin lr" False line end_line lr']
    read_line_loop_multiline [of "[]" "lr_begin lr" False line end_line lr']
  by (auto simp: read_line_def split: if_splits)

lemma read_line_shorter:
  "read_line lr = Some (line, end_line, lr') \<Longrightarrow> length (lr_begin lr') < length (lr_begin lr)"
proof -
  assume rl: "read_line lr = Some (line, end_line, lr')"
  then have "lr_begin lr \<noteq> []" by (auto simp: read_line_def)
  with read_line_cases(1,3) [OF rl] show ?thesis
    by (cases "lr_begin lr' = []") auto
qed

text \<open>The line the reader returns when the line ends of a line are not continued.\<close>

lemma parts_simple:
  assumes "\<forall>c\<in>set line. \<not> is_line_end c" "\<forall>c\<in>set el. is_line_end c" "el \<noteq> []"
    and "rest = [] \<or> \<not> is_line_end (hd rest)"
  shows "line_part (line @ el @ rest) = line" "end_part (line @ el @ rest) = el"
    "next_part (line @ el @ rest) = rest"
proof -
  obtain c el' where c: "el = c # el'" "is_line_end c" using assms(2,3) by (cases el) auto
  have line: "takeWhile is_not_line_end (line @ el @ rest) = line"
    "dropWhile is_not_line_end (line @ el @ rest) = el @ rest"
    using assms(1) c by (simp_all add: takeWhile_stop dropWhile_stop is_not_line_end_def)
  have el: "takeWhile is_line_end (el @ rest) = el" "dropWhile is_line_end (el @ rest) = rest"
    using assms(2,4) by (cases rest; simp add: takeWhile_stop dropWhile_stop)+
  show "line_part (line @ el @ rest) = line" "end_part (line @ el @ rest) = el"
    "next_part (line @ el @ rest) = rest"
    by (simp_all add: line_part_def end_part_def next_part_def line el)
qed

lemma read_line_simple:
  assumes "\<forall>c\<in>set line. \<not> is_line_end c" "\<forall>c\<in>set el. is_line_end c" "el \<noteq> []"
    and "rest = [] \<or> \<not> is_line_end (hd rest) \<and> \<not> is_blank (hd rest)"
    and "lr_begin lr = line @ el @ rest"
  shows "read_line lr = Some (line, el, \<lparr>lr_begin = rest, lr_multiline = False\<rparr>)"
proof -
  have "rest = [] \<or> \<not> is_line_end (hd rest)" using assms(4) by auto
  note parts = parts_simple [OF assms(1-3) this]
  show ?thesis
    unfolding read_line_def assms(5) read_line_loop_eq [of "[]" "line @ el @ rest"] parts
    using assms(3,4) by auto
qed



end
