(* ===== verification/Urlencode.thy ===== *)
theory Urlencode
  imports Text
begin

unbundle bit_operations_syntax

text \<open>
  Percent encoding and decoding (\<open>include/details/urlencode.hpp\<close>). The arithmetic is that of
  the code: characters are promoted to \<open>int\<close>, masked, and cast back to a character, which
  keeps the low eight bits.
\<close>

definition unreserved_marks :: string where
  "unreserved_marks = ''-_.!~*()'' @ [CHR 0x27]"

definition urlencode_byte :: "char \<Rightarrow> string" where
  "urlencode_byte c =
     (let b1 = (schar c AND 0xF0) div 16; b2 = schar c AND 0x0F;
          digit = (\<lambda>b. char_of (b + (if b > 9 then schar (CHR ''A'') - 10 else schar (CHR ''0''))))
      in [CHR ''%'', digit b1, digit b2])"

fun urlencode :: "string \<Rightarrow> string" where
  "urlencode [] = []"
| "urlencode (c # cs) =
     (if is_alpha_numeric c then c # urlencode cs
      else if c \<in> set unreserved_marks then c # urlencode cs
      else urlencode_byte c @ urlencode cs)"

definition hex_value :: "char \<Rightarrow> int" where
  "hex_value d =
     (if schar d \<ge> schar (CHR ''A'') then (schar d AND 0xDF) - schar (CHR ''A'') + 10
      else schar d - schar (CHR ''0''))"

fun urldecode :: "string \<Rightarrow> string" where
  "urldecode [] = []"
| "urldecode (c # cs) =
     (if c = CHR ''+'' then CHR '' '' # urldecode cs
      else if c = CHR ''%'' then
        (case cs of
           first # second # rest \<Rightarrow>
             char_of (hex_value first * 16 + hex_value second) # urldecode rest
         | _ \<Rightarrow> CHR ''%'' # urldecode cs)
      else c # urldecode cs)"

text \<open>A digit the encoder writes is read back as its value.\<close>

lemma and_low_nibble: "x AND 0x0F = x mod 16" for x :: int
proof -
  have "x AND mask 4 = x mod 2 ^ 4" by (simp add: take_bit_eq_mod flip: take_bit_eq_mask)
  then show ?thesis by (simp add: mask_eq_exp_minus_1)
qed

lemma and_high_nibble: "(x AND 0xF0) div 16 = (x div 16) mod 16" for x :: int
proof -
  have "drop_bit 4 (x AND 0xF0) = drop_bit 4 x AND drop_bit 4 0xF0" by (rule drop_bit_and)
  then show ?thesis by (simp add: drop_bit_eq_div and_low_nibble)
qed

lemma mod_16_minus_256: "(u - 256) mod 16 = u mod 16" for u :: int
  using mod_mult_self2 [of "u - 256" 16 16] by simp

lemma div_16_minus_256: "(u - 256) div 16 = u div 16 - 16" for u :: int
  using div_mult_self2 [of 16 "u - 256" 16] by simp

lemma nibble_high: "(schar c AND 0xF0) div 16 = int (uchar c div 16)"
proof -
  have "int (uchar c div 16) < int 16"
    by (simp only: of_nat_less_iff uchar_div_16)
  then have "int (uchar c) div 16 < 16" "0 \<le> int (uchar c) div 16"
    by (simp_all only: zdiv_int of_nat_numeral)
  then have "(schar c div 16) mod 16 = int (uchar c) div 16"
    using mod_mult_self2 [of "int (uchar c) div 16 - 16" 16 1]
    by (simp add: schar_def div_16_minus_256)
  then show ?thesis by (simp add: and_high_nibble zdiv_int)
qed

lemma nibble_low: "schar c AND 0x0F = int (uchar c mod 16)"
  by (simp add: and_low_nibble zmod_int schar_def mod_16_minus_256)

lemma schar_literals [simp]:
  "schar (CHR ''A'') = 65" "schar (CHR ''0'') = 48"
  by (simp_all add: schar_def uchar_def)

definition hex_digit :: "nat \<Rightarrow> char" where
  "hex_digit n = char_of (n + (if n > 9 then 55 else 48))"

lemma below_16_cases:
  assumes "(n::nat) < 16"
  shows "n \<in> {0, 1, 2, 3, 4, 5, 6, 7, 8, 9, 10, 11, 12, 13, 14, 15}"
  using assms by simp arith

lemma uchar_hex_digit: "n < 16 \<Longrightarrow> uchar (hex_digit n) = (if n > 9 then n + 55 else n + 48)"
  by (simp add: hex_digit_def)

lemma hex_value_digit: "n < 16 \<Longrightarrow> hex_value (hex_digit n) = int n"
  unfolding hex_value_def schar_literals unfolding schar_def
  by (simp add: uchar_hex_digit) (drule below_16_cases, auto)

lemma alpha_numeric_digit: "n < 16 \<Longrightarrow> is_alpha_numeric (hex_digit n)"
  by (simp add: is_alpha_numeric_def is_alpha_def uchar_hex_digit)

lemma urlencode_byte_digits:
  "urlencode_byte c = [CHR ''%'', hex_digit (uchar c div 16), hex_digit (uchar c mod 16)]"
proof -
  have "char_of (int n + (if int n > 9 then 65 - 10 else 48)) = hex_digit n" for n
    using char_of_nat [of "n + (if n > 9 then 55 else 48)"]
    by (simp add: hex_digit_def split: if_splits)
  then show ?thesis
    unfolding urlencode_byte_def nibble_high nibble_low by (simp only: Let_def schar_literals)
qed

lemma char_of_int_uchar [simp]: "char_of (int (uchar c)) = c"
  by (simp add: uchar_def)

lemma urldecode_encoded_byte: "urldecode (urlencode_byte c @ s) = c # urldecode s"
proof -
  have "int (uchar c div 16) * 16 + int (uchar c mod 16) = int (uchar c)"
    by (metis div_mult_mod_eq of_nat_add of_nat_mult of_nat_numeral)
  then show ?thesis by (simp add: urlencode_byte_digits hex_value_digit)
qed

lemma plain_char_decode:
  "is_alpha_numeric c \<or> c \<in> set unreserved_marks \<Longrightarrow> urldecode (c # s) = c # urldecode s"
  by (auto simp: is_alpha_numeric_def is_alpha_def unreserved_marks_def uchar_def)

text \<open>The decoder undoes the encoder on any prefix of its input.\<close>

lemma urldecode_encoded: "urldecode (urlencode s @ t) = s @ urldecode t"
  by (induction s) (simp_all add: plain_char_decode urldecode_encoded_byte del: urldecode.simps(2))

lemma urldecode_urlencode_inv: "urldecode (urlencode s) = s"
  using urldecode_encoded [of s "[]"] by simp

text \<open>C29. Decoding an encoded byte string gives the string back, whatever bytes it holds
  (letters, reserved characters, percent and plus signs, control and non-ASCII bytes).\<close>

theorem urldecode_urlencode: "urldecode (urlencode s) = s"
  by (rule urldecode_urlencode_inv)

text \<open>What the encoder writes: only unreserved characters and percent triplets.\<close>

lemma urlencode_safe: "x \<in> set (urlencode s) \<Longrightarrow>
  is_alpha_numeric x \<or> x \<in> set unreserved_marks \<or> x = CHR ''%''"
proof (induction s)
  case (Cons c s)
  have "\<forall>x\<in>set (urlencode_byte c). is_alpha_numeric x \<or> x = CHR ''%''"
    by (simp add: urlencode_byte_digits alpha_numeric_digit)
  with Cons show ?case by (auto split: if_splits)
qed simp

lemma urlencode_not_in:
  "c \<in> set '' /?&;=+#'' \<Longrightarrow> c \<notin> set (urlencode s)"
  using urlencode_safe [of c s]
  by (auto simp: is_alpha_numeric_def is_alpha_def unreserved_marks_def uchar_def)

lemma urlencode_not_space: "x \<in> set (urlencode s) \<Longrightarrow> \<not> is_space x"
  using urlencode_safe [of x s]
  by (auto simp: is_alpha_numeric_def is_alpha_def unreserved_marks_def uchar_def is_space_def)

lemma length_urldecode: "length (urldecode s) \<le> length s"
proof (induction s rule: urldecode.induct)
  case (2 c cs)
  then show ?case by (fastforce split: list.splits)
qed simp

lemma urldecode_eq_Nil [simp]: "urldecode s = [] \<longleftrightarrow> s = []"
  by (cases s) (auto split: list.splits)

lemma urldecode_plain: "CHR ''%'' \<notin> set s \<Longrightarrow> CHR ''+'' \<notin> set s \<Longrightarrow> urldecode s = s"
  by (induction s) auto

end
