(* ===== verification/Http.thy ===== *)
theory Http
  imports Prelude
begin

text \<open>
  HTTP status codes, status and header lines and the \<open>Date\<close> header
  (\<open>library/http.cpp\<close>, \<open>http_error.cpp\<close>, \<open>include/details/http.hpp\<close>). What is written to
  a stream is the string written. The package name and version of the \<open>Server\<close> header are
  produced by the configure script and are an argument. A time is the calendar fields that
  Boost computes for it; Boost numbers the days of the week from 0 for Sunday.
\<close>

definition bad_request :: nat where "bad_request = 400"
definition unauthorized :: nat where "unauthorized = 401"
definition payment_required :: nat where "payment_required = 402"
definition forbidden :: nat where "forbidden = 403"
definition not_found :: nat where "not_found = 404"
definition method_not_allowed :: nat where "method_not_allowed = 405"
definition entity_too_large :: nat where "entity_too_large = 413"
definition range_not_satisfiable :: nat where "range_not_satisfiable = 416"
definition internal_error :: nat where "internal_error = 500"
definition not_implemented :: nat where "not_implemented = 501"
definition bad_gateway :: nat where "bad_gateway = 502"
definition service_unavailable :: nat where "service_unavailable = 503"
definition gateway_timeout :: nat where "gateway_timeout = 504"
definition version_not_supported :: nat where "version_not_supported = 505"

lemmas http_codes = bad_request_def unauthorized_def payment_required_def forbidden_def
  not_found_def method_not_allowed_def entity_too_large_def range_not_satisfiable_def
  internal_error_def not_implemented_def bad_gateway_def service_unavailable_def
  gateway_timeout_def version_not_supported_def

definition http_status_str :: "nat \<Rightarrow> string" where
  "http_status_str code =
     (if code = 200 then ''OK''
      else if code = 201 then ''Created''
      else if code = 202 then ''Accepted''
      else if code = 203 then ''Non-Authoritative Information''
      else if code = 204 then ''No Content''
      else if code = 301 then ''Moved Permanently''
      else if code = 302 then ''Found''
      else if code = 303 then ''See Other''
      else if code = 304 then ''Not Modified''
      else if code = 400 then ''Bad Request''
      else if code = 401 then ''Unauthorized''
      else if code = 402 then ''PaymentRequired''
      else if code = 403 then ''Forbidden''
      else if code = 404 then ''Not Found''
      else if code = 405 then ''Method Not Allowed''
      else if code = 413 then ''Request Entity Too Large''
      else if code = 416 then ''Requested Range Not Satisfiable''
      else if code = 500 then ''Internal Server Error''
      else if code = 501 then ''Not Implemented''
      else if code = 502 then ''Bad Gateway''
      else if code = 503 then ''Service Unavailable''
      else if code = 504 then ''Gateway Timeout''
      else if code = 505 then ''HTTP Version Not Supported''
      else ''Unknown Status'')"

definition http_error_what :: "nat \<Rightarrow> string" where
  "http_error_what code = http_status_str code"

definition http_status_line :: "nat \<Rightarrow> string" where
  "http_status_line code = ''HTTP/1.1 '' @ show_nat code @ '' '' @ http_status_str code @ crlf"

record http_header =
  hh_name :: string
  hh_value :: string

definition http_header_line :: "http_header \<Rightarrow> string" where
  "http_header_line h = hh_name h @ '': '' @ hh_value h @ crlf"

definition header_server :: "string \<Rightarrow> http_header" where
  "header_server package = \<lparr>hh_name = ''Server'', hh_value = package\<rparr>"

definition header_connection_close :: http_header where
  "header_connection_close = \<lparr>hh_name = ''Connection'', hh_value = ''close''\<rparr>"

definition header_connection_keep_alive :: http_header where
  "header_connection_keep_alive = \<lparr>hh_name = ''Connection'', hh_value = ''keep-alive''\<rparr>"

section \<open>The Date header\<close>

record ptime =
  pt_weekday :: nat
  pt_day :: nat
  pt_month :: nat
  pt_year :: nat
  pt_hours :: nat
  pt_minutes :: nat
  pt_seconds :: nat

definition day_of_week_names :: "string list" where
  "day_of_week_names = [''Mon'', ''Tue'', ''Wed'', ''Thu'', ''Fri'', ''Sat'', ''Sun'']"

definition month_names :: "string list" where
  "month_names = [''Jan'', ''Feb'', ''Mar'', ''Apr'', ''May'', ''Jun'', ''Jul'', ''Aug'',
     ''Sep'', ''Oct'', ''Nov'', ''Dec'']"

definition http_date_line :: "ptime \<Rightarrow> string result" where
  "http_date_line p =
     (case array_at day_of_week_names (int (pt_weekday p) - 1) of
        Inl e \<Rightarrow> Inl e
      | Inr dw \<Rightarrow>
          (case array_at month_names (int (pt_month p) - 1) of
             Inl e \<Rightarrow> Inl e
           | Inr mn \<Rightarrow>
               Inr (''Date: '' @ dw @ '', '' @ pad_zero 2 (show_nat (pt_day p)) @ '' '' @ mn @
                 '' '' @ pad_zero 4 (show_nat (pt_year p)) @ '' '' @
                 pad_zero 2 (show_nat (pt_hours p)) @ '':'' @
                 pad_zero 2 (show_nat (pt_minutes p)) @ '':'' @
                 pad_zero 2 (show_nat (pt_seconds p)) @ '' GMT'' @ crlf)))"

definition valid_ptime :: "ptime \<Rightarrow> bool" where
  "valid_ptime p \<longleftrightarrow> pt_weekday p \<le> 6 \<and> 1 \<le> pt_month p \<and> pt_month p \<le> 12 \<and>
     1 \<le> pt_day p \<and> pt_day p \<le> 31 \<and> 1400 \<le> pt_year p \<and> pt_year p \<le> 9999 \<and>
     pt_hours p < 24 \<and> pt_minutes p < 60 \<and> pt_seconds p < 60"

lemma length_show_nat_2: "n < 100 \<Longrightarrow> length (pad_zero 2 (show_nat n)) = 2"
  by (cases "n < 10") (simp_all add: pad_zero_def show_number.simps)

lemma length_show_nat_4: "1000 \<le> n \<Longrightarrow> n \<le> 9999 \<Longrightarrow> length (pad_zero 4 (show_nat n)) = 4"
  by (simp add: pad_zero_def show_number.simps div_mult2_eq [symmetric])

lemma length_day_name: "array_at day_of_week_names i = Inr d \<Longrightarrow> length d = 3"
proof -
  have "\<forall>d\<in>set day_of_week_names. length d = 3" by (simp add: day_of_week_names_def)
  then show "array_at day_of_week_names i = Inr d \<Longrightarrow> length d = 3"
    by (auto simp: array_at_def split: if_splits)
qed

lemma length_month_name: "array_at month_names i = Inr d \<Longrightarrow> length d = 3"
proof -
  have "\<forall>d\<in>set month_names. length d = 3" by (simp add: month_names_def)
  then show "array_at month_names i = Inr d \<Longrightarrow> length d = 3"
    by (auto simp: array_at_def split: if_splits)
qed

text \<open>For every valid time the Date header is either a line of the fixed length 37, which fits
  the 256-byte buffer, or an access outside the array of day names; the latter happens
  exactly on Sundays, the day Boost numbers 0.\<close>

theorem http_date_line_outcome:
  "valid_ptime p \<Longrightarrow>
   (if pt_weekday p = 0 then http_date_line p = Inl Undefined_behaviour
    else \<exists>s. http_date_line p = Inr s \<and> length s = 37)"
proof -
  assume v: "valid_ptime p"
  show ?thesis
  proof (cases "pt_weekday p = 0")
    case True
    then show ?thesis by (simp add: http_date_line_def array_at_def)
  next
    case False
    with v obtain dw mn where
      "array_at day_of_week_names (int (pt_weekday p) - 1) = Inr dw"
      "array_at month_names (int (pt_month p) - 1) = Inr mn"
      by (auto simp: valid_ptime_def array_at_def day_of_week_names_def month_names_def)
    with False v show ?thesis
      using length_day_name length_month_name
      by (auto simp: http_date_line_def valid_ptime_def length_show_nat_2 length_show_nat_4
          crlf_def)
  qed
qed

theorem http_date_line_outcome_witness:
  "valid_ptime \<lparr>pt_weekday = 0, pt_day = 28, pt_month = 11, pt_year = 2010,
      pt_hours = 12, pt_minutes = 5, pt_seconds = 9\<rparr> \<and>
   http_date_line \<lparr>pt_weekday = 0, pt_day = 28, pt_month = 11, pt_year = 2010,
      pt_hours = 12, pt_minutes = 5, pt_seconds = 9\<rparr> = Inl Undefined_behaviour"
proof -
  let ?p = "\<lparr>pt_weekday = 0, pt_day = 28, pt_month = 11, pt_year = 2010,
      pt_hours = 12, pt_minutes = 5, pt_seconds = 9\<rparr> :: ptime"
  have "valid_ptime ?p" by (simp add: valid_ptime_def)
  with http_date_line_outcome [of ?p] show ?thesis by simp
qed

end
