(* ===== verification/Request.thy ===== *)
theory Request
  imports Line_Reader Urlencode Http
begin

text \<open>
  Parsing of requests (\<open>include/details/request_helper.hpp\<close>, \<open>request_impl.hpp\<close>,
  \<open>library/request_impl.cpp\<close>, \<open>http_constants.cpp\<close>). A request is parsed from the whole
  buffer; an iterator into the buffer is the list of the characters from it to the end. A
  thrown \<open>http_error\<close> is the value \<open>Inl (Http_error code)\<close>. A line the reader reports as a
  multi-line one is parsed without its line ends.
\<close>

section \<open>Constants\<close>

definition const_get :: string where "const_get = ''get''"
definition const_range :: string where "const_range = ''range''"
definition const_cookie :: string where "const_cookie = ''cookie''"
definition param_delimiter :: string where "param_delimiter = '';&''"
definition protocol_version :: string where "protocol_version = ''http/1.1''"
definition sec_websocket_key1 :: string where "sec_websocket_key1 = ''sec-websocket-key1''"
definition headers_end :: string where "headers_end = [CHR 0x0D, CHR 0x0A, CHR 0x0D, CHR 0x0A]"
definition nonstd_headers_end :: string where "nonstd_headers_end = [CHR 0x0A, CHR 0x0A]"

section \<open>The request helper\<close>

definition helper_parse_request_line :: "string \<Rightarrow> string result" where
  "helper_parse_request_line line =
     (case split_if_once line is_blank of (_, met, r) \<Rightarrow>
        if \<not> is_ci_equal const_get met then Inl (Http_error method_not_allowed)
        else (case split_if_once r is_blank of (_, uri, r') \<Rightarrow>
          (case split_if_once r' is_blank of (_, protocol, _) \<Rightarrow>
             if \<not> is_ci_equal protocol_version (trim protocol)
             then Inl (Http_error version_not_supported)
             else Inr uri)))"

text \<open>The end of the headers inside a line end that is followed by \<open>after\<close> in the buffer:
  the position behind the empty line, as the rest of the buffer.\<close>

definition find_headers_break :: "string \<Rightarrow> string \<Rightarrow> string option" where
  "find_headers_break end_line after =
     (if length end_line > length nonstd_headers_end
      then (if starts_with end_line nonstd_headers_end
            then Some (drop (length nonstd_headers_end) (end_line @ after))
            else if starts_with end_line headers_end
            then Some (drop (length headers_end) (end_line @ after))
            else None)
      else if length end_line = length nonstd_headers_end \<and> nonstd_headers_end = end_line
      then Some after
      else None)"

definition check_read_body_ahead :: "string \<Rightarrow> nat" where
  "check_read_body_ahead line =
     (case split_once_char line (CHR '':'') of (found, head, _) \<Rightarrow>
        if found \<and> is_ci_equal (trim_right head) sec_websocket_key1 then 8 else 0)"

section \<open>The request\<close>

record request_impl =
  rq_uri :: string
  rq_body :: string
  rq_params :: "(string \<times> string) list"
  rq_headers :: "(string \<times> string) list"
  rq_cookies :: "(string \<times> string) list"
  rq_is_websocket :: bool

definition request_empty :: request_impl where
  "request_empty = \<lparr>rq_uri = [], rq_body = [], rq_params = [], rq_headers = [],
     rq_cookies = [], rq_is_websocket = False\<rparr>"

definition set_websocket :: "request_impl \<Rightarrow> request_impl" where
  "set_websocket rq = rq\<lparr>rq_is_websocket := True\<rparr>"

text \<open>\<open>parse_to\<close> for the multimap of parameters and the map of cookies.\<close>

definition parse_to_params :: "string \<Rightarrow> (string \<times> string) list \<Rightarrow> (string \<times> string) list" where
  "parse_to_params r m =
     (case split_once_char r (CHR ''='') of (_, head, tail) \<Rightarrow>
        mm_insert string_less (urldecode head) (urldecode tail) m)"

definition parse_to_cookies :: "string \<Rightarrow> (string \<times> string) list \<Rightarrow> (string \<times> string) list" where
  "parse_to_cookies r m =
     (case split_once_char r (CHR ''='') of (_, head, tail) \<Rightarrow>
        om_insert string_less (urldecode head) (urldecode tail) m)"

function parse_cookies :: "string \<Rightarrow> (string \<times> string) list \<Rightarrow> (string \<times> string) list" where
  "parse_cookies r m =
     (if r = [] then m
      else case split_once_char r (CHR '';'') of (_, part, r') \<Rightarrow>
        parse_cookies r' (parse_to_cookies (trim part) m))"
  by pat_completeness auto
termination
  by (relation "measure (\<lambda>(r, m). length r)") (auto dest: split_once_char_rest_less [OF _ sym])

function parse_query_string :: "string \<Rightarrow> (string \<times> string) list \<Rightarrow> (string \<times> string) list" where
  "parse_query_string r m =
     (if r = [] then m
      else case split_first_of_once r param_delimiter of (_, part, r') \<Rightarrow>
        parse_query_string r' (parse_to_params part m))"
  by pat_completeness auto
termination
  by (relation "measure (\<lambda>(r, m). length r)") (auto dest: split_first_of_rest_less [OF _ sym])

declare parse_cookies.simps [simp del] parse_query_string.simps [simp del]

definition parse_uri :: "string \<Rightarrow> request_impl \<Rightarrow> request_impl" where
  "parse_uri uri rq =
     (let rq' = rq\<lparr>rq_uri := uri\<rparr>; i = std_find_if (\<lambda>c. c = CHR ''?'') uri
      in if i \<noteq> length uri
         then rq'\<lparr>rq_params := parse_query_string (drop (i + 1) uri) (rq_params rq')\<rparr>
         else rq')"

definition parse_request_line_impl :: "string \<Rightarrow> request_impl \<Rightarrow> request_impl result" where
  "parse_request_line_impl line rq =
     (case helper_parse_request_line line of
        Inl e \<Rightarrow> Inl e
      | Inr uri \<Rightarrow> Inr (parse_uri uri rq))"

definition parse_headers_line_impl :: "string \<Rightarrow> request_impl \<Rightarrow> request_impl result" where
  "parse_headers_line_impl line rq =
     (case split_once_char line (CHR '':'') of (found, head, tail) \<Rightarrow>
        if \<not> found then Inl (Http_error bad_request)
        else let tail' = trim tail; head' = trim_right head in
          if is_ci_equal const_range head' then Inl (Http_error range_not_satisfiable)
          else let rq' = (if is_ci_equal const_cookie head'
                          then rq\<lparr>rq_cookies := parse_cookies tail' (rq_cookies rq)\<rparr> else rq)
            in Inr (rq'\<lparr>rq_headers := om_insert is_ci_less head' tail' (rq_headers rq')\<rparr>))"

definition parse_request_line :: "string \<Rightarrow> bool \<Rightarrow> request_impl \<Rightarrow> request_impl result" where
  "parse_request_line line multiline rq =
     (if \<not> multiline then parse_request_line_impl line rq
      else parse_request_line_impl (filter is_not_line_end line) rq)"

definition parse_headers_line :: "string \<Rightarrow> bool \<Rightarrow> request_impl \<Rightarrow> request_impl result" where
  "parse_headers_line line multiline rq =
     (if \<not> multiline then parse_headers_line_impl line rq
      else parse_headers_line_impl (filter is_not_line_end line) rq)"

function parse_headers :: "line_reader \<Rightarrow> request_impl \<Rightarrow> request_impl result" where
  "parse_headers reader rq =
     (case read_line reader of
        None \<Rightarrow> Inr rq
      | Some (line, end_line, reader') \<Rightarrow>
          (case parse_headers_line line (lr_multiline reader') rq of
             Inl e \<Rightarrow> Inl e
           | Inr rq' \<Rightarrow>
               (case find_headers_break end_line (lr_begin reader') of
                  Some break_ptr \<Rightarrow>
                    Inr (if break_ptr \<noteq> [] then rq'\<lparr>rq_body := break_ptr\<rparr> else rq')
                | None \<Rightarrow> parse_headers reader' rq')))"
  by pat_completeness auto
termination
  by (relation "measure (\<lambda>(reader, rq). length (lr_begin reader))")
    (auto dest: read_line_shorter)

declare parse_headers.simps [simp del]

definition request_init :: "string \<Rightarrow> request_impl result" where
  "request_init s =
     (case read_line (line_reader s) of
        None \<Rightarrow> Inl (Http_error bad_request)
      | Some (line, end_line, reader) \<Rightarrow>
          (case parse_request_line line (lr_multiline reader) request_empty of
             Inl e \<Rightarrow> Inl e
           | Inr rq \<Rightarrow> parse_headers reader rq))"

section \<open>Reading a request\<close>

definition map_has :: "(string \<Rightarrow> string \<Rightarrow> bool) \<Rightarrow> (string \<times> string) list \<Rightarrow> string \<Rightarrow> bool" where
  "map_has lt m name \<longleftrightarrow> om_find lt m name \<noteq> None"

definition map_get :: "(string \<Rightarrow> string \<Rightarrow> bool) \<Rightarrow> (string \<times> string) list \<Rightarrow> string \<Rightarrow> string" where
  "map_get lt m name = (case om_find lt m name of Some v \<Rightarrow> v | None \<Rightarrow> [])"

definition has_param :: "request_impl \<Rightarrow> string \<Rightarrow> bool" where
  "has_param rq name = map_has string_less (rq_params rq) name"

definition param :: "request_impl \<Rightarrow> string \<Rightarrow> string" where
  "param rq name = map_get string_less (rq_params rq) name"

text \<open>The enumeration of the values of a parameter: the values that are left.\<close>

definition params :: "request_impl \<Rightarrow> string \<Rightarrow> string list" where
  "params rq name = map snd (mm_range string_less (rq_params rq) name)"

definition enumeration_empty :: "string list \<Rightarrow> bool" where
  "enumeration_empty e \<longleftrightarrow> e = []"

definition enumeration_next :: "string list \<Rightarrow> (string \<times> string list) result" where
  "enumeration_next e = (case e of [] \<Rightarrow> Inl Undefined_behaviour | v # vs \<Rightarrow> Inr (v, vs))"

definition has_header :: "request_impl \<Rightarrow> string \<Rightarrow> bool" where
  "has_header rq name = map_has is_ci_less (rq_headers rq) name"

definition header :: "request_impl \<Rightarrow> string \<Rightarrow> string" where
  "header rq name = map_get is_ci_less (rq_headers rq) name"

definition has_cookie :: "request_impl \<Rightarrow> string \<Rightarrow> bool" where
  "has_cookie rq name = map_has string_less (rq_cookies rq) name"

definition cookie :: "request_impl \<Rightarrow> string \<Rightarrow> string" where
  "cookie rq name = map_get string_less (rq_cookies rq) name"

definition request_swap :: "request_impl \<Rightarrow> request_impl \<Rightarrow> request_impl \<times> request_impl" where
  "request_swap this other =
     (this\<lparr>rq_uri := rq_uri other, rq_params := rq_params other, rq_headers := rq_headers other,
        rq_cookies := rq_cookies other, rq_is_websocket := rq_is_websocket other\<rparr>,
      other\<lparr>rq_uri := rq_uri this, rq_params := rq_params this, rq_headers := rq_headers this,
        rq_cookies := rq_cookies this, rq_is_websocket := rq_is_websocket this\<rparr>)"

section \<open>Well-formed requests\<close>

text \<open>The containers of a request are ordered by their comparators.\<close>

definition request_wf :: "request_impl \<Rightarrow> bool" where
  "request_wf rq \<longleftrightarrow> om_sorted is_ci_less (rq_headers rq) \<and>
     om_sorted string_less (rq_cookies rq) \<and> mm_sorted string_less (rq_params rq)"

lemma request_wf_empty: "request_wf request_empty"
  by (simp add: request_wf_def request_empty_def)

lemma parse_cookies_sorted: "om_sorted string_less m \<Longrightarrow> om_sorted string_less (parse_cookies r m)"
proof (induction r m rule: parse_cookies.induct)
  case (1 r m)
  then show ?case
    by (subst parse_cookies.simps)
      (auto simp: parse_to_cookies_def byte_string.insert_sorted split: prod.split)
qed

lemma parse_query_string_sorted:
  "mm_sorted string_less m \<Longrightarrow> mm_sorted string_less (parse_query_string r m)"
proof (induction r m rule: parse_query_string.induct)
  case (1 r m)
  then show ?case
    by (subst parse_query_string.simps)
      (auto simp: parse_to_params_def byte_string.mm_insert_sorted split: prod.split)
qed

lemma parse_request_line_wf:
  "request_wf rq \<Longrightarrow> parse_request_line line ml rq = Inr rq' \<Longrightarrow> request_wf rq'"
  by (auto simp: parse_request_line_def parse_request_line_impl_def parse_uri_def request_wf_def
      Let_def parse_query_string_sorted split: if_splits sum.splits)

lemma parse_headers_line_impl_wf:
  "request_wf rq \<Longrightarrow> parse_headers_line_impl line rq = Inr rq' \<Longrightarrow> request_wf rq'"
  by (auto simp: parse_headers_line_impl_def request_wf_def Let_def parse_cookies_sorted
      ci_string.insert_sorted split: if_splits prod.splits)

lemma parse_headers_line_wf:
  "request_wf rq \<Longrightarrow> parse_headers_line line ml rq = Inr rq' \<Longrightarrow> request_wf rq'"
  by (auto simp: parse_headers_line_def parse_headers_line_impl_wf split: if_splits)

lemma request_wf_body [simp]: "request_wf (rq\<lparr>rq_body := b\<rparr>) = request_wf rq"
  by (simp add: request_wf_def)

lemma parse_headers_wf: "request_wf rq \<Longrightarrow> parse_headers reader rq = Inr rq' \<Longrightarrow> request_wf rq'"
proof (induction reader rq rule: parse_headers.induct)
  case (1 reader rq)
  show ?case
  proof (cases "read_line reader")
    case None
    with 1 show ?thesis by (subst (asm) parse_headers.simps) simp
  next
    case (Some p)
    then obtain line el rd where rl: "read_line reader = Some (line, el, rd)" by (cases p) auto
    show ?thesis
    proof (cases "parse_headers_line line (lr_multiline rd) rq")
      case (Inl e)
      with 1 rl show ?thesis by (subst (asm) parse_headers.simps) simp
    next
      case (Inr r)
      with 1 have "request_wf r" by (auto intro: parse_headers_line_wf)
      with 1 rl Inr show ?thesis
        by (auto simp: parse_headers.simps [of reader rq] split: option.splits if_splits)
    qed
  qed
qed

lemma request_init_steps:
  assumes "request_init s = Inr rq"
  obtains line el rd r where "read_line (line_reader s) = Some (line, el, rd)"
    "parse_request_line line (lr_multiline rd) request_empty = Inr r" "parse_headers rd r = Inr rq"
  using assms by (auto simp: request_init_def split: option.splits sum.splits)

lemma request_init_wf: "request_init s = Inr rq \<Longrightarrow> request_wf rq"
  by (elim request_init_steps) (meson parse_headers_wf parse_request_line_wf request_wf_empty)

section \<open>Rendered requests\<close>

text \<open>A request as a client writes it: the request line, the header lines, an empty line and
  the body. The line end is the standard one or the single line feed the parser accepts too.\<close>

definition render_header :: "string \<times> string \<Rightarrow> string" where
  "render_header h = fst h @ '': '' @ snd h"

definition render_headers :: "string \<Rightarrow> (string \<times> string) list \<Rightarrow> string" where
  "render_headers eol hs = concat (map (\<lambda>h. render_header h @ eol) hs)"

definition render_request :: "string \<Rightarrow> string \<Rightarrow> (string \<times> string) list \<Rightarrow> string \<Rightarrow> string" where
  "render_request eol uri hs body =
     ''GET '' @ uri @ '' HTTP/1.1'' @ eol @ render_headers eol hs @ eol @ body"

definition wf_eol :: "string \<Rightarrow> bool" where
  "wf_eol eol \<longleftrightarrow> eol = crlf \<or> eol = [CHR 0x0A]"

definition wf_uri :: "string \<Rightarrow> bool" where
  "wf_uri uri \<longleftrightarrow> (\<forall>c\<in>set uri. \<not> is_space c)"

definition wf_header :: "string \<times> string \<Rightarrow> bool" where
  "wf_header h \<longleftrightarrow> fst h \<noteq> [] \<and> (\<forall>c\<in>set (fst h). \<not> is_space c \<and> c \<noteq> CHR '':'') \<and>
     (\<forall>c\<in>set (snd h). \<not> is_line_end c) \<and> trim (snd h) = snd h \<and>
     \<not> is_ci_equal const_range (fst h)"

definition wf_body :: "string \<Rightarrow> bool" where
  "wf_body body \<longleftrightarrow> body = [] \<or> \<not> is_line_end (hd body) \<and> \<not> is_blank (hd body)"

definition add_header :: "string \<times> string \<Rightarrow> request_impl \<Rightarrow> request_impl" where
  "add_header h rq =
     (let rq' = (if is_ci_equal const_cookie (fst h)
                 then rq\<lparr>rq_cookies := parse_cookies (snd h) (rq_cookies rq)\<rparr> else rq)
      in rq'\<lparr>rq_headers := om_insert is_ci_less (fst h) (snd h) (rq_headers rq')\<rparr>)"

lemma parse_rendered_header:
  assumes "wf_header h"
  shows "parse_headers_line_impl (render_header h) rq = Inr (add_header h rq)"
proof -
  have ws: "fst h \<noteq> [] \<and> \<not> is_space (last (fst h))" "CHR '':'' \<notin> set (fst h)"
    using assms by (auto simp: wf_header_def)
  have "is_space (CHR '' '')" by (simp add: is_space_def uchar_def)
  then have "trim (CHR '' '' # snd h) = trim (snd h)"
    unfolding trim_def trim_right_left_comm by (simp add: trim_left_dropWhile)
  then have "trim (CHR '' '' # snd h) = snd h" using assms by (simp add: wf_header_def)
  moreover have "trim_right (fst h) = fst h" using ws by (simp add: trim_right_id)
  moreover have "split_once_char (render_header h) (CHR '':'') = (True, fst h, CHR '' '' # snd h)"
    using ws(2) split_once_char_found [of "CHR '':''" "fst h" "CHR '' '' # snd h"]
    by (simp add: render_header_def)
  ultimately show ?thesis
    using assms by (simp add: parse_headers_line_impl_def wf_header_def add_header_def Let_def)
qed

lemma wf_eol_props:
  assumes "wf_eol eol"
  shows "eol \<noteq> []" "\<forall>c\<in>set eol. is_line_end c" "find_headers_break (eol @ eol) after = Some after"
    "find_headers_break eol after = None"
  using assms
  by (auto simp: wf_eol_def crlf_def is_line_end_def find_headers_break_def nonstd_headers_end_def
      headers_end_def starts_with_def)

lemma colon_space_no_end: "\<forall>c\<in>set '': ''. \<not> is_line_end c"
  by (simp add: is_line_end_def)

lemma render_header_line:
  assumes "wf_header h"
  shows "\<forall>c\<in>set (render_header h). \<not> is_line_end c"
    and "hd (render_header h @ s) = hd (fst h)"
    and "\<not> is_line_end (hd (fst h)) \<and> \<not> is_blank (hd (fst h))"
proof -
  have name: "fst h \<noteq> []" "\<forall>c\<in>set (fst h). \<not> is_space c" "\<forall>c\<in>set (snd h). \<not> is_line_end c"
    using assms by (auto simp: wf_header_def)
  then show "\<forall>c\<in>set (render_header h). \<not> is_line_end c"
    using colon_space_no_end line_end_is_space unfolding render_header_def set_append by blast
  show "hd (render_header h @ s) = hd (fst h)"
    using name(1) by (simp add: render_header_def)
  have "\<not> is_space (hd (fst h))" using name(1,2) by simp
  then show "\<not> is_line_end (hd (fst h)) \<and> \<not> is_blank (hd (fst h))"
    using line_end_is_space blank_is_space by blast
qed

lemma render_headers_Cons:
  "render_headers eol (h # hs) = render_header h @ eol @ render_headers eol hs"
  by (simp add: render_headers_def)

lemma parse_rendered_headers:
  assumes "wf_eol eol" "wf_body body"
  shows "hs \<noteq> [] \<Longrightarrow> \<forall>h\<in>set hs. wf_header h \<Longrightarrow> rq_body rq = [] \<Longrightarrow>
    lr_begin reader = render_headers eol hs @ eol @ body \<Longrightarrow>
    parse_headers reader rq = Inr ((fold add_header hs rq)\<lparr>rq_body := body\<rparr>)"
proof (induction hs arbitrary: reader rq)
  case (Cons h hs)
  have h: "wf_header h" using Cons.prems by simp
  note line = render_header_line [OF h] and eol = wf_eol_props [OF assms(1)]
  have add: "rq_body (add_header h rq) = []"
    using Cons.prems(3) by (simp add: add_header_def Let_def)
  show ?case
  proof (cases "hs = []")
    case True
    have "read_line reader = Some (render_header h, eol @ eol, \<lparr>lr_begin = body, lr_multiline = False\<rparr>)"
      using Cons.prems(4) True assms(2) eol
      by (intro read_line_simple line(1)) (auto simp: render_headers_def wf_body_def)
    with True add show ?thesis
      by (subst parse_headers.simps)
        (simp add: parse_headers_line_def parse_rendered_header [OF h] eol)
  next
    case False
    let ?rest = "render_headers eol hs @ eol @ body"
    obtain g gs where hs: "hs = g # gs" "wf_header g" using False Cons.prems(2) by (cases hs) auto
    have "\<not> is_line_end (hd ?rest) \<and> \<not> is_blank (hd ?rest)"
      using render_header_line(2,3) [OF hs(2)] by (simp add: hs(1) render_headers_Cons)
    then have "read_line reader = Some (render_header h, eol, \<lparr>lr_begin = ?rest, lr_multiline = False\<rparr>)"
      using Cons.prems(4) eol
      by (intro read_line_simple line(1)) (auto simp: render_headers_Cons)
    moreover have "parse_headers \<lparr>lr_begin = ?rest, lr_multiline = False\<rparr> (add_header h rq) =
        Inr ((fold add_header hs (add_header h rq))\<lparr>rq_body := body\<rparr>)"
      using Cons.prems False add by (intro Cons.IH) auto
    ultimately show ?thesis
      by (subst parse_headers.simps)
        (simp add: parse_headers_line_def parse_rendered_header [OF h] eol)
  qed
qed simp

lemma helper_parse_rendered_line:
  assumes "wf_uri uri"
  shows "helper_parse_request_line (''GET '' @ uri @ '' HTTP/1.1'') = Inr uri"
proof -
  have sp: "is_blank (CHR '' '')" by (simp add: is_blank_def uchar_def)
  have "split_if_once (''GET'' @ CHR '' '' # uri @ '' HTTP/1.1'') is_blank =
      (True, ''GET'', uri @ '' HTTP/1.1'')"
    using sp by (intro split_if_once_found) (auto simp: is_blank_def uchar_def)
  then have 1: "split_if_once (''GET '' @ uri @ '' HTTP/1.1'') is_blank =
      (True, ''GET'', uri @ '' HTTP/1.1'')" by simp
  have "\<forall>c\<in>set uri. \<not> is_blank c"
    using assms by (auto simp: wf_uri_def dest: blank_is_space)
  then have 2: "split_if_once (uri @ '' HTTP/1.1'') is_blank = (True, uri, ''HTTP/1.1'')"
    using sp split_if_once_found [of uri is_blank "CHR '' ''" "''HTTP/1.1''"] by simp
  have 3: "split_if_once ''HTTP/1.1'' is_blank = (False, ''HTTP/1.1'', [])"
    by (intro split_if_once_none) (auto simp: is_blank_def uchar_def)
  have "trim ''HTTP/1.1'' = ''HTTP/1.1''" "is_ci_equal protocol_version ''HTTP/1.1''"
    "is_ci_equal const_get ''GET''"
    by code_simp+
  then show ?thesis
    unfolding helper_parse_request_line_def 1 2 3 by (simp add: 1 2 3)
qed

lemma request_line_no_end:
  "wf_uri uri \<Longrightarrow> \<forall>c\<in>set (''GET '' @ uri @ '' HTTP/1.1''). \<not> is_line_end c"
  by (auto simp: wf_uri_def is_line_end_def is_space_def uchar_def)

lemma request_init_rendered:
  assumes "wf_eol eol" "wf_uri uri" "hs \<noteq> []" "\<forall>h\<in>set hs. wf_header h" "wf_body body"
  shows "request_init (render_request eol uri hs body) =
    Inr ((fold add_header hs (parse_uri uri request_empty))\<lparr>rq_body := body\<rparr>)"
proof -
  let ?rest = "render_headers eol hs @ eol @ body"
  note eol = wf_eol_props [OF assms(1)]
  obtain g gs where hs: "hs = g # gs" "wf_header g" using assms(3,4) by (cases hs) auto
  have "\<not> is_line_end (hd ?rest) \<and> \<not> is_blank (hd ?rest)"
    using render_header_line(2,3) [OF hs(2)] by (simp add: hs(1) render_headers_Cons)
  then have "read_line (line_reader (render_request eol uri hs body)) =
      Some (''GET '' @ uri @ '' HTTP/1.1'', eol, \<lparr>lr_begin = ?rest, lr_multiline = False\<rparr>)"
    using eol by (intro read_line_simple request_line_no_end [OF assms(2)])
      (auto simp: line_reader_def render_request_def)
  moreover have "parse_request_line (''GET '' @ uri @ '' HTTP/1.1'') False request_empty =
      Inr (parse_uri uri request_empty)"
    unfolding parse_request_line_def parse_request_line_impl_def
      helper_parse_rendered_line [OF assms(2)] by simp
  moreover have "rq_body (parse_uri uri request_empty) = []"
    by (simp add: parse_uri_def Let_def request_empty_def)
  then have "parse_headers \<lparr>lr_begin = ?rest, lr_multiline = False\<rparr> (parse_uri uri request_empty) =
      Inr ((fold add_header hs (parse_uri uri request_empty))\<lparr>rq_body := body\<rparr>)"
    using assms by (intro parse_rendered_headers) auto
  ultimately show ?thesis by (simp add: request_init_def)
qed

text \<open>The header a request holds under a name: the first one whose name is the same but for case.\<close>

definition first_header :: "(string \<times> string) list \<Rightarrow> string \<Rightarrow> string option" where
  "first_header hs n = map_option snd (find (\<lambda>h. map to_lower (fst h) = map to_lower n) hs)"

lemma add_header_headers [simp]:
  "rq_headers (add_header h rq) = om_insert is_ci_less (fst h) (snd h) (rq_headers rq)"
  "rq_uri (add_header h rq) = rq_uri rq" "rq_params (add_header h rq) = rq_params rq"
  "rq_is_websocket (add_header h rq) = rq_is_websocket rq"
  by (simp_all add: add_header_def Let_def)

lemma fold_add_header [simp]:
  "rq_uri (fold add_header hs rq) = rq_uri rq" "rq_params (fold add_header hs rq) = rq_params rq"
  "rq_is_websocket (fold add_header hs rq) = rq_is_websocket rq"
  by (induction hs arbitrary: rq) simp_all

lemma find_header_fold:
  "om_sorted is_ci_less (rq_headers rq) \<Longrightarrow>
   om_find is_ci_less (rq_headers (fold add_header hs rq)) n =
     (case om_find is_ci_less (rq_headers rq) n of Some v \<Rightarrow> Some v | None \<Rightarrow> first_header hs n)"
proof (induction hs arbitrary: rq)
  case Nil
  then show ?case by (simp add: first_header_def split: option.split)
next
  case (Cons h hs)
  have "om_find is_ci_less (rq_headers rq) (fst h) = om_find is_ci_less (rq_headers rq) n"
    if "map to_lower (fst h) = map to_lower n"
    using that by (intro ci_string.find_same) (simp add: lower_key_eq_iff)
  with Cons show ?case
    by (auto simp: ci_string.insert_sorted ci_string.find_insert lower_key_eq_iff first_header_def
        split: option.split)
qed



end
