(* ===== verification/Request_Params.thy ===== *)
theory Request_Params
  imports Request
begin

text \<open>
  Parameters of the query string and cookies of a parsed request: what a client encodes into
  the URI or into a Cookie header is what the accessors of the request return.
\<close>

definition render_pair :: "string \<times> string \<Rightarrow> string" where
  "render_pair p = urlencode (fst p) @ ''='' @ urlencode (snd p)"

fun render_joined :: "string \<Rightarrow> (string \<times> string) list \<Rightarrow> string" where
  "render_joined sep [] = []"
| "render_joined sep [p] = render_pair p"
| "render_joined sep (p # q # ps) = render_pair p @ sep @ render_joined sep (q # ps)"

lemma render_pair_not_Nil [simp]: "render_pair p \<noteq> []"
  by (simp add: render_pair_def)

lemma render_joined_eq_Nil [simp]: "render_joined sep ps = [] \<longleftrightarrow> ps = []"
  by (cases "(sep, ps)" rule: render_joined.cases) auto

lemma render_pair_not_space: "x \<in> set (render_pair p) \<Longrightarrow> \<not> is_space x"
proof -
  have "\<not> is_space (CHR ''='')" by code_simp
  then show "x \<in> set (render_pair p) \<Longrightarrow> ?thesis"
    by (auto simp: render_pair_def dest: urlencode_not_space)
qed

lemma render_pair_avoids: "c \<in> set '' /?&;+#'' \<Longrightarrow> c \<notin> set (render_pair p)"
  by (auto simp: render_pair_def urlencode_not_in)

lemma split_rendered_pair:
  "split_once_char (render_pair p) (CHR ''='') = (True, urlencode (fst p), urlencode (snd p))"
  using split_once_char_found [of "CHR ''=''" "urlencode (fst p)" "urlencode (snd p)"]
  by (simp add: render_pair_def urlencode_not_in)

lemma parse_to_params_rendered:
  "parse_to_params (render_pair p) m = mm_insert string_less (fst p) (snd p) m"
  by (simp add: parse_to_params_def split_rendered_pair urldecode_urlencode_inv)

lemma parse_to_cookies_rendered:
  "parse_to_cookies (render_pair p) m = om_insert string_less (fst p) (snd p) m"
  by (simp add: parse_to_cookies_def split_rendered_pair urldecode_urlencode_inv)

section \<open>The query string\<close>

lemma delimiter_not_in_pair: "x \<in> set (render_pair p) \<Longrightarrow> x \<notin> set param_delimiter"
  using render_pair_avoids [of "CHR '';''" p] render_pair_avoids [of "CHR ''&''" p]
  by (auto simp: param_delimiter_def)

lemma parse_query_rendered:
  assumes "sep \<in> set param_delimiter"
  shows "parse_query_string (render_joined [sep] ps) m =
    fold (\<lambda>p. mm_insert string_less (fst p) (snd p)) ps m"
proof (induction "[sep]" ps arbitrary: m rule: render_joined.induct)
  case 1
  then show ?case by (simp add: parse_query_string.simps)
next
  case (2 p)
  have "split_first_of_once (render_pair p) param_delimiter = (False, render_pair p, [])"
    unfolding split_first_of_if by (intro split_if_once_none) (auto simp: delimiter_not_in_pair)
  then show ?case
    by (simp add: parse_query_string.simps [of "render_pair p"] parse_query_string.simps [of "[]"]
        parse_to_params_rendered)
next
  case (3 p q ps)
  let ?r = "render_joined [sep] (q # ps)"
  have "split_first_of_once (render_pair p @ sep # ?r) param_delimiter = (True, render_pair p, ?r)"
    unfolding split_first_of_if
    using assms by (intro split_if_once_found) (auto simp: delimiter_not_in_pair)
  with 3 show ?case
    by (simp add: parse_query_string.simps [of "render_pair p @ sep # ?r"] parse_to_params_rendered)
qed

lemma range_fold_insert:
  "mm_sorted string_less m \<Longrightarrow>
   mm_range string_less (fold (\<lambda>p. mm_insert string_less (fst p) (snd p)) ps m) n =
     mm_range string_less m n @ filter (\<lambda>p. fst p = n) ps"
  by (induction ps arbitrary: m) (auto simp: byte_string.mm_insert_sorted byte_string.range_insert)

lemma rendered_uri_wf: "wf_uri path \<Longrightarrow> sep \<in> set param_delimiter \<Longrightarrow>
  wf_uri (path @ ''?'' @ render_joined [sep] ps)"
proof -
  assume h: "wf_uri path" "sep \<in> set param_delimiter"
  have "x \<in> set (render_joined [sep] ps) \<Longrightarrow> \<not> is_space x" for x
    using h(2) render_pair_not_space
    by (induction "[sep]" ps rule: render_joined.induct)
      (auto simp: param_delimiter_def is_space_def uchar_def)
  with h(1) show ?thesis by (auto simp: wf_uri_def is_space_def uchar_def)
qed

lemma parse_rendered_uri:
  assumes "CHR ''?'' \<notin> set path" "sep \<in> set param_delimiter"
  shows "rq_params (parse_uri (path @ ''?'' @ render_joined [sep] ps) request_empty) =
    fold (\<lambda>p. mm_insert string_less (fst p) (snd p)) ps []"
proof -
  have "std_find_if (\<lambda>c. c = CHR ''?'') (path @ CHR ''?'' # render_joined [sep] ps) = length path"
    using assms(1) by (intro std_find_if_append) auto
  then show ?thesis
    using parse_query_rendered [OF assms(2)]
    by (simp add: parse_uri_def Let_def request_empty_def)
qed

text \<open>C30. Parameters round trip: for any list of names and values (any bytes), percent-encoded
  and joined with either delimiter into the query of a request, the request enumerates under
  every name exactly its values in the order they were written, and returns the first of them
  as the parameter.\<close>

theorem params_render:
  "wf_eol eol \<Longrightarrow> wf_uri path \<Longrightarrow> CHR ''?'' \<notin> set path \<Longrightarrow> sep \<in> set param_delimiter \<Longrightarrow>
   hs \<noteq> [] \<Longrightarrow> \<forall>h\<in>set hs. wf_header h \<Longrightarrow> wf_body body \<Longrightarrow>
   \<exists>rq. request_init (render_request eol (path @ ''?'' @ render_joined [sep] ps) hs body) = Inr rq \<and>
     (\<forall>n. params rq n = map snd (filter (\<lambda>p. fst p = n) ps) \<and>
          param rq n = (case params rq n of [] \<Rightarrow> [] | v # _ \<Rightarrow> v) \<and>
          (has_param rq n \<longleftrightarrow> params rq n \<noteq> []))"
proof -
  assume h: "wf_eol eol" "wf_uri path" "CHR ''?'' \<notin> set path" "sep \<in> set param_delimiter"
    "hs \<noteq> []" "\<forall>h\<in>set hs. wf_header h" "wf_body body"
  let ?uri = "path @ ''?'' @ render_joined [sep] ps"
  let ?m = "fold (\<lambda>p. mm_insert string_less (fst p) (snd p)) ps []"
  from request_init_rendered [OF h(1) rendered_uri_wf [OF h(2,4)] h(5-7)]
  obtain rq where rq: "request_init (render_request eol ?uri hs body) = Inr rq" "rq_params rq = ?m"
    using parse_rendered_uri [OF h(3,4)] by fastforce
  have sorted: "mm_sorted string_less ?m"
    using request_init_wf [OF rq(1)] rq(2) by (simp add: request_wf_def)
  have "params rq n = map snd (filter (\<lambda>p. fst p = n) ps)" for n
    using range_fold_insert [of "[]" ps n] by (simp add: params_def rq(2))
  moreover have "param rq n = (case params rq n of [] \<Rightarrow> [] | v # _ \<Rightarrow> v) \<and>
      (has_param rq n \<longleftrightarrow> params rq n \<noteq> [])" for n
    using byte_string.find_in_range [OF sorted, of n]
    by (auto simp: param_def has_param_def map_get_def map_has_def params_def rq(2) split: list.split)
  ultimately show ?thesis using rq(1) by blast
qed

theorem params_render_witness:
  "\<exists>rq. request_init (render_request crlf (''/a'' @ ''?'' @
      render_joined [CHR ''&''] [(''x y'', ''1&2''), (''k'', ''v''), (''x y'', ''3'')])
      [(''Host'', ''h'')] []) = Inr rq \<and> params rq ''x y'' = [''1&2'', ''3'']"
proof -
  have "wf_eol crlf" "wf_uri ''/a''" "CHR ''?'' \<notin> set ''/a''" "CHR ''&'' \<in> set param_delimiter"
    "[(''Host'', ''h'')] \<noteq> ([] :: (string \<times> string) list)"
    "\<forall>h\<in>set [(''Host'', ''h'')]. wf_header h" "wf_body []"
    by (simp add: wf_eol_def) code_simp+
  from params_render [OF this, of "[(''x y'', ''1&2''), (''k'', ''v''), (''x y'', ''3'')]"]
  show ?thesis by auto
qed

section \<open>Cookies\<close>

lemma trim_rendered_pair: "trim (render_pair p) = render_pair p"
  using render_pair_not_space by (intro trim_id) (metis hd_in_set last_in_set)

lemma trim_spaced_pair: "trim (CHR '' '' # render_pair p) = render_pair p"
proof -
  have "trim_left (CHR '' '' # render_pair p) = trim_left (render_pair p)"
    by (simp add: trim_left_dropWhile is_space_def uchar_def)
  then show ?thesis
    using trim_rendered_pair [of p] unfolding trim_def trim_right_left_comm by simp
qed

lemma parse_cookies_rendered:
  "parse_cookies (w @ render_joined ''; '' ps) m =
     fold (\<lambda>p. om_insert string_less (fst p) (snd p)) ps m"
  if "w = [] \<or> w = '' ''" "ps \<noteq> []"
  using that
proof (induction "''; ''" ps arbitrary: w m rule: render_joined.induct)
  case (2 p)
  have "CHR '';'' \<notin> set (w @ render_pair p)"
    using 2 render_pair_avoids by auto
  moreover have "trim (w @ render_pair p) = render_pair p"
    using 2 trim_rendered_pair [of p] trim_spaced_pair [of p] by auto
  ultimately show ?case
    by (simp add: parse_cookies.simps [of "w @ render_pair p"] parse_cookies.simps [of "[]"]
        parse_to_cookies_rendered)
next
  case (3 p q ps)
  let ?r = "render_joined ''; '' (q # ps)"
  have "CHR '';'' \<notin> set (w @ render_pair p)"
    using 3 render_pair_avoids by auto
  then have "split_once_char ((w @ render_pair p) @ CHR '';'' # '' '' @ ?r) (CHR '';'') =
      (True, w @ render_pair p, '' '' @ ?r)"
    by (rule split_once_char_found)
  moreover have "trim (w @ render_pair p) = render_pair p"
    using 3 trim_rendered_pair [of p] trim_spaced_pair [of p] by auto
  moreover have "parse_cookies ('' '' @ ?r) (om_insert string_less (fst p) (snd p) m) =
      fold (\<lambda>p. om_insert string_less (fst p) (snd p)) (q # ps)
        (om_insert string_less (fst p) (snd p) m)"
    by (rule 3) simp_all
  ultimately show ?case
    by (simp add: parse_cookies.simps [of "w @ render_pair p @ CHR '';'' # CHR '' '' # ?r"]
        parse_to_cookies_rendered)
qed simp

lemma find_fold_insert:
  "om_sorted string_less m \<Longrightarrow>
   om_find string_less (fold (\<lambda>p. om_insert string_less (fst p) (snd p)) ps m) n =
     (case om_find string_less m n of Some v \<Rightarrow> Some v | None \<Rightarrow> map_of ps n)"
  by (induction ps arbitrary: m)
    (auto simp: byte_string.insert_sorted byte_string.find_insert split: option.split)

lemma render_joined_last_first:
  "ps \<noteq> [] \<Longrightarrow> \<not> is_space (hd (render_joined ''; '' ps)) \<and> \<not> is_space (last (render_joined ''; '' ps))"
proof (induction "''; ''" ps rule: render_joined.induct)
  case (2 p)
  then show ?case by (metis hd_in_set last_in_set render_joined.simps(2) render_pair_not_Nil render_pair_not_space)
next
  case (3 p q ps)
  then have "\<not> is_space (last (render_joined ''; '' (q # ps)))" by simp
  moreover have "\<not> is_space (hd (render_pair p))"
    using render_pair_not_space hd_in_set render_pair_not_Nil by blast
  ultimately show ?case by simp
qed simp

lemma render_cookie_no_line_end: "x \<in> set (render_joined ''; '' ps) \<Longrightarrow> \<not> is_line_end x"
proof (induction "''; ''" ps rule: render_joined.induct)
  case (2 p)
  then show ?case using render_pair_not_space [of x p] line_end_is_space [of x] by auto
next
  case (3 p q ps)
  then show ?case
    using render_pair_not_space [of x p] line_end_is_space [of x] by (auto simp: is_line_end_def)
qed simp

lemma cookie_header_wf: "ps \<noteq> [] \<Longrightarrow> wf_header (''Cookie'', render_joined ''; '' ps)"
proof -
  assume ps: "ps \<noteq> []"
  have "\<forall>c\<in>set ''Cookie''. \<not> is_space c \<and> c \<noteq> CHR '':''" "\<not> is_ci_equal const_range ''Cookie''"
    by code_simp+
  then show ?thesis
    using ps render_joined_last_first [OF ps] render_cookie_no_line_end
    by (auto simp: wf_header_def intro: trim_id)
qed

lemma fold_add_header_cookies:
  "\<forall>h\<in>set hs. \<not> is_ci_equal const_cookie (fst h) \<Longrightarrow>
   rq_cookies (fold add_header hs rq) = rq_cookies rq"
  by (induction hs arbitrary: rq) (auto simp: add_header_def)

text \<open>Cookies round trip: whatever other headers a request carries, each cookie that a client
  encodes into its Cookie header is returned under its name; of cookies with one name the
  first is returned, and a name the header does not hold has the empty value.\<close>

theorem cookies_render:
  "wf_eol eol \<Longrightarrow> wf_uri uri \<Longrightarrow> \<forall>h\<in>set hs. wf_header h \<and> \<not> is_ci_equal const_cookie (fst h) \<Longrightarrow>
   wf_body body \<Longrightarrow> cs \<noteq> [] \<Longrightarrow>
   \<exists>rq. request_init (render_request eol uri (hs @ [(''Cookie'', render_joined ''; '' cs)]) body) = Inr rq \<and>
     (\<forall>n. cookie rq n = (case map_of cs n of Some v \<Rightarrow> v | None \<Rightarrow> []) \<and>
          (has_cookie rq n \<longleftrightarrow> n \<in> fst ` set cs))"
proof -
  assume h: "wf_eol eol" "wf_uri uri"
    "\<forall>h\<in>set hs. wf_header h \<and> \<not> is_ci_equal const_cookie (fst h)" "wf_body body" "cs \<noteq> []"
  let ?hs = "hs @ [(''Cookie'', render_joined ''; '' cs)]"
  let ?m = "fold (\<lambda>p. om_insert string_less (fst p) (snd p)) cs []"
  have "is_ci_equal const_cookie ''Cookie''" by code_simp
  moreover have "rq_cookies (parse_uri uri request_empty) = []"
    by (simp add: parse_uri_def Let_def request_empty_def)
  ultimately have "rq_cookies (fold add_header ?hs (parse_uri uri request_empty)) = ?m"
    using h(3,5) parse_cookies_rendered [of "[]" cs "[]"]
    by (simp add: fold_add_header_cookies add_header_def [of "(''Cookie'', render_joined ''; '' cs)"])
  moreover have "\<forall>h\<in>set ?hs. wf_header h" using h(3) cookie_header_wf [OF h(5)] by auto
  ultimately obtain rq where rq: "request_init (render_request eol uri ?hs body) = Inr rq"
    "rq_cookies rq = ?m"
    using request_init_rendered [OF h(1,2), of ?hs body] h(4) by fastforce
  have "om_find string_less ?m n = map_of cs n" for n
    using find_fold_insert [of "[]" cs n] by simp
  then have "cookie rq n = (case map_of cs n of Some v \<Rightarrow> v | None \<Rightarrow> []) \<and>
      (has_cookie rq n \<longleftrightarrow> n \<in> fst ` set cs)" for n
    unfolding cookie_def has_cookie_def map_get_def map_has_def rq(2)
    by (simp only: map_of_eq_None_iff) simp
  then show ?thesis using rq(1) by blast
qed

theorem cookies_render_witness:
  "\<exists>rq. request_init (render_request crlf ''/'' ([(''Host'', ''h'')] @
      [(''Cookie'', render_joined ''; '' [(''id'', ''1''), (''reason'', ''a b'')])]) []) = Inr rq \<and>
      cookie rq ''reason'' = ''a b''"
proof -
  have "wf_eol crlf" "wf_uri ''/''"
    "\<forall>h\<in>set [(''Host'', ''h'')]. wf_header h \<and> \<not> is_ci_equal const_cookie (fst h)" "wf_body []"
    "[(''id'', ''1''), (''reason'', ''a b'')] \<noteq> ([] :: (string \<times> string) list)"
    by (simp add: wf_eol_def) code_simp+
  from cookies_render [OF this] obtain rq where
    "request_init (render_request crlf ''/'' ([(''Host'', ''h'')] @
      [(''Cookie'', render_joined ''; '' [(''id'', ''1''), (''reason'', ''a b'')])]) []) = Inr rq"
    "cookie rq ''reason'' =
      (case map_of [(''id'', ''1''), (''reason'', ''a b'')] ''reason'' of Some v \<Rightarrow> v | None \<Rightarrow> [])"
    by blast
  then show ?thesis by (intro exI [of _ rq] conjI) simp_all
qed

end
