(* ===== verification/Channels.thy ===== *)
theory Channels
  imports Request "HOL-Library.Product_Lexorder" "HOL-Library.Multiset"
begin

text \<open>
  Channels, messages, responses and the formatters of a connection
  (\<open>include/xiva/channel_id.hpp\<close>, \<open>channel_info.hpp\<close>, \<open>message.hpp\<close>,
  \<open>response_impl\<close>, \<open>formatters_factory\<close>, \<open>formatters_data_simple\<close>,
  \<open>formatters_data_channels\<close>, \<open>channels_stat_impl\<close>). A formatter, a formatter creator
  and a message filter are objects the application attaches: they are functions here, which may
  throw. A \<open>NULL\<close> pointer is \<open>None\<close>.
\<close>

section \<open>Channels and messages\<close>

record channel_id =
  ch_name :: string
  ch_key :: string

record channel_info = channel_id +
  ch_data :: string

definition channel_id_empty :: "'a channel_id_scheme \<Rightarrow> bool" where
  "channel_id_empty ch \<longleftrightarrow> ch_name ch = [] \<and> ch_key ch = []"

definition channel_id_less :: "'a channel_id_scheme \<Rightarrow> 'b channel_id_scheme \<Rightarrow> bool" where
  "channel_id_less this other =
     (if string_less (ch_name other) (ch_name this) then False
      else string_less (ch_name this) (ch_name other) \<or> string_less (ch_key this) (ch_key other))"

definition channel_id_assign_name :: "string \<Rightarrow> 'a channel_id_scheme \<Rightarrow> 'a channel_id_scheme" where
  "channel_id_assign_name name ch = ch\<lparr>ch_name := name, ch_key := []\<rparr>"

definition channel_id_assign :: "string \<Rightarrow> string \<Rightarrow> 'a channel_id_scheme \<Rightarrow> 'a channel_id_scheme" where
  "channel_id_assign name key ch = ch\<lparr>ch_name := name, ch_key := key\<rparr>"

text \<open>The \<open>channel_id\<close> part of a \<open>channel_info\<close> that is used as one.\<close>

definition channel_id_of :: "'a channel_id_scheme \<Rightarrow> channel_id" where
  "channel_id_of ch = \<lparr>ch_name = ch_name ch, ch_key = ch_key ch\<rparr>"

definition channel_info_init :: channel_info where
  "channel_info_init = \<lparr>ch_name = [], ch_key = [], ch_data = []\<rparr>"

definition channel_info_data :: "string \<Rightarrow> channel_info \<Rightarrow> channel_info" where
  "channel_info_data value ch = ch\<lparr>ch_data := value\<rparr>"

record message =
  msg_content :: string
  msg_channel_info :: channel_info

definition message_init :: "string \<Rightarrow> message" where
  "message_init value = \<lparr>msg_content = value, msg_channel_info = channel_info_init\<rparr>"

definition message_set_content :: "string \<Rightarrow> message \<Rightarrow> message" where
  "message_set_content value msg = msg\<lparr>msg_content := value\<rparr>"

definition message_set_channel_info :: "channel_info \<Rightarrow> message \<Rightarrow> message" where
  "message_set_channel_info ch msg = msg\<lparr>msg_channel_info := ch\<rparr>"

section \<open>The response\<close>

text \<open>The content of a response is a pointer: to nothing, to the string inside some response
  object (\<open>Content_of a\<close>, the object at address \<open>a\<close>), or to a string the application
  owns.\<close>

datatype content_ptr = Null_content | Content_of nat | Static_content string

record response_impl =
  rs_type :: string
  rs_formatter_id :: string
  rs_channels_data :: "(channel_info \<times> string) list"
  rs_headers :: "(string \<times> string) list"
  rs_content :: string
  rs_content_ptr :: content_ptr
  rs_single_message :: bool

definition response_init :: response_impl where
  "response_init = \<lparr>rs_type = [], rs_formatter_id = [], rs_channels_data = [], rs_headers = [],
     rs_content = [], rs_content_ptr = Null_content, rs_single_message = False\<rparr>"

definition response_swap :: "response_impl \<Rightarrow> response_impl \<Rightarrow> response_impl \<times> response_impl" where
  "response_swap this other =
     (this\<lparr>rs_type := rs_type other, rs_formatter_id := rs_formatter_id other,
        rs_content := rs_content other, rs_content_ptr := rs_content_ptr other,
        rs_single_message := rs_single_message other, rs_channels_data := rs_channels_data other,
        rs_headers := rs_headers other\<rparr>,
      other\<lparr>rs_type := rs_type this, rs_formatter_id := rs_formatter_id this,
        rs_content := rs_content this, rs_content_ptr := rs_content_ptr this,
        rs_single_message := rs_single_message this, rs_channels_data := rs_channels_data this,
        rs_headers := rs_headers this\<rparr>)"

definition content_type :: "string \<Rightarrow> response_impl \<Rightarrow> response_impl" where
  "content_type type rs = rs\<lparr>rs_type := type\<rparr>"

definition formatter_id :: "string \<Rightarrow> response_impl \<Rightarrow> response_impl" where
  "formatter_id fmt_id rs = rs\<lparr>rs_formatter_id := fmt_id\<rparr>"

definition set_header :: "string \<Rightarrow> string \<Rightarrow> response_impl \<Rightarrow> response_impl" where
  "set_header name value rs =
     (if name \<noteq> [] then rs\<lparr>rs_headers := om_insert is_ci_less name value (rs_headers rs)\<rparr> else rs)"

definition formatter_by_channel :: "channel_info \<Rightarrow> string \<Rightarrow> response_impl \<Rightarrow> response_impl" where
  "formatter_by_channel ch fmt_id rs =
     (if \<not> channel_id_empty ch
      then rs\<lparr>rs_channels_data := om_assign channel_id_less ch fmt_id (rs_channels_data rs)\<rparr>
      else rs)"

definition single_message :: "bool \<Rightarrow> response_impl \<Rightarrow> response_impl" where
  "single_message value rs = rs\<lparr>rs_single_message := value\<rparr>"

text \<open>Setting the content copies it into the response, which is at address \<open>a\<close>; setting a
  pointer does not.\<close>

definition content_copy :: "nat \<Rightarrow> string \<Rightarrow> response_impl \<Rightarrow> response_impl" where
  "content_copy a body rs = rs\<lparr>rs_content := body, rs_content_ptr := Content_of a\<rparr>"

definition content_static :: "string option \<Rightarrow> response_impl \<Rightarrow> response_impl" where
  "content_static body rs =
     rs\<lparr>rs_content_ptr := (case body of None \<Rightarrow> Null_content | Some s \<Rightarrow> Static_content s)\<rparr>"

text \<open>Reading the content through the pointer, in a memory of response objects.\<close>

definition content_read :: "(nat \<Rightarrow> response_impl) \<Rightarrow> content_ptr \<Rightarrow> string option" where
  "content_read objects p =
     (case p of Null_content \<Rightarrow> None | Content_of a \<Rightarrow> Some (rs_content (objects a))
      | Static_content s \<Rightarrow> Some s)"

section \<open>Formatters\<close>

type_synonym formatter = "string \<Rightarrow> string result"
type_synonym formatter_creator = "request_impl \<Rightarrow> formatter option result"
type_synonym message_filter = "message \<Rightarrow> string \<Rightarrow> bool result"
type_synonym formatters_factory = "(string \<times> formatter_creator option) list"

definition factory_find :: "formatters_factory \<Rightarrow> string \<Rightarrow> request_impl \<Rightarrow> formatter option result" where
  "factory_find factory fmt_id req =
     (case om_find string_less factory fmt_id of
        Some (Some creator) \<Rightarrow> creator req
      | _ \<Rightarrow> Inr None)"

definition attach_creator ::
    "string \<Rightarrow> formatter_creator option \<Rightarrow> formatters_factory \<Rightarrow> formatters_factory" where
  "attach_creator fmt_id creator factory = om_insert string_less fmt_id creator factory"

text \<open>The two implementations of \<open>formatters_data\<close>.\<close>

datatype formatters_data =
    Formatters_simple formatter
  | Formatters_channels "(channel_id \<times> string \<times> formatter option) list"

definition simple_create ::
    "formatters_factory \<Rightarrow> request_impl \<Rightarrow> response_impl \<Rightarrow> formatters_data option result" where
  "simple_create factory req resp =
     assert_that (rs_channels_data resp = [])
      (if rs_formatter_id resp \<noteq> [] then
         bind_result (factory_find factory (rs_formatter_id resp) req)
           (\<lambda>fmt. Inr (map_option Formatters_simple fmt))
       else Inr None)"

text \<open>The loop of the constructor of \<open>formatters_data_channels\<close>: one formatter is created for
  every identifier and shared by the channels that name it.\<close>

fun channels_create_loop ::
    "formatters_factory \<Rightarrow> request_impl \<Rightarrow> (channel_info \<times> string) list \<Rightarrow>
     (string \<times> formatter option) list \<Rightarrow> (channel_id \<times> string \<times> formatter option) list \<Rightarrow>
     (channel_id \<times> string \<times> formatter option) list result" where
  "channels_create_loop factory req [] formatters cdata = Inr cdata"
| "channels_create_loop factory req ((ch, fmt_id) # entries) formatters cdata =
     assert_that (\<not> channel_id_empty ch)
      (if fmt_id = [] then
         channels_create_loop factory req entries formatters
           (om_assign channel_id_less (channel_id_of ch) (ch_data ch, None) cdata)
       else case om_find string_less formatters fmt_id of
           Some fmt \<Rightarrow>
             channels_create_loop factory req entries formatters
               (om_assign channel_id_less (channel_id_of ch) (ch_data ch, fmt) cdata)
         | None \<Rightarrow>
             bind_result (factory_find factory fmt_id req)
               (\<lambda>fmt. channels_create_loop factory req entries
                  (om_insert string_less fmt_id fmt formatters)
                  (om_assign channel_id_less (channel_id_of ch) (ch_data ch, fmt) cdata)))"

definition channels_create ::
    "formatters_factory \<Rightarrow> request_impl \<Rightarrow> response_impl \<Rightarrow> formatters_data result" where
  "channels_create factory req resp =
     assert_that (rs_channels_data resp \<noteq> [])
       (bind_result (channels_create_loop factory req (rs_channels_data resp) [] [])
         (\<lambda>d. Inr (Formatters_channels d)))"

definition create_formatters_data ::
    "formatters_factory \<Rightarrow> request_impl \<Rightarrow> response_impl \<Rightarrow> formatters_data option result" where
  "create_formatters_data factory req resp =
     (if rs_channels_data resp \<noteq> [] then bind_result (channels_create factory req resp) (\<lambda>d. Inr (Some d))
      else simple_create factory req resp)"

definition fmt_allow_message :: "formatters_data \<Rightarrow> message \<Rightarrow> message_filter option \<Rightarrow> bool result" where
  "fmt_allow_message d msg flt =
     (case d of
        Formatters_simple _ \<Rightarrow> (case flt of None \<Rightarrow> Inr True | Some f \<Rightarrow> f msg [])
      | Formatters_channels cdata \<Rightarrow>
          if channel_id_empty (msg_channel_info msg) then Inr False
          else (case om_find channel_id_less cdata (channel_id_of (msg_channel_info msg)) of
              None \<Rightarrow> Inr False
            | Some (cd, _) \<Rightarrow> (case flt of None \<Rightarrow> Inr True | Some f \<Rightarrow> f msg cd)))"

definition find_formatter :: "formatters_data \<Rightarrow> message \<Rightarrow> formatter option result" where
  "find_formatter d msg =
     (case d of
        Formatters_simple fmt \<Rightarrow> Inr (Some fmt)
      | Formatters_channels cdata \<Rightarrow>
          assert_that (\<not> channel_id_empty (msg_channel_info msg))
            (case om_find channel_id_less cdata (channel_id_of (msg_channel_info msg)) of
               None \<Rightarrow> Inl Assertion_failed
             | Some (_, fmt) \<Rightarrow> Inr fmt))"

definition fmt_update :: "message \<Rightarrow> formatters_data \<Rightarrow> formatters_data result" where
  "fmt_update msg d =
     (case d of
        Formatters_simple fmt \<Rightarrow> Inr d
      | Formatters_channels cdata \<Rightarrow>
          assert_that (\<not> channel_id_empty (msg_channel_info msg))
            (let ch = msg_channel_info msg in
             if ch_data ch \<noteq> [] then
               (case om_find channel_id_less cdata (channel_id_of ch) of
                  None \<Rightarrow> Inr d
                | Some (_, fmt) \<Rightarrow> Inr (Formatters_channels
                    (om_assign channel_id_less (channel_id_of ch) (ch_data ch, fmt) cdata)))
             else Inr d))"

section \<open>Statistics of the channels\<close>

type_synonym channel_stat = "(string \<times> 32 word) list"
type_synonym channels_stat = "(string \<times> channel_stat) list"

definition stat_inc :: "channel_id \<Rightarrow> channels_stat \<Rightarrow> channels_stat" where
  "stat_inc ch st =
     (if ch_name ch \<noteq> [] then
        (case om_find string_less st (ch_name ch) of
           None \<Rightarrow> om_assign string_less (ch_name ch) (om_assign string_less (ch_key ch) 1 []) st
         | Some cs \<Rightarrow> om_assign string_less (ch_name ch)
             (case om_find string_less cs (ch_key ch) of
                None \<Rightarrow> om_assign string_less (ch_key ch) 1 cs
              | Some counter \<Rightarrow> om_assign string_less (ch_key ch) (counter + 1) cs) st)
      else st)"

definition stat_dec :: "channel_id \<Rightarrow> channels_stat \<Rightarrow> channels_stat result" where
  "stat_dec ch st =
     (if ch_name ch \<noteq> [] then
        (case om_find string_less st (ch_name ch) of
           None \<Rightarrow> Inl Assertion_failed
         | Some cs \<Rightarrow>
             (case om_find string_less cs (ch_key ch) of
                None \<Rightarrow> Inl Assertion_failed
              | Some counter \<Rightarrow>
                  assert_that (counter \<noteq> 0)
                    (if counter - 1 = 0 then
                       (let cs' = om_erase string_less (ch_key ch) cs in
                        if cs' = [] then Inr (om_erase string_less (ch_name ch) st)
                        else Inr (om_assign string_less (ch_name ch) cs' st))
                     else Inr (om_assign string_less (ch_name ch)
                       (om_assign string_less (ch_key ch) (counter - 1) cs) st))))
      else Inr st)"

definition load_names :: "channels_stat \<Rightarrow> string list" where
  "load_names st = map fst st"

definition load_keys :: "string \<Rightarrow> channels_stat \<Rightarrow> string list result" where
  "load_keys name st =
     (if name \<noteq> [] then
        (case om_find string_less st name of
           None \<Rightarrow> Inr []
         | Some cs \<Rightarrow> assert_that (cs \<noteq> []) (Inr (map fst cs)))
      else Inr [])"

fun update_stat_loop :: "bool \<Rightarrow> (channel_id \<times> string \<times> formatter option) list \<Rightarrow>
    channels_stat \<Rightarrow> channels_stat result" where
  "update_stat_loop add [] st = Inr st"
| "update_stat_loop add ((ch, _) # cdata) st =
     bind_result (if add then Inr (stat_inc ch st) else stat_dec ch st) (update_stat_loop add cdata)"

definition fmt_update_channels_stat :: "formatters_data \<Rightarrow> bool \<Rightarrow> channels_stat \<Rightarrow> channels_stat result" where
  "fmt_update_channels_stat d add st =
     (case d of
        Formatters_simple _ \<Rightarrow> Inr st
      | Formatters_channels cdata \<Rightarrow> update_stat_loop add cdata st)"

section \<open>Channels as keys\<close>

definition channel_key :: "'a channel_id_scheme \<Rightarrow> nat list \<times> nat list" where
  "channel_key ch = (map uchar (ch_name ch), map uchar (ch_key ch))"

lemma map_uchar_eq [simp]: "map uchar s = map uchar t \<longleftrightarrow> s = t"
  by (rule inj_map_eq_map) (simp add: inj_def)

interpretation channel_order: comparator channel_id_less channel_key
  by unfold_locales
    (auto simp: channel_id_less_def channel_key_def byte_string.lt_ord_key less_prod_def le_less)

lemma channel_key_eq: "channel_key a = channel_key b \<longleftrightarrow> channel_id_of a = channel_id_of b"
  by (simp add: channel_key_def channel_id_of_def)

lemma channel_id_of_id [simp]: "channel_id_of (ch :: channel_id) = ch"
  by (cases ch) (simp add: channel_id_of_def)

section \<open>Statistics count the channels\<close>

definition stat_wf :: "channels_stat \<Rightarrow> bool" where
  "stat_wf st \<longleftrightarrow> om_sorted string_less st \<and> (\<forall>p\<in>set st. fst p \<noteq> [] \<and> snd p \<noteq> [] \<and>
     om_sorted string_less (snd p) \<and> (\<forall>q\<in>set (snd p). snd q \<noteq> 0))"

definition key_count :: "channel_stat \<Rightarrow> string \<Rightarrow> nat" where
  "key_count cs key = (case om_find string_less cs key of None \<Rightarrow> 0 | Some c \<Rightarrow> unat c)"

definition stat_count :: "channels_stat \<Rightarrow> channel_id \<Rightarrow> nat" where
  "stat_count st ch =
     (case om_find string_less st (ch_name ch) of None \<Rightarrow> 0 | Some cs \<Rightarrow> key_count cs (ch_key ch))"

definition channel_stat_wf :: "channel_stat \<Rightarrow> bool" where
  "channel_stat_wf cs \<longleftrightarrow> cs \<noteq> [] \<and> om_sorted string_less cs \<and> (\<forall>q\<in>set cs. snd q \<noteq> 0)"

lemma stat_wf_find:
  "stat_wf st \<Longrightarrow> om_find string_less st name = Some cs \<Longrightarrow> name \<noteq> [] \<and> channel_stat_wf cs"
  by (drule byte_string.find_Some_in) (auto simp: stat_wf_def channel_stat_wf_def)

lemma snd_assign: "q \<in> set (om_assign lt k v m) \<Longrightarrow> q \<in> set m \<or> snd q = v"
  by (induction m) (auto split: if_splits)

lemma set_insert: "set (om_insert lt k v m) \<subseteq> insert (k, v) (set m)"
  by (induction lt k v m rule: om_insert.induct) auto

lemma set_erase: "q \<in> set (om_erase lt k m) \<Longrightarrow> q \<in> set m"
  by (induction m) (auto split: if_splits)

lemma assign_not_Nil [simp]: "om_assign lt k v m \<noteq> []"
  by (cases m) (auto split: if_splits)

lemma stat_wf_assign:
  assumes "stat_wf st" "channel_stat_wf cs" "name \<noteq> []"
  shows "stat_wf (om_assign string_less name cs st)"
proof -
  have "\<forall>q\<in>set (om_assign string_less name cs st). fst q \<noteq> []"
    using assms by (intro all_keys_assign) (auto simp: stat_wf_def)
  with assms show ?thesis
    by (auto simp: stat_wf_def channel_stat_wf_def byte_string.assign_sorted dest!: snd_assign)
qed

lemma stat_wf_erase: "stat_wf st \<Longrightarrow> stat_wf (om_erase string_less name st)"
  by (auto simp: stat_wf_def byte_string.erase_sorted dest!: set_erase)

lemma channel_stat_wf_assign:
  "cs = [] \<or> channel_stat_wf cs \<Longrightarrow> c \<noteq> 0 \<Longrightarrow> channel_stat_wf (om_assign string_less key c cs)"
  by (auto simp: channel_stat_wf_def byte_string.assign_sorted dest!: snd_assign)

lemma channel_stat_wf_erase:
  "channel_stat_wf cs \<Longrightarrow> om_erase string_less key cs \<noteq> [] \<Longrightarrow>
   channel_stat_wf (om_erase string_less key cs)"
  by (auto simp: channel_stat_wf_def byte_string.erase_sorted dest!: set_erase)

lemma key_count_assign:
  assumes "cs = [] \<or> channel_stat_wf cs"
  shows "key_count (om_assign string_less key c cs) x = (if key = x then unat c else key_count cs x)"
proof -
  have "om_sorted string_less cs" using assms by (auto simp: channel_stat_wf_def)
  then show ?thesis by (simp add: key_count_def byte_string.find_assign)
qed

lemma key_count_erase:
  "channel_stat_wf cs \<Longrightarrow>
   key_count (om_erase string_less key cs) x = (if key = x then 0 else key_count cs x)"
  by (auto simp: key_count_def byte_string.find_erase channel_stat_wf_def)

lemma key_count_Nil [simp]: "key_count [] x = 0"
  by (simp add: key_count_def)

lemma key_count_pos:
  assumes "channel_stat_wf cs"
  shows "0 < key_count cs x \<longleftrightarrow> x \<in> fst ` set cs"
proof (cases "om_find string_less cs x")
  case None
  then have "x \<notin> fst ` set cs"
    using assms byte_string.find_None_iff [of cs x] by (auto simp: channel_stat_wf_def)
  with None show ?thesis by (simp add: key_count_def)
next
  case (Some c)
  then have "(x, c) \<in> set cs" using byte_string.find_Some_in [OF Some] by simp
  moreover from this have "c \<noteq> 0" using assms by (auto simp: channel_stat_wf_def)
  ultimately show ?thesis using Some by (force simp: key_count_def unat_gt_0)
qed

lemma stat_count_assign:
  "stat_wf st \<Longrightarrow> stat_count (om_assign string_less name cs st) x =
     (if name = ch_name x then key_count cs (ch_key x) else stat_count st x)"
  by (auto simp: stat_count_def byte_string.find_assign stat_wf_def)

lemma stat_count_erase:
  "stat_wf st \<Longrightarrow> stat_count (om_erase string_less name st) x =
     (if name = ch_name x then 0 else stat_count st x)"
  by (auto simp: stat_count_def byte_string.find_erase stat_wf_def)

lemma unat_succ: "unat (c :: 32 word) + 1 < 2 ^ 32 \<Longrightarrow> unat (c + 1) = unat c + 1"
  using unat_add_lem [of c 1] by simp

lemma unat_pred: "(c :: 32 word) \<noteq> 0 \<Longrightarrow> unat (c - 1) = unat c - 1"
  by (rule unat_minus_one)

lemma channel_id_eq_iff: "(x :: channel_id) = y \<longleftrightarrow> ch_name x = ch_name y \<and> ch_key x = ch_key y"
  by (cases x; cases y) simp

text \<open>The effect of the two operations on the invariant and on the counts.\<close>

lemma stat_inc_correct:
  assumes "stat_wf st" "stat_count st ch + 1 < 2 ^ 32"
  shows "stat_wf (stat_inc ch st)"
    "stat_count (stat_inc ch st) x =
       stat_count st x + (if ch_name ch \<noteq> [] \<and> x = ch then 1 else 0)"
proof -
  define cs where "cs = (case om_find string_less st (ch_name ch) of None \<Rightarrow> [] | Some cs \<Rightarrow> cs)"
  define c where "c = (case om_find string_less cs (ch_key ch) of None \<Rightarrow> 0 | Some c \<Rightarrow> c)"
  have inc: "ch_name ch \<noteq> [] \<Longrightarrow> stat_inc ch st =
      om_assign string_less (ch_name ch) (om_assign string_less (ch_key ch) (c + 1) cs) st"
    by (simp add: stat_inc_def cs_def c_def split: option.split)
  have cs: "cs = [] \<or> channel_stat_wf cs"
    using stat_wf_find [OF assms(1)] by (auto simp: cs_def split: option.split)
  have count: "stat_count st y = key_count cs (ch_key y)" if "ch_name ch = ch_name y" for y
    using that by (simp add: cs_def stat_count_def split: option.split)
  have c: "unat c = stat_count st ch"
    by (simp add: count [OF refl] key_count_def c_def split: option.split)
  then have succ: "unat (c + 1) = stat_count st ch + 1"
    using assms(2) unat_succ [of c] by simp
  then have "c + 1 \<noteq> 0" by (metis add_is_0 one_neq_zero unat_0)
  with cs have wf: "channel_stat_wf (om_assign string_less (ch_key ch) (c + 1) cs)"
    by (rule channel_stat_wf_assign)
  show "stat_wf (stat_inc ch st)"
  proof (cases "ch_name ch = []")
    case True
    then show ?thesis using assms(1) by (simp add: stat_inc_def)
  next
    case False
    then show ?thesis using stat_wf_assign [OF assms(1) wf] by (simp add: inc)
  qed
  show "stat_count (stat_inc ch st) x =
      stat_count st x + (if ch_name ch \<noteq> [] \<and> x = ch then 1 else 0)"
  proof (cases "ch_name ch = []")
    case True
    then show ?thesis by (simp add: stat_inc_def)
  next
    case False
    have "stat_count (stat_inc ch st) x = (if ch_name ch = ch_name x then
        (if ch_key ch = ch_key x then stat_count st ch + 1 else key_count cs (ch_key x))
        else stat_count st x)"
      by (simp only: inc [OF False] stat_count_assign [OF assms(1)] key_count_assign [OF cs] succ)
    with count [of x] count [OF refl] False show ?thesis
      by (simp add: channel_id_eq_iff split: if_splits)
  qed
qed

lemma stat_dec_correct:
  assumes "stat_wf st" "ch_name ch \<noteq> [] \<Longrightarrow> 0 < stat_count st ch"
  obtains st' where "stat_dec ch st = Inr st'" "stat_wf st'"
    "\<And>x. stat_count st' x = stat_count st x - (if ch_name ch \<noteq> [] \<and> x = ch then 1 else 0)"
proof (cases "ch_name ch = []")
  case True
  then have "stat_dec ch st = Inr st" by (simp add: stat_dec_def)
  with True assms(1) show ?thesis by (intro that [of st]) auto
next
  case False
  with assms(2) obtain cs c where cs: "om_find string_less st (ch_name ch) = Some cs"
      and c: "om_find string_less cs (ch_key ch) = Some c" "0 < unat c"
    by (auto simp: stat_count_def key_count_def split: option.splits)
  have wf: "channel_stat_wf cs" using stat_wf_find [OF assms(1) cs] by simp
  have count: "stat_count st y = key_count cs (ch_key y)" if "ch_name ch = ch_name y" for y
    using that cs by (simp add: stat_count_def)
  have nz: "c \<noteq> 0" using c(2) by auto
  have own: "stat_count st ch = unat c" using cs c by (simp add: stat_count_def key_count_def)
  let ?erased = "om_erase string_less (ch_key ch) cs"
  have dec: "stat_dec ch st = Inr (if c = 1 then
        (if ?erased = [] then om_erase string_less (ch_name ch) st
         else om_assign string_less (ch_name ch) ?erased st)
      else om_assign string_less (ch_name ch) (om_assign string_less (ch_key ch) (c - 1) cs) st)"
    using False cs c nz by (simp add: stat_dec_def Let_def)
  show ?thesis
  proof (cases "c = 1")
    case True
    show ?thesis
    proof (cases "?erased = []")
      case erased: True
      have "key_count cs y = 0" if "ch_key ch \<noteq> y" for y
        using key_count_erase [OF wf, of "ch_key ch" y] that erased by simp
      then have "stat_count (om_erase string_less (ch_name ch) st) x =
          stat_count st x - (if ch_name ch \<noteq> [] \<and> x = ch then 1 else 0)" for x
        using own count [of x] count [OF refl] True False
        by (auto simp: stat_count_erase [OF assms(1)] channel_id_eq_iff [of x])
      with dec True erased show ?thesis by (intro that [OF dec]) (simp_all add: stat_wf_erase assms(1))
    next
      case erased: False
      have "stat_count (om_assign string_less (ch_name ch) ?erased st) x =
          stat_count st x - (if ch_name ch \<noteq> [] \<and> x = ch then 1 else 0)" for x
        using own count [of x] True False
        by (auto simp: stat_count_assign [OF assms(1)] key_count_erase [OF wf])
      moreover have "stat_wf (om_assign string_less (ch_name ch) ?erased st)"
        by (rule stat_wf_assign [OF assms(1) channel_stat_wf_erase [OF wf erased] False])
      ultimately show ?thesis using True erased by (intro that [OF dec]) simp_all
    qed
  next
    case c1: False
    then have pred: "c - 1 \<noteq> 0" by simp
    note wf' = channel_stat_wf_assign [OF disjI2 [OF wf] pred]
    have "stat_count (om_assign string_less (ch_name ch) (om_assign string_less (ch_key ch) (c - 1) cs) st) x =
        stat_count st x - (if ch_name ch \<noteq> [] \<and> x = ch then 1 else 0)" for x
      using own count [of x] False unat_pred [OF nz]
      by (auto simp: stat_count_assign [OF assms(1)] key_count_assign [OF disjI2 [OF wf]])
    moreover have "stat_wf (om_assign string_less (ch_name ch)
        (om_assign string_less (ch_key ch) (c - 1) cs) st)"
      by (rule stat_wf_assign [OF assms(1) wf' False])
    ultimately show ?thesis using c1 by (intro that [OF dec]) simp_all
  qed
qed

lemma stat_dec_absent:
  assumes "stat_wf st" "ch_name ch \<noteq> []" "stat_count st ch = 0"
  shows "stat_dec ch st = Inl Assertion_failed"
proof (cases "om_find string_less st (ch_name ch)")
  case None
  with assms(2) show ?thesis by (simp add: stat_dec_def)
next
  case (Some cs)
  then have zero: "key_count cs (ch_key ch) = 0" using assms(3) by (simp add: stat_count_def)
  show ?thesis
  proof (cases "om_find string_less cs (ch_key ch)")
    case None
    with Some assms(2) show ?thesis by (simp add: stat_dec_def)
  next
    case (Some c)
    with zero have "c = 0" by (simp add: key_count_def unat_eq_zero)
    with Some \<open>om_find string_less st (ch_name ch) = Some cs\<close> assms(2) show ?thesis
      by (simp add: stat_dec_def assert_that_def)
  qed
qed


text \<open>What the statistics promise: a multiset of the channels of the connections.\<close>

fun stat_run :: "(bool \<times> channel_id) list \<Rightarrow> channels_stat \<Rightarrow> channels_stat result" where
  "stat_run [] st = Inr st"
| "stat_run ((add, ch) # ops) st =
     bind_result (if add then Inr (stat_inc ch st) else stat_dec ch st) (stat_run ops)"

fun stat_spec :: "(bool \<times> channel_id) list \<Rightarrow> channel_id multiset \<Rightarrow> channel_id multiset option" where
  "stat_spec [] M = Some M"
| "stat_spec ((add, ch) # ops) M =
     (if ch_name ch = [] then stat_spec ops M
      else if add then stat_spec ops (add_mset ch M)
      else if ch \<in># M then stat_spec ops (M - {#ch#})
      else None)"

definition stat_rel :: "channels_stat \<Rightarrow> channel_id multiset \<Rightarrow> bool" where
  "stat_rel st M \<longleftrightarrow> stat_wf st \<and> (\<forall>ch. stat_count st ch = count M ch)"

lemma stat_simulation:
  "stat_rel st M \<Longrightarrow> size M + length ops < 2 ^ 32 \<Longrightarrow>
   (case stat_spec ops M of
      Some M' \<Rightarrow> \<exists>st'. stat_run ops st = Inr st' \<and> stat_rel st' M'
    | None \<Rightarrow> stat_run ops st = Inl Assertion_failed)"
proof (induction ops arbitrary: st M)
  case (Cons p ops)
  obtain add ch where p: "p = (add, ch)" by (cases p)
  have wf: "stat_wf st" and cnt: "\<And>x. stat_count st x = count M x"
    using Cons.prems(1) by (auto simp: stat_rel_def)
  show ?case
  proof (cases "ch_name ch = []")
    case True
    then have "stat_inc ch st = st" "stat_dec ch st = Inr st"
      by (simp_all add: stat_inc_def stat_dec_def)
    then have "stat_run (p # ops) st = stat_run ops st" "stat_spec (p # ops) M = stat_spec ops M"
      using True by (simp_all add: p)
    then show ?thesis using Cons.IH [OF Cons.prems(1)] Cons.prems(2) by (simp only: list.size)
  next
    case named: False
    show ?thesis
    proof (cases add)
      case True
      have "stat_count st ch + 1 < 2 ^ 32"
        using Cons.prems(2) count_le_size [of M ch] by (simp add: cnt)
      note inc = stat_inc_correct [OF wf this]
      have "stat_rel (stat_inc ch st) (add_mset ch M)"
        using inc named cnt by (simp add: stat_rel_def)
      moreover have "stat_run (p # ops) st = stat_run ops (stat_inc ch st)"
        "stat_spec (p # ops) M = stat_spec ops (add_mset ch M)"
        using True named by (simp_all add: p)
      moreover have "size (add_mset ch M) + length ops < 2 ^ 32" using Cons.prems(2) by simp
      ultimately show ?thesis using Cons.IH [of "stat_inc ch st" "add_mset ch M"] by (simp only:)
    next
      case False
      show ?thesis
      proof (cases "ch \<in># M")
        case True
        then have "0 < stat_count st ch" by (simp add: cnt)
        then obtain st' where st': "stat_dec ch st = Inr st'" "stat_wf st'"
          "\<And>x. stat_count st' x = stat_count st x - (if ch_name ch \<noteq> [] \<and> x = ch then 1 else 0)"
          using stat_dec_correct [OF wf, of ch] by blast
        then have "stat_rel st' (M - {#ch#})" using named cnt by (simp add: stat_rel_def)
        moreover have "size (M - {#ch#}) + length ops < 2 ^ 32"
          using Cons.prems(2) size_Diff1_le [of M ch] by simp
        moreover have "stat_run (p # ops) st = stat_run ops st'"
          "stat_spec (p # ops) M = stat_spec ops (M - {#ch#})"
          using True False named st'(1) by (simp_all add: p)
        ultimately show ?thesis using Cons.IH [of st' "M - {#ch#}"] by (simp only:)
      next
        case absent: False
        then have "stat_count st ch = 0" by (simp add: cnt not_in_iff)
        then have "stat_dec ch st = Inl Assertion_failed" using stat_dec_absent [OF wf named] by simp
        with absent False named show ?thesis by (simp add: p)
      qed
    qed
  qed
qed simp

lemma stat_rel_Nil: "stat_rel [] {#}"
  by (simp add: stat_rel_def stat_wf_def stat_count_def)

lemma stat_rel_names:
  assumes "stat_rel st M"
  shows "set (load_names st) = ch_name ` set_mset M"
proof -
  have wf: "stat_wf st" and cnt: "\<And>x. stat_count st x = count M x"
    using assms by (auto simp: stat_rel_def)
  have "name \<in> fst ` set st \<longleftrightarrow> name \<in> ch_name ` set_mset M" for name
  proof
    assume "name \<in> fst ` set st"
    then obtain cs where "(name, cs) \<in> set st" by auto
    then have find: "om_find string_less st name = Some cs"
      using wf byte_string.in_find [of st name cs] by (simp add: stat_wf_def)
    then have cs: "channel_stat_wf cs" using stat_wf_find [OF wf] by blast
    then obtain key where "key \<in> fst ` set cs" by (cases cs) (auto simp: channel_stat_wf_def)
    then have "0 < key_count cs key" using key_count_pos [OF cs] by simp
    then have "0 < count M \<lparr>ch_name = name, ch_key = key\<rparr>"
      using find by (simp add: cnt [symmetric] stat_count_def)
    then have "\<lparr>ch_name = name, ch_key = key\<rparr> \<in># M" by simp
    then show "name \<in> ch_name ` set_mset M" by (rule rev_image_eqI) simp
  next
    assume "name \<in> ch_name ` set_mset M"
    then obtain ch where ch: "name = ch_name ch" "0 < stat_count st ch" by (auto simp: cnt)
    then obtain cs where "om_find string_less st name = Some cs"
      by (auto simp: stat_count_def split: option.splits)
    then show "name \<in> fst ` set st" using byte_string.find_Some_in by force
  qed
  then show ?thesis by (auto simp: load_names_def)
qed

lemma stat_rel_keys:
  assumes "stat_rel st M"
  obtains keys where "load_keys name st = Inr keys"
    "set keys = {ch_key ch | ch. ch \<in># M \<and> ch_name ch = name}"
proof -
  have wf: "stat_wf st" and cnt: "\<And>x. stat_count st x = count M x"
    using assms by (auto simp: stat_rel_def)
  have in_M: "ch \<in># M \<longleftrightarrow> 0 < stat_count st ch" for ch by (simp add: cnt)
  show thesis
  proof (cases "om_find string_less st name")
    case None
    then have "{ch_key ch | ch. ch \<in># M \<and> ch_name ch = name} = {}"
      by (auto simp: in_M stat_count_def)
    with None show ?thesis by (intro that [of "[]"]) (auto simp: load_keys_def)
  next
    case (Some cs)
    then have cs: "name \<noteq> []" "channel_stat_wf cs" using stat_wf_find [OF wf] by blast+
    have "ch \<in># M \<longleftrightarrow> ch_key ch \<in> fst ` set cs" if "ch_name ch = name" for ch
      using that Some key_count_pos [OF cs(2)] by (simp only: in_M stat_count_def) simp
    then have "{ch_key ch | ch. ch \<in># M \<and> ch_name ch = name} = fst ` set cs"
      by (force intro: exI [of _ "\<lparr>ch_name = name, ch_key = k\<rparr>" for k])
    then show ?thesis
      using Some cs by (intro that [of "map fst cs"]) (simp_all add: load_keys_def channel_stat_wf_def)
  qed
qed

text \<open>C20. The statistics refine a multiset of channels. Started empty, any sequence of fewer
  than \<open>2^32\<close> increments and decrements in which no channel is removed that is not there runs
  without a failing assertion, and afterwards the names it lists are those of the channels in the
  multiset and the keys it lists for a name those of the channels of that name; a sequence that
  removes a channel that is not there fails the assertion.\<close>

theorem channels_stat_refines_multiset:
  "length ops < 2 ^ 32 \<Longrightarrow>
   (case stat_spec ops {#} of
      None \<Rightarrow> stat_run ops [] = Inl Assertion_failed
    | Some M \<Rightarrow> \<exists>st. stat_run ops [] = Inr st \<and> set (load_names st) = ch_name ` set_mset M \<and>
        (\<forall>name. \<exists>keys. load_keys name st = Inr keys \<and>
           set keys = {ch_key ch | ch. ch \<in># M \<and> ch_name ch = name}))"
proof -
  assume "length ops < 2 ^ 32"
  then have sim: "case stat_spec ops {#} of Some M' \<Rightarrow> \<exists>st'. stat_run ops [] = Inr st' \<and> stat_rel st' M'
    | None \<Rightarrow> stat_run ops [] = Inl Assertion_failed"
    using stat_simulation [OF stat_rel_Nil, of ops] by simp
  show ?thesis
  proof (cases "stat_spec ops {#}")
    case None
    with sim show ?thesis by simp
  next
    case (Some M)
    with sim obtain st where st: "stat_run ops [] = Inr st" "stat_rel st M" by auto
    have "\<exists>keys. load_keys name st = Inr keys \<and> set keys = {ch_key ch | ch. ch \<in># M \<and> ch_name ch = name}"
      for name by (rule stat_rel_keys [OF st(2), of name]) blast
    with Some st stat_rel_names [OF st(2)] show ?thesis by auto
  qed
qed

theorem channels_stat_refines_multiset_witness:
  "\<exists>st. stat_run [(True, \<lparr>ch_name = ''a'', ch_key = ''1''\<rparr>), (True, \<lparr>ch_name = ''b'', ch_key = ''2''\<rparr>),
       (False, \<lparr>ch_name = ''a'', ch_key = ''1''\<rparr>)] [] = Inr st \<and> set (load_names st) = {''b''}"
  using channels_stat_refines_multiset [of "[(True, \<lparr>ch_name = ''a'', ch_key = ''1''\<rparr>),
      (True, \<lparr>ch_name = ''b'', ch_key = ''2''\<rparr>), (False, \<lparr>ch_name = ''a'', ch_key = ''1''\<rparr>)]"]
  by auto

section \<open>The response and its formatters\<close>

text \<open>What the operations of a response keep: its headers and channels are ordered, no channel
  is the empty one.\<close>

definition response_wf :: "response_impl \<Rightarrow> bool" where
  "response_wf rs \<longleftrightarrow> om_sorted is_ci_less (rs_headers rs) \<and>
     om_sorted channel_id_less (rs_channels_data rs) \<and>
     (\<forall>p\<in>set (rs_channels_data rs). \<not> channel_id_empty (fst p))"

lemma response_wf_init [inv_intros]: "response_wf response_init"
  by (simp add: response_wf_def response_init_def)

lemma response_wf_set_header [inv_intros]: "response_wf rs \<Longrightarrow> response_wf (set_header name value rs)"
  by (simp add: response_wf_def set_header_def ci_string.insert_sorted)

lemma response_wf_formatter_by_channel [inv_intros]:
  "response_wf rs \<Longrightarrow> response_wf (formatter_by_channel ch fmt_id rs)"
  using all_keys_assign [of "rs_channels_data rs" "\<lambda>k. \<not> channel_id_empty k" ch channel_id_less fmt_id]
  by (simp add: response_wf_def formatter_by_channel_def channel_order.assign_sorted)

lemma response_wf_other [inv_intros]:
  "response_wf rs \<Longrightarrow> response_wf (content_type t rs)" "response_wf rs \<Longrightarrow> response_wf (formatter_id t rs)"
  "response_wf rs \<Longrightarrow> response_wf (single_message b rs)" "response_wf rs \<Longrightarrow> response_wf (content_copy a t rs)"
  "response_wf rs \<Longrightarrow> response_wf (content_static t' rs)"
  by (simp_all add: response_wf_def content_type_def formatter_id_def single_message_def
      content_copy_def content_static_def)

definition fmt_of :: "formatters_factory \<Rightarrow> request_impl \<Rightarrow> string \<Rightarrow> formatter option \<Rightarrow> bool" where
  "fmt_of factory req fmt_id fmt \<longleftrightarrow>
     (if fmt_id = [] then fmt = None else factory_find factory fmt_id req = Inr fmt)"

definition channels_wf :: "(channel_id \<times> string \<times> formatter option) list \<Rightarrow> bool" where
  "channels_wf cdata \<longleftrightarrow> om_sorted channel_id_less cdata"

lemma channel_find_assign:
  "channels_wf cdata \<Longrightarrow> om_find channel_id_less (om_assign channel_id_less k v cdata) x =
     (if k = x then Some v else om_find channel_id_less cdata x)"
  by (simp add: channels_wf_def channel_order.find_assign channel_key_eq)

lemma channels_wf_assign: "channels_wf cdata \<Longrightarrow> channels_wf (om_assign channel_id_less k v cdata)"
  by (simp add: channels_wf_def channel_order.assign_sorted)

text \<open>One step of the loop enters one channel, with the formatter of its identifier, whether
  it is created now or was created for an earlier channel.\<close>

lemma channels_create_step:
  assumes "channels_create_loop factory req ((ch, fmt_id) # entries) fs cdata = Inr result"
    "om_sorted string_less fs" "\<forall>p\<in>set fs. fst p \<noteq> [] \<longrightarrow> factory_find factory (fst p) req = Inr (snd p)"
  obtains fmt fs' where "fmt_of factory req fmt_id fmt" "om_sorted string_less fs'"
    "\<forall>p\<in>set fs'. fst p \<noteq> [] \<longrightarrow> factory_find factory (fst p) req = Inr (snd p)"
    "channels_create_loop factory req entries fs'
       (om_assign channel_id_less (channel_id_of ch) (ch_data ch, fmt) cdata) = Inr result"
proof (cases "fmt_id = []")
  case True
  then show ?thesis
    using assms by (intro that [of None fs]) (simp_all add: fmt_of_def assert_that_eq_Inr)
next
  case False
  show ?thesis
  proof (cases "om_find string_less fs fmt_id")
    case (Some fmt)
    then have "(fmt_id, fmt) \<in> set fs" using byte_string.find_Some_in [OF Some] by simp
    then have "fmt_of factory req fmt_id fmt" using assms(3) False by (auto simp: fmt_of_def)
    then show ?thesis
      using assms Some False by (intro that [of fmt fs]) (simp_all add: assert_that_eq_Inr)
  next
    case None
    with False assms(1) obtain fmt where fmt: "factory_find factory fmt_id req = Inr fmt"
      "channels_create_loop factory req entries (om_insert string_less fmt_id fmt fs)
         (om_assign channel_id_less (channel_id_of ch) (ch_data ch, fmt) cdata) = Inr result"
      by (auto simp: assert_that_eq_Inr bind_result_eq_Inr)
    note set_insert [of string_less fmt_id fmt fs]
    then have "\<forall>p\<in>set (om_insert string_less fmt_id fmt fs). fst p \<noteq> [] \<longrightarrow>
        factory_find factory (fst p) req = Inr (snd p)"
      using assms(3) fmt(1) by auto
    with fmt False assms(2) show ?thesis
      by (intro that [of fmt "om_insert string_less fmt_id fmt fs"])
        (simp_all add: fmt_of_def byte_string.insert_sorted)
  qed
qed

lemma channels_create_loop_correct:
  "channels_create_loop factory req entries fs cdata = Inr result \<Longrightarrow> om_sorted channel_id_less entries \<Longrightarrow>
   channels_wf cdata \<Longrightarrow> om_sorted string_less fs \<Longrightarrow>
   \<forall>p\<in>set fs. fst p \<noteq> [] \<longrightarrow> factory_find factory (fst p) req = Inr (snd p) \<Longrightarrow>
   channels_wf result \<and>
   (\<forall>ch fmt_id. (ch, fmt_id) \<in> set entries \<longrightarrow>
      (\<exists>fmt. om_find channel_id_less result (channel_id_of ch) = Some (ch_data ch, fmt) \<and>
         fmt_of factory req fmt_id fmt)) \<and>
   (\<forall>k. (\<forall>p\<in>set entries. channel_id_of (fst p) \<noteq> k) \<longrightarrow>
      om_find channel_id_less result k = om_find channel_id_less cdata k)"
proof (induction entries arbitrary: fs cdata)
  case (Cons p entries)
  obtain ch fmt_id where p: "p = (ch, fmt_id)" by (cases p)
  from channels_create_step [OF Cons.prems(1) [unfolded p] Cons.prems(4,5)]
  obtain fmt fs' where step: "fmt_of factory req fmt_id fmt" "om_sorted string_less fs'"
    "\<forall>p\<in>set fs'. fst p \<noteq> [] \<longrightarrow> factory_find factory (fst p) req = Inr (snd p)"
    "channels_create_loop factory req entries fs'
       (om_assign channel_id_less (channel_id_of ch) (ch_data ch, fmt) cdata) = Inr result" .
  have "om_sorted channel_id_less entries" using Cons.prems(2) by simp
  note IH = Cons.IH [OF step(4) this channels_wf_assign [OF Cons.prems(3)] step(2,3)]
  have "\<forall>q\<in>set entries. channel_id_of (fst q) \<noteq> channel_id_of ch"
    using Cons.prems(2) by (auto simp: p channel_order.lt_ord_key channel_key_eq [symmetric])
  with IH have "om_find channel_id_less result (channel_id_of ch) = Some (ch_data ch, fmt)"
    by (simp add: channel_find_assign [OF Cons.prems(3)])
  with IH step(1) show ?case
    by (auto simp: p channel_find_assign [OF Cons.prems(3)])
qed simp

text \<open>C31. Every channel of a response gets its formatter: when the formatters of a response
  with channels are created, a message on a channel the response names is allowed and is formatted
  by the formatter its identifier denotes for this request (by none if the identifier is empty or
  unknown), and a message on any other channel is not allowed.\<close>

theorem formatters_by_channel:
  "response_wf resp \<Longrightarrow> rs_channels_data resp \<noteq> [] \<Longrightarrow> create_formatters_data factory req resp = Inr r \<Longrightarrow>
   \<exists>d. r = Some d \<and>
     (\<forall>ch fmt_id msg. (ch, fmt_id) \<in> set (rs_channels_data resp) \<longrightarrow>
        channel_id_of (msg_channel_info msg) = channel_id_of ch \<longrightarrow>
        fmt_allow_message d msg None = Inr True \<and>
        find_formatter d msg = (if fmt_id = [] then Inr None else factory_find factory fmt_id req)) \<and>
     (\<forall>msg. channel_id_of (msg_channel_info msg) \<notin> (channel_id_of \<circ> fst) ` set (rs_channels_data resp) \<longrightarrow>
        fmt_allow_message d msg flt = Inr False)"
proof -
  assume h: "response_wf resp" "rs_channels_data resp \<noteq> []" "create_formatters_data factory req resp = Inr r"
  from h(2,3) obtain cdata where
    cdata: "channels_create_loop factory req (rs_channels_data resp) [] [] = Inr cdata"
      "r = Some (Formatters_channels cdata)"
    by (auto simp: create_formatters_data_def channels_create_def bind_result_eq_Inr)
  have "om_sorted channel_id_less (rs_channels_data resp)" using h(1) by (simp add: response_wf_def)
  from channels_create_loop_correct [OF cdata(1) this]
  have found: "\<And>ch fmt_id. (ch, fmt_id) \<in> set (rs_channels_data resp) \<Longrightarrow>
        \<exists>fmt. om_find channel_id_less cdata (channel_id_of ch) = Some (ch_data ch, fmt) \<and>
          fmt_of factory req fmt_id fmt"
    and other: "\<And>k. \<forall>p\<in>set (rs_channels_data resp). channel_id_of (fst p) \<noteq> k \<Longrightarrow>
        om_find channel_id_less cdata k = None"
    by (auto simp: channels_wf_def)
  have "fmt_allow_message (Formatters_channels cdata) msg None = Inr True \<and>
      find_formatter (Formatters_channels cdata) msg =
        (if fmt_id = [] then Inr None else factory_find factory fmt_id req)"
    if "(ch, fmt_id) \<in> set (rs_channels_data resp)" "channel_id_of (msg_channel_info msg) = channel_id_of ch"
    for ch fmt_id msg
  proof -
    have "\<not> channel_id_empty ch" using h(1) that(1) by (auto simp: response_wf_def)
    then have "\<not> channel_id_empty (msg_channel_info msg)"
      using that(2) by (simp add: channel_id_empty_def channel_id_of_def)
    with found [OF that(1)] that(2) show ?thesis
      by (auto simp: fmt_allow_message_def find_formatter_def fmt_of_def)
  qed
  moreover have "fmt_allow_message (Formatters_channels cdata) msg flt = Inr False"
    if "channel_id_of (msg_channel_info msg) \<notin> (channel_id_of \<circ> fst) ` set (rs_channels_data resp)" for msg
  proof -
    have "om_find channel_id_less cdata (channel_id_of (msg_channel_info msg)) = None"
      using that by (intro other) force
    then show ?thesis by (simp add: fmt_allow_message_def)
  qed
  ultimately show ?thesis using cdata(2) by blast
qed

definition sample_factory :: formatters_factory where
  "sample_factory = attach_creator ''json'' (Some (\<lambda>req. Inr (Some (\<lambda>s. Inr (''<'' @ s @ ''>''))))) []"

definition sample_channel :: channel_info where
  "sample_channel = \<lparr>ch_name = ''news'', ch_key = ''1'', ch_data = []\<rparr>"

definition sample_response :: response_impl where
  "sample_response = formatter_by_channel sample_channel ''json'' response_init"

theorem formatters_by_channel_witness:
  "\<exists>d. create_formatters_data sample_factory request_empty sample_response = Inr (Some d) \<and>
     fmt_allow_message d \<lparr>msg_content = ''x'', msg_channel_info = sample_channel\<rparr> None = Inr True"
proof -
  have wf: "response_wf sample_response"
    unfolding sample_response_def by (intro inv_intros)
  have data: "rs_channels_data sample_response = [(sample_channel, ''json'')]"
    by (simp add: sample_response_def formatter_by_channel_def sample_channel_def channel_id_empty_def
        response_init_def)
  then have ne: "rs_channels_data sample_response \<noteq> []" by simp
  have "\<exists>r. create_formatters_data sample_factory request_empty sample_response = Inr r"
    by (simp add: create_formatters_data_def channels_create_def data sample_channel_def channel_id_empty_def
        factory_find_def sample_factory_def attach_creator_def string_less_def)
  then obtain r where r: "create_formatters_data sample_factory request_empty sample_response = Inr r" ..
  from formatters_by_channel [OF wf ne r] data r show ?thesis by fastforce
qed

text \<open>Swapping two responses does not swap the contents they point to: a response at
  address \<open>a\<close> whose content was copied into it is swapped with one at address \<open>b\<close>; the
  pointer that moves to \<open>b\<close> still leads to the object at \<open>a\<close>, which now holds what \<open>b\<close> held.\<close>

theorem response_swap_content:
  "a \<noteq> b \<Longrightarrow> objects a = content_copy a body rs \<Longrightarrow>
   objects' = objects (a := fst (response_swap (objects a) (objects b)),
     b := snd (response_swap (objects a) (objects b))) \<Longrightarrow>
   rs_content (objects' b) = body \<and>
   content_read objects' (rs_content_ptr (objects' b)) = Some (rs_content (objects b))"
  by (simp add: response_swap_def content_copy_def content_read_def)

theorem response_swap_content_witness:
  "\<exists>objects'. rs_content (objects' (2::nat)) = ''page'' \<and>
     content_read objects' (rs_content_ptr (objects' 2)) = Some []"
proof -
  define m where "m = (\<lambda>_::nat. response_init) (3 := content_copy 3 ''page'' response_init)"
  define m' where "m' = m (3 := fst (response_swap (m 3) (m 2)), 2 := snd (response_swap (m 3) (m 2)))"
  have "m 3 = content_copy 3 ''page'' response_init" "rs_content (m 2) = []"
    by (simp_all add: m_def response_init_def)
  with response_swap_content [OF _ _ m'_def, of "''page''" response_init] show ?thesis
    by (intro exI [of _ m']) simp
qed

end
