(* ===== verification/Websocket.thy ===== *)
theory Websocket
  imports Request "HOL-Library.Signed_Division"
begin

text \<open>
  The WebSocket handshake and framing (\<open>include/details/websocket_info.hpp\<close>,
  \<open>library/websocket_info.cpp\<close>): the answers to the handshakes of the old protocol (two keys
  and eight bytes of body, hashed with MD5) and of the new one (one key, hashed with SHA-1), and
  the frames messages are sent in. The digests and the base64 filter of OpenSSL are parameters
  (\<open>crypto\<close>). Writing to a stream is modelled by the characters written.
\<close>

section \<open>Constants\<close>

definition ws_str_handshake :: string where
  "ws_str_handshake = ''HTTP/1.1 101 Web Socket Protocol Handshake''"
definition ws_str_handshake_new :: string where
  "ws_str_handshake_new = ''HTTP/1.1 101 Switching Protocols''"
definition ws_str_connection :: string where "ws_str_connection = ''Connection''"
definition ws_str_upgrade :: string where "ws_str_upgrade = ''Upgrade''"
definition ws_str_websocket :: string where "ws_str_websocket = ''WebSocket''"
definition ws_str_websocket_lowercase :: string where "ws_str_websocket_lowercase = ''websocket''"
definition ws_str_origin :: string where "ws_str_origin = ''Origin''"
definition ws_str_host :: string where "ws_str_host = ''Host''"
definition ws_str_websocket_origin :: string where "ws_str_websocket_origin = ''WebSocket-Origin''"
definition ws_str_websocket_protocol :: string where
  "ws_str_websocket_protocol = ''WebSocket-Protocol''"
definition ws_str_websocket_location :: string where
  "ws_str_websocket_location = ''WebSocket-Location''"
definition ws_str_scheme_delimiter :: string where "ws_str_scheme_delimiter = ''ws://''"
definition ws_str_secure_scheme_delimiter :: string where
  "ws_str_secure_scheme_delimiter = ''wss://''"
definition ws_str_sec_prefix :: string where "ws_str_sec_prefix = ''Sec-''"
definition ws_str_sec_websocket_key1 :: string where
  "ws_str_sec_websocket_key1 = ''Sec-WebSocket-Key1''"
definition ws_str_sec_websocket_key2 :: string where
  "ws_str_sec_websocket_key2 = ''Sec-WebSocket-Key2''"
definition ws_str_sec_websocket_key :: string where
  "ws_str_sec_websocket_key = ''Sec-WebSocket-Key''"
definition ws_str_sec_websocket_origin :: string where
  "ws_str_sec_websocket_origin = ''Sec-WebSocket-Origin''"
definition ws_str_sec_websocket_accept :: string where
  "ws_str_sec_websocket_accept = ''Sec-WebSocket-Accept''"
definition ws_str_sec_websocket_version :: string where
  "ws_str_sec_websocket_version = ''Sec-WebSocket-Version''"
definition ws_str_secret_word :: string where
  "ws_str_secret_word = ''258EAFA5-E914-47DA-95CA-C5AB0DC85B11''"
definition ws_small_msg_max_size :: nat where "ws_small_msg_max_size = 125"

definition base64_length :: "nat \<Rightarrow> nat" where
  "base64_length len = 4 * ((len + 2) div 3)"

definition sha_output_size :: nat where
  "sha_output_size = 20"

section \<open>The state\<close>

record websocket_info =
  ws_origin :: string
  ws_protocol :: string
  ws_location :: string
  ws_sec_data :: string
  ws_is_empty :: bool
  ws_proto_newsec :: bool
  ws_proto_13 :: bool

text \<open>What the code calls in OpenSSL: the two digests, whether the two BIO objects are
  created, and the bytes in the memory BIO after writing through the base64 filter (\<open>None\<close> when
  there is no such memory).\<close>

record crypto =
  sha1 :: "string \<Rightarrow> string"
  md5 :: "string \<Rightarrow> string"
  bio_f_base64 :: bool
  bio_s_mem :: bool
  bio_base64 :: "string \<Rightarrow> string option"

definition websocket_info_init :: websocket_info where
  "websocket_info_init = \<lparr>ws_origin = [], ws_protocol = [], ws_location = [], ws_sec_data = [],
     ws_is_empty = True, ws_proto_newsec = False, ws_proto_13 = False\<rparr>"

definition ws_empty :: "websocket_info \<Rightarrow> bool" where
  "ws_empty ws = ws_is_empty ws"

definition ws_valid :: "websocket_info \<Rightarrow> bool" where
  "ws_valid ws \<longleftrightarrow> ws_location ws \<noteq> []"

section \<open>Answering the handshake\<close>

definition ws_write_headers :: "websocket_info \<Rightarrow> string result" where
  "ws_write_headers ws =
     (if \<not> ws_valid ws then Inl (Logic_error ''can not print websocket headers'')
      else Inr (
        (if ws_proto_newsec ws then ws_str_handshake_new else ws_str_handshake) @ crlf @
        ws_str_upgrade @ '': '' @ ws_str_websocket @ crlf @
        ws_str_connection @ '': '' @ ws_str_upgrade @ crlf @
        (if ws_origin ws \<noteq> [] then
           (if ws_sec_data ws \<noteq> [] then ws_str_sec_prefix else []) @
           ws_str_websocket_origin @ '': '' @ ws_origin ws @ crlf else []) @
        (if ws_sec_data ws \<noteq> [] then ws_str_sec_prefix else []) @
        ws_str_websocket_location @ '': '' @ ws_location ws @ crlf @
        (if ws_protocol ws \<noteq> [] then
           (if ws_sec_data ws \<noteq> [] then ws_str_sec_prefix else []) @
           ws_str_websocket_protocol @ '': '' @ ws_protocol ws @ crlf else []) @
        (if ws_proto_newsec ws then
           ws_str_sec_websocket_accept @ '': '' @ ws_sec_data ws @ crlf else [])))"

definition ws_write_body :: "websocket_info \<Rightarrow> string result" where
  "ws_write_body ws =
     (if ws_proto_newsec ws then Inr []
      else if \<not> ws_valid ws then Inl (Logic_error ''can not print websocket body'')
      else if ws_sec_data ws \<noteq> [] then Inr (ws_sec_data ws)
      else Inr [])"

definition ws_write_close :: "websocket_info \<Rightarrow> bool \<times> string" where
  "ws_write_close ws = (if \<not> ws_proto_newsec ws then (False, []) else (True, [CHR 0x88]))"

text \<open>The number of a key: its digits as one number, divided by the number of its spaces. The
  number is kept in 64 bits and the quotient in 32, and the bytes of the quotient are swapped;
  \<open>memory_bytes\<close> are the bytes of a 32-bit integer on a little-endian machine.\<close>

fun scan_key :: "string \<Rightarrow> 64 word \<Rightarrow> 32 word \<Rightarrow> 64 word \<times> 32 word" where
  "scan_key [] v ac = (v, ac)"
| "scan_key (c # s) v ac =
     (if c = CHR 0x00 then (v, ac)
      else if c = CHR '' '' then scan_key s v (ac + 1)
      else if schar (CHR ''0'') \<le> schar c \<and> schar c \<le> schar (CHR ''9'')
        then scan_key s (v * 10 + word_of_int (schar c - schar (CHR ''0''))) ac
      else scan_key s v ac)"

definition byte_at :: "32 word \<Rightarrow> nat \<Rightarrow> nat" where
  "byte_at v i = unat v div 256 ^ i mod 256"

definition byte_swap :: "32 word \<Rightarrow> 32 word" where
  "byte_swap v = word_of_nat (byte_at v 3 + 256 * byte_at v 2 + 65536 * byte_at v 1 +
     16777216 * byte_at v 0)"

definition memory_bytes :: "32 word \<Rightarrow> string" where
  "memory_bytes v = map (\<lambda>i. char_of (byte_at v i)) [0, 1, 2, 3]"

definition get_websocket_key_value :: "string \<Rightarrow> string \<Rightarrow> 32 word result" where
  "get_websocket_key_value s key =
     (case scan_key s 0 0 of (v, ac) \<Rightarrow>
        if ac = 0 then Inl (Runtime_error (''invalid http header '' @ key @ '' : '' @
          takeWhile (\<lambda>c. c \<noteq> CHR 0x00) s))
        else Inr (byte_swap (word_of_int (sint v sdiv sint ac))))"

definition ws_parse_sec_key ::
    "crypto \<Rightarrow> request_impl \<Rightarrow> websocket_info \<Rightarrow> unit result \<times> websocket_info" where
  "ws_parse_sec_key cr req ws =
     (let key = header req ws_str_sec_websocket_key in
      if key = [] then (Inl (Runtime_error ''can not find key in websocket request''), ws)
      else let obuf = sha1 cr (key @ ws_str_secret_word) in
        if \<not> bio_f_base64 cr then (Inl Bad_alloc, ws)
        else if \<not> bio_s_mem cr then (Inl Bad_alloc, ws)
        else case bio_base64 cr obuf of
            None \<Rightarrow> (Inl (Runtime_error ''can not create accept data in websocket request''), ws)
          | Some data \<Rightarrow>
              if length data \<noteq> base64_length sha_output_size + 1
              then (Inl (Runtime_error ''can not create accept data in websocket request''), ws)
              else (Inr (), ws\<lparr>ws_sec_data := take (length data - 1) data\<rparr>))"

definition ws_parse_sec_keys ::
    "crypto \<Rightarrow> request_impl \<Rightarrow> websocket_info \<Rightarrow> unit result \<times> websocket_info" where
  "ws_parse_sec_keys cr req ws =
     (let key1 = header req ws_str_sec_websocket_key1 in
      if key1 = [] then (Inr (), ws)
      else let key2 = header req ws_str_sec_websocket_key2 in
        if key2 = [] then (Inr (), ws)
        else if length (rq_body req) < 8
        then (Inl (Runtime_error ''can not find data in websocket request''), ws)
        else case get_websocket_key_value key1 ws_str_sec_websocket_key1 of
            Inl e \<Rightarrow> (Inl e, ws)
          | Inr v1 \<Rightarrow>
             (case get_websocket_key_value key2 ws_str_sec_websocket_key2 of
                Inl e \<Rightarrow> (Inl e, ws)
              | Inr v2 \<Rightarrow> (Inr (), ws\<lparr>ws_sec_data :=
                  md5 cr (memory_bytes v1 @ memory_bytes v2 @ take 8 (rq_body req))\<rparr>)))"

text \<open>\<open>parse\<close> in two parts: which protocol the request asks for, and the data of the answer.
  A thrown exception leaves the fields assigned before it.\<close>

definition ws_parse_upgrade :: "request_impl \<Rightarrow> websocket_info \<Rightarrow> bool result \<times> websocket_info" where
  "ws_parse_upgrade req ws =
     (if header req ws_str_connection \<noteq> ws_str_upgrade then (Inr False, ws)
      else let upgrade_hdr = header req ws_str_upgrade in
        if upgrade_hdr = ws_str_websocket_lowercase then
          let version_hdr = header req ws_str_sec_websocket_version in
          if version_hdr = ''13'' then
            (Inr True, ws\<lparr>ws_proto_13 := True, ws_proto_newsec := True, ws_is_empty := False\<rparr>)
          else if version_hdr \<noteq> ''7'' \<and> version_hdr \<noteq> ''8'' then
            (Inl (Runtime_error (''not supported websocket protocol version: '' @ version_hdr)), ws)
          else (Inr True, ws\<lparr>ws_proto_newsec := True, ws_is_empty := False\<rparr>)
        else if upgrade_hdr \<noteq> ws_str_websocket then (Inr False, ws)
        else (Inr True, ws\<lparr>ws_is_empty := False\<rparr>))"

definition ws_parse_data ::
    "crypto \<Rightarrow> request_impl \<Rightarrow> bool \<Rightarrow> websocket_info \<Rightarrow> bool result \<times> websocket_info" where
  "ws_parse_data cr req secure ws =
     (let host = header req ws_str_host in
      if host = [] then (Inl (Runtime_error ''can not find Host in websocket request''), ws)
      else case (if ws_proto_newsec ws then ws_parse_sec_key cr req ws
                 else ws_parse_sec_keys cr req ws) of
          (Inl e, ws1) \<Rightarrow> (Inl e, ws1)
        | (Inr _, ws1) \<Rightarrow>
            let ws2 = ws1\<lparr>ws_location :=
                  (if secure then ws_str_secure_scheme_delimiter else ws_str_scheme_delimiter)
                  @ host @ rq_uri req\<rparr>;
                ws3 = ws2\<lparr>ws_origin :=
                  (if ws_proto_newsec ws2 \<and> \<not> ws_proto_13 ws2
                   then (if header req ws_str_sec_websocket_origin = [] then header req ws_str_origin
                         else header req ws_str_sec_websocket_origin)
                   else header req ws_str_origin)\<rparr>;
                protocol = header req ws_str_websocket_protocol;
                ws4 = ws3\<lparr>ws_protocol :=
                  (if ws_proto_newsec ws3 then takeWhile (\<lambda>c. c \<noteq> CHR '','') protocol
                   else protocol)\<rparr>
            in (Inr True, ws4))"

definition ws_parse ::
    "crypto \<Rightarrow> request_impl \<Rightarrow> bool \<Rightarrow> websocket_info \<Rightarrow> bool result \<times> websocket_info" where
  "ws_parse cr req secure ws =
     (case ws_parse_upgrade req ws of
        (Inr True, ws') \<Rightarrow> ws_parse_data cr req secure ws'
      | r \<Rightarrow> r)"

section \<open>Frames\<close>

function ws_write_chunks :: "string \<Rightarrow> string" where
  "ws_write_chunks str =
     (if length str > ws_small_msg_max_size
      then CHR 0x00 # char_of ws_small_msg_max_size # take ws_small_msg_max_size str @
        ws_write_chunks (drop ws_small_msg_max_size str)
      else CHR 0x80 # char_of (length str) # str)"
  by pat_completeness auto
termination by (relation "measure length") (auto simp: ws_small_msg_max_size_def)

declare ws_write_chunks.simps [simp del]

definition ws_write_message :: "websocket_info \<Rightarrow> string \<Rightarrow> string" where
  "ws_write_message ws msg =
     (if \<not> ws_proto_newsec ws then CHR 0x00 # msg @ [CHR 0xFF]
      else if length msg \<le> ws_small_msg_max_size then CHR 0x81 # char_of (length msg) # msg
      else CHR 0x01 # char_of ws_small_msg_max_size # take ws_small_msg_max_size msg @
        ws_write_chunks (drop ws_small_msg_max_size msg))"

section \<open>What a receiver makes of the frames\<close>

text \<open>A reference receiver. In the new protocol a frame is an opcode byte, a length of at most
  125 and the payload; a message is one final text frame (\<open>0x81\<close>) or a text frame (\<open>0x01\<close>),
  continuations (\<open>0x00\<close>) and a final continuation (\<open>0x80\<close>). In the old protocol a message
  stands between the bytes \<open>0x00\<close> and \<open>0xFF\<close>.\<close>

fun ws_frames :: "string \<Rightarrow> (char \<times> string) list option" where
  "ws_frames [] = Some []"
| "ws_frames [a] = None"
| "ws_frames (a # l # rest) =
     (if uchar l > 125 \<or> length rest < uchar l then None
      else map_option (Cons (a, take (uchar l) rest)) (ws_frames (drop (uchar l) rest)))"

fun ws_assemble :: "(char \<times> string) list \<Rightarrow> string option \<Rightarrow> string list option" where
  "ws_assemble [] None = Some []"
| "ws_assemble [] (Some q) = None"
| "ws_assemble ((opcode, p) # fs) None =
     (if opcode = CHR 0x81 then map_option (Cons p) (ws_assemble fs None)
      else if opcode = CHR 0x01 then ws_assemble fs (Some p)
      else None)"
| "ws_assemble ((opcode, p) # fs) (Some q) =
     (if opcode = CHR 0x00 then ws_assemble fs (Some (q @ p))
      else if opcode = CHR 0x80 then map_option (Cons (q @ p)) (ws_assemble fs None)
      else None)"

function ws_old_messages :: "string \<Rightarrow> string list option" where
  "ws_old_messages [] = Some []"
| "ws_old_messages (c # s) =
     (if c \<noteq> CHR 0x00 \<or> CHR 0xFF \<notin> set s then None
      else map_option (Cons (takeWhile (\<lambda>c. c \<noteq> CHR 0xFF) s))
        (ws_old_messages (tl (dropWhile (\<lambda>c. c \<noteq> CHR 0xFF) s))))"
  by pat_completeness auto
termination
  by (relation "measure length") (auto simp: less_Suc_eq_le intro: le_trans [OF diff_le_self length_dropWhile_le])

definition ws_read :: "string option \<Rightarrow> string \<Rightarrow> string list option" where
  "ws_read acc bytes = Option.bind (ws_frames bytes) (\<lambda>fs. ws_assemble fs acc)"

definition ws_receive :: "bool \<Rightarrow> string \<Rightarrow> string list option" where
  "ws_receive newsec bytes = (if newsec then ws_read None bytes else ws_old_messages bytes)"

lemma ws_frames_frame:
  "length p \<le> 125 \<Longrightarrow> n = length p \<Longrightarrow> ws_frames (a # char_of n # p @ rest) = map_option (Cons (a, p)) (ws_frames rest)"
  by simp

lemma ws_read_frame:
  "length p \<le> 125 \<Longrightarrow> n = length p \<Longrightarrow> ws_read acc (a # char_of n # p @ rest) =
     Option.bind (ws_frames rest) (\<lambda>fs. ws_assemble ((a, p) # fs) acc)"
  unfolding ws_read_def by (simp only: ws_frames_frame) (cases "ws_frames rest"; simp)

lemma ws_read_chunks:
  "ws_read (Some q) (ws_write_chunks s @ rest) = map_option (Cons (q @ s)) (ws_read None rest)"
proof (induction s arbitrary: q rule: ws_write_chunks.induct)
  case (1 s)
  show ?case
  proof (cases "length s > ws_small_msg_max_size")
    case True
    let ?p = "take ws_small_msg_max_size s" and ?t = "ws_write_chunks (drop ws_small_msg_max_size s)"
    have "ws_write_chunks s @ rest =
        CHR 0x00 # char_of ws_small_msg_max_size # ?p @ ?t @ rest"
      using True by (simp add: ws_write_chunks.simps [of s])
    moreover have "length ?p \<le> 125" "ws_small_msg_max_size = length ?p"
      using True by (simp_all add: ws_small_msg_max_size_def)
    ultimately have "ws_read (Some q) (ws_write_chunks s @ rest) = ws_read (Some (q @ ?p)) (?t @ rest)"
      using ws_read_frame [of ?p ws_small_msg_max_size "Some q"]
      by (simp only: ws_assemble.simps) (simp add: ws_read_def)
    then show ?thesis using 1 [OF True, of "q @ ?p"] by simp
  next
    case False
    have "ws_write_chunks s @ rest = CHR 0x80 # char_of (length s) # s @ rest"
      using False by (simp add: ws_write_chunks.simps [of s])
    moreover have "length s \<le> 125" using False by (simp add: ws_small_msg_max_size_def)
    ultimately show ?thesis
      by (simp only: ws_read_frame [OF _ refl]) (cases "ws_frames rest"; simp add: ws_read_def)
  qed
qed

lemma ws_read_message:
  assumes "ws_proto_newsec ws"
  shows "ws_read None (ws_write_message ws msg @ rest) = map_option (Cons msg) (ws_read None rest)"
proof (cases "length msg \<le> ws_small_msg_max_size")
  case True
  then have "ws_write_message ws msg @ rest = CHR 0x81 # char_of (length msg) # msg @ rest"
    "length msg \<le> 125"
    using assms by (simp_all add: ws_write_message_def ws_small_msg_max_size_def)
  then show ?thesis
    by (simp only: ws_read_frame [OF _ refl]) (cases "ws_frames rest"; simp add: ws_read_def)
next
  case False
  let ?p = "take ws_small_msg_max_size msg" and ?t = "ws_write_chunks (drop ws_small_msg_max_size msg)"
  have "ws_write_message ws msg @ rest = CHR 0x01 # char_of ws_small_msg_max_size # ?p @ ?t @ rest"
    using False assms by (simp add: ws_write_message_def)
  moreover have "length ?p \<le> 125" "ws_small_msg_max_size = length ?p"
    using False by (simp_all add: ws_small_msg_max_size_def)
  ultimately have "ws_read None (ws_write_message ws msg @ rest) = ws_read (Some ?p) (?t @ rest)"
    using ws_read_frame [of ?p ws_small_msg_max_size None]
    by (simp only: ws_assemble.simps) (simp add: ws_read_def)
  then show ?thesis by (simp add: ws_read_chunks)
qed

lemma ws_old_message:
  assumes "\<not> ws_proto_newsec ws" "CHR 0xFF \<notin> set msg"
  shows "ws_old_messages (ws_write_message ws msg @ rest) = map_option (Cons msg) (ws_old_messages rest)"
proof -
  have "\<forall>c\<in>set msg. c \<noteq> CHR 0xFF" using assms(2) by auto
  then have "takeWhile (\<lambda>c. c \<noteq> CHR 0xFF) (msg @ CHR 0xFF # rest) = msg"
    "dropWhile (\<lambda>c. c \<noteq> CHR 0xFF) (msg @ CHR 0xFF # rest) = CHR 0xFF # rest"
    by (simp_all add: takeWhile_stop dropWhile_stop)
  then show ?thesis using assms(1) by (simp add: ws_write_message_def)
qed

text \<open>C16. Messages survive the framing: whatever sequence of messages is written, of any
  length, a receiver of the frames gets exactly these messages in order. In the new protocol this
  holds for all byte strings, in the old one for messages without the byte \<open>0xFF\<close> (all of
  UTF-8).\<close>

theorem ws_messages_roundtrip:
  "ws_proto_newsec ws \<or> (\<forall>m\<in>set msgs. CHR 0xFF \<notin> set m) \<Longrightarrow>
   ws_receive (ws_proto_newsec ws) (concat (map (ws_write_message ws) msgs)) = Some msgs"
proof (induction msgs)
  case Nil
  show ?case by (simp add: ws_receive_def ws_read_def)
next
  case (Cons m ms)
  then show ?case
    by (cases "ws_proto_newsec ws") (simp_all add: ws_receive_def ws_read_message ws_old_message)
qed

theorem ws_messages_roundtrip_witness:
  "ws_receive True (concat (map (ws_write_message (websocket_info_init\<lparr>ws_proto_newsec := True\<rparr>))
     [replicate 300 (CHR ''x''), ''hello''])) = Some [replicate 300 (CHR ''x''), ''hello'']"
  using ws_messages_roundtrip [of "websocket_info_init\<lparr>ws_proto_newsec := True\<rparr>"
      "[replicate 300 (CHR ''x''), ''hello'']"]
  by (simp only: websocket_info.simps websocket_info_init_def simp_thms)

section \<open>The number of a key\<close>

definition is_digit :: "char \<Rightarrow> bool" where
  "is_digit c \<longleftrightarrow> 48 \<le> uchar c \<and> uchar c \<le> 57"

definition key_number :: "string \<Rightarrow> nat" where
  "key_number s = read_number 10 (filter is_digit s)"

definition key_spaces :: "string \<Rightarrow> nat" where
  "key_spaces s = length (filter (\<lambda>c. c = CHR '' '') s)"

definition big_endian :: "nat \<Rightarrow> string" where
  "big_endian n = map (\<lambda>i. char_of (n div 256 ^ i mod 256)) [3, 2, 1, 0]"

lemma schar_zero: "schar (CHR ''0'') = 48"
  by (simp add: schar_def uchar_def)

lemma schar_digit: "schar (CHR ''0'') \<le> schar c \<and> schar c \<le> schar (CHR ''9'') \<longleftrightarrow> is_digit c"
proof -
  have nine: "schar (CHR ''9'') = 57" by (simp add: schar_def uchar_def)
  have u: "uchar c < 256" by simp
  show ?thesis
  proof (cases "uchar c < 128")
    case True
    then show ?thesis by (auto simp: schar_def [of c] schar_zero nine is_digit_def)
  next
    case False
    with u have "int (uchar c) - 256 < 48" by linarith
    with False show ?thesis by (simp add: schar_def [of c] schar_zero nine is_digit_def)
  qed
qed

lemma scan_key_numbers:
  "CHR 0x00 \<notin> set s \<Longrightarrow> scan_key s (of_nat m) (of_nat a) =
     (of_nat (foldl (\<lambda>n c. n * 10 + digit_value c) m (filter is_digit s)),
      of_nat (a + key_spaces s))"
proof (induction s arbitrary: m a)
  case (Cons c s)
  have nz: "c \<noteq> CHR 0x00" using Cons.prems by auto
  consider "c = CHR '' ''" | "is_digit c" "c \<noteq> CHR '' ''" | "c \<noteq> CHR '' ''" "\<not> is_digit c" by blast
  then show ?case
  proof cases
    case 1
    then have "\<not> is_digit c" by (simp add: is_digit_def uchar_def)
    with 1 Cons.IH [of m "a + 1"] Cons.prems show ?thesis
      by (simp add: key_spaces_def schar_digit algebra_simps)
  next
    case 2
    then have "schar c - 48 = int (digit_value c)"
      by (auto simp: is_digit_def schar_def digit_value_def)
    then have "of_nat m * 10 + word_of_int (schar c - schar (CHR ''0'')) =
        (of_nat (m * 10 + digit_value c) :: 64 word)"
      by (simp add: schar_zero)
    with 2 Cons.IH [of "m * 10 + digit_value c" a] Cons.prems show ?thesis
      by (simp add: key_spaces_def schar_digit [unfolded schar_zero] schar_zero nz)
  next
    case 3
    with Cons.IH [of m a] Cons.prems show ?thesis
      by (simp add: key_spaces_def schar_digit [unfolded schar_zero] schar_zero nz)
  qed
qed (simp add: key_spaces_def)

lemma digit_256: "a < 256 \<Longrightarrow> (a + 256 * m) mod 256 = a \<and> (a + 256 * m) div 256 = (m::nat)"
  by simp

lemma byte_at_swap:
  "byte_at (byte_swap v) 0 = byte_at v 3" "byte_at (byte_swap v) 1 = byte_at v 2"
  "byte_at (byte_swap v) 2 = byte_at v 1" "byte_at (byte_swap v) 3 = byte_at v 0"
proof -
  have b: "byte_at v i < 256" for i by (simp add: byte_at_def)
  define m1 where "m1 = byte_at v 1 + 256 * byte_at v 0"
  define m2 where "m2 = byte_at v 2 + 256 * m1"
  define n where "n = byte_at v 3 + 256 * m2"
  have n: "n < 2 ^ 32"
    using b [of 0] b [of 1] b [of 2] b [of 3] by (simp add: n_def m1_def m2_def)
  have "byte_swap v = word_of_nat n"
    by (simp add: byte_swap_def n_def m1_def m2_def algebra_simps)
  then have u: "unat (byte_swap v) = n"
    using n by (simp add: unat_of_nat take_bit_eq_mod)
  have d: "n mod 256 = byte_at v 3" "n div 256 = m2" "m2 mod 256 = byte_at v 2" "m2 div 256 = m1"
      "m1 mod 256 = byte_at v 1" "m1 div 256 = byte_at v 0"
    using digit_256 [OF b [of 3], of m2] digit_256 [OF b [of 2], of m1]
      digit_256 [OF b [of 1], of "byte_at v 0"] by (simp_all only: n_def m1_def m2_def)
  then have d2: "n div 256 ^ 2 = m1" "n div 256 ^ 3 = byte_at v 0"
    by (simp_all only: power2_eq_square power3_eq_cube div_mult2_eq)
  show "byte_at (byte_swap v) 0 = byte_at v 3" "byte_at (byte_swap v) 1 = byte_at v 2"
    "byte_at (byte_swap v) 2 = byte_at v 1" "byte_at (byte_swap v) 3 = byte_at v 0"
    unfolding byte_at_def [of "byte_swap v"] u using b [of 0]
    by (simp_all only: d d2 power_0 power_one_right div_by_1 mod_less)
qed

lemma memory_swap: "memory_bytes (byte_swap v) = big_endian (unat v)"
  unfolding memory_bytes_def big_endian_def
  by (simp only: list.map byte_at_swap byte_at_def [of v])

lemma key_quotient:
  assumes "n < 2 ^ 63" "a < 2 ^ 31" "n div a < 2 ^ 32"
  shows "unat (word_of_int (sint (of_nat n :: 64 word) sdiv sint (of_nat a :: 32 word)) :: 32 word) =
    n div a"
proof -
  have "sint (of_nat n :: 64 word) = int n"
    using assms(1) by (simp add: signed_of_nat signed_take_bit_int_eq_self)
  moreover have "sint (of_nat a :: 32 word) = int a"
    using assms(2) by (simp add: signed_of_nat signed_take_bit_int_eq_self)
  moreover have "int n sdiv int a = int (n div a)"
    by (cases "n = 0"; cases "a = 0"; simp add: signed_divide_int_def zdiv_int)
  ultimately show ?thesis
    using assms(3) by (simp add: unat_of_nat take_bit_eq_mod)
qed

text \<open>C36. The hash of the old handshake is taken over the number the protocol asks for: for a
  key without zero bytes that has at least one space, the bytes that enter the digest are the
  quotient of the key's number and its number of spaces in network order, as long as the number
  fits 63 bits and the quotient 32.\<close>

theorem key_value_network_order:
  "CHR 0x00 \<notin> set s \<Longrightarrow> 0 < key_spaces s \<Longrightarrow> key_spaces s < 2 ^ 31 \<Longrightarrow> key_number s < 2 ^ 63 \<Longrightarrow>
   key_number s div key_spaces s < 2 ^ 32 \<Longrightarrow>
   map_sum id memory_bytes (get_websocket_key_value s key) =
     Inr (big_endian (key_number s div key_spaces s))"
proof -
  assume h: "CHR 0x00 \<notin> set s" "0 < key_spaces s" "key_spaces s < 2 ^ 31" "key_number s < 2 ^ 63"
    "key_number s div key_spaces s < 2 ^ 32"
  have scan: "scan_key s 0 0 = (of_nat (key_number s), of_nat (key_spaces s))"
    using scan_key_numbers [OF h(1), of 0 0] by (simp add: key_number_def read_number_def)
  have "unat (of_nat (key_spaces s) :: 32 word) = key_spaces s"
    using h(3) by (simp add: unat_of_nat take_bit_eq_mod)
  then have "(of_nat (key_spaces s) :: 32 word) \<noteq> 0" using h(2) by auto
  then show ?thesis
    using key_quotient [OF h(4,3,5)]
    by (simp add: get_websocket_key_value_def scan memory_swap)
qed

theorem key_value_network_order_witness:
  "map_sum id memory_bytes (get_websocket_key_value ''4 @1  46546xW%0l 1 5'' []) =
     Inr (big_endian (4146546015 div 5))"
proof -
  let ?s = "''4 @1  46546xW%0l 1 5''"
  have n: "key_number ?s = 4146546015" "key_spaces ?s = 5"
    by (simp_all add: key_number_def key_spaces_def read_number_def is_digit_def digit_value_def uchar_def)
  then have "map_sum id memory_bytes (get_websocket_key_value ?s []) =
      Inr (big_endian (key_number ?s div key_spaces ?s))"
    by (intro key_value_network_order) simp_all
  then show ?thesis by (simp only: n)
qed

section \<open>The handshake\<close>

lemmas ws_parse_defs = ws_parse_def ws_parse_upgrade_def ws_parse_data_def ws_parse_sec_key_def
  ws_parse_sec_keys_def websocket_info_init_def

lemma ws_scheme_not_Nil:
  "ws_str_secure_scheme_delimiter \<noteq> []" "ws_str_scheme_delimiter \<noteq> []"
  by (simp_all add: ws_str_secure_scheme_delimiter_def ws_str_scheme_delimiter_def)

lemma ws_parse_upgrade_cases:
  assumes "ws_parse_upgrade req websocket_info_init = (r, ws)"
  shows "(\<exists>e. r = Inl e) \<and> ws = websocket_info_init \<or> r = Inr False \<and> ws = websocket_info_init \<or>
    r = Inr True \<and> ws_location ws = [] \<and> ws_sec_data ws = [] \<and> \<not> ws_is_empty ws"
  using assms by (auto simp: ws_parse_upgrade_def websocket_info_init_def Let_def split: if_splits)

lemma ws_parse_sec_key_keeps:
  assumes "ws_parse_sec_key cr req ws = (r, ws')"
  shows "ws_location ws' = ws_location ws" "ws_is_empty ws' = ws_is_empty ws"
    "ws_proto_newsec ws' = ws_proto_newsec ws" "r = Inr () \<Longrightarrow> length (ws_sec_data ws') = 28"
  using assms
  by (auto simp: ws_parse_sec_key_def Let_def base64_length_def sha_output_size_def
      split: if_splits option.splits)

lemma ws_parse_sec_keys_keeps:
  assumes "ws_parse_sec_keys cr req ws = (r, ws')"
  shows "ws_location ws' = ws_location ws" "ws_is_empty ws' = ws_is_empty ws"
    "ws_proto_newsec ws' = ws_proto_newsec ws"
  using assms by (auto simp: ws_parse_sec_keys_def Let_def split: if_splits sum.splits)

lemma ws_parse_data_cases:
  assumes "ws_parse_data cr req secure ws = (r, ws')"
  shows "(\<exists>e. r = Inl e) \<and> ws_location ws' = ws_location ws \<and> ws_is_empty ws' = ws_is_empty ws \<or>
    r = Inr True \<and> ws_location ws' \<noteq> [] \<and> ws_is_empty ws' = ws_is_empty ws \<and>
    (ws_proto_newsec ws' \<longrightarrow> length (ws_sec_data ws') = 28)"
proof -
  obtain r1 ws1 where k: "(if ws_proto_newsec ws then ws_parse_sec_key cr req ws
      else ws_parse_sec_keys cr req ws) = (r1, ws1)" by fastforce
  have keeps: "ws_location ws1 = ws_location ws" "ws_is_empty ws1 = ws_is_empty ws"
      "ws_proto_newsec ws1 = ws_proto_newsec ws"
      "ws_proto_newsec ws \<Longrightarrow> r1 = Inr () \<Longrightarrow> length (ws_sec_data ws1) = 28"
    using k ws_parse_sec_key_keeps [of cr req ws] ws_parse_sec_keys_keeps [of cr req ws]
    by (auto split: if_splits)
  show ?thesis
    using assms keeps ws_scheme_not_Nil
    by (auto simp: ws_parse_data_def Let_def k split: if_splits sum.splits)
qed

text \<open>C32. The handshake leaves the connection in one of three states: not a WebSocket request
  (nothing is recorded), refused with an exception (no WebSocket headers can be printed later),
  or accepted, and then the headers can be printed, and the answer of the new protocol has its
  28 characters of accept data, as a comment in \<open>write_headers\<close> asserts.\<close>

theorem ws_parse_outcome:
  "ws_parse cr req secure websocket_info_init = (r, ws) \<Longrightarrow>
   (r = Inr False \<and> ws = websocket_info_init \<or>
    (\<exists>e. r = Inl e) \<and> \<not> ws_valid ws \<and> ws_write_headers ws = Inl (Logic_error ''can not print websocket headers'') \<or>
    r = Inr True \<and> ws_valid ws \<and> \<not> ws_empty ws \<and> (\<exists>s. ws_write_headers ws = Inr s) \<and>
      (ws_proto_newsec ws \<longrightarrow> length (ws_sec_data ws) = 28))"
proof -
  assume parse: "ws_parse cr req secure websocket_info_init = (r, ws)"
  obtain r0 ws0 where up: "ws_parse_upgrade req websocket_info_init = (r0, ws0)" by fastforce
  have init: "ws_location websocket_info_init = []" by (simp add: websocket_info_init_def)
  show ?thesis
  proof (cases "r0 = Inr True")
    case True
    then have "ws_parse_data cr req secure ws0 = (r, ws)"
      using parse by (simp add: ws_parse_def up)
    moreover have "ws_location ws0 = []" "\<not> ws_is_empty ws0"
      using ws_parse_upgrade_cases [OF up] True by auto
    ultimately show ?thesis
      using ws_parse_data_cases [of cr req secure ws0 r ws]
      by (auto simp: ws_valid_def ws_empty_def ws_write_headers_def)
  next
    case False
    then have "r = r0" "ws = ws0"
      using parse by (auto simp: ws_parse_def up split: sum.splits bool.splits)
    then show ?thesis
      using ws_parse_upgrade_cases [OF up] False init
      by (auto simp: ws_valid_def ws_write_headers_def)
  qed
qed

text \<open>A request of RFC 6455 (its header fields, looked up without regard to case).\<close>

definition rfc6455_request :: "request_impl \<Rightarrow> bool" where
  "rfc6455_request req \<longleftrightarrow> header req ''Connection'' = ''Upgrade'' \<and> header req ''Upgrade'' = ''websocket'' \<and>
     header req ''Sec-WebSocket-Version'' = ''13'' \<and> header req ''Host'' \<noteq> [] \<and>
     header req ''Sec-WebSocket-Key'' \<noteq> []"


definition sample_crypto :: crypto where
  "sample_crypto = \<lparr>sha1 = (\<lambda>s. take 20 s), md5 = (\<lambda>s. take 16 s), bio_f_base64 = True,
     bio_s_mem = True, bio_base64 = (\<lambda>s. Some (s @ ''01234567'' @ [CHR 0x0A]))\<rparr>"

definition sample_request :: request_impl where
  "sample_request = request_empty\<lparr>rq_uri := ''/chat'', rq_headers :=
     [(''connection'', ''Upgrade''), (''host'', ''h''), (''origin'', ''o''),
      (''sec-websocket-key'', ''dGhlIHNhbXBsZSBub25jZQ==''), (''sec-websocket-version'', ''13''),
      (''upgrade'', ''websocket''), (''websocket-protocol'', ''a,b'')]\<rparr>"

theorem ws_parse_outcome_witness:
  "\<not> ws_valid (snd (ws_parse (sample_crypto\<lparr>bio_s_mem := False\<rparr>) sample_request True websocket_info_init))"
proof -
  let ?p = "ws_parse (sample_crypto\<lparr>bio_s_mem := False\<rparr>) sample_request True websocket_info_init"
  have "?p = (fst ?p, snd ?p)" by simp
  note outcome = ws_parse_outcome [OF this]
  moreover have "fst ?p = Inl Bad_alloc" by code_simp
  ultimately show ?thesis by auto
qed


end
