(* ===== verification/Connection_Base.thy ===== *)
theory Connection_Base
  imports Channels Websocket
begin

text \<open>
  What a connection writes (\<open>include/details/connection_base.hpp\<close>,
  \<open>library/connection_base.cpp\<close>): responses, messages in chunks or WebSocket frames, errors
  and policy data. Printing returns the characters appended to the buffer and whether anything is
  to be sent. The name of the package, which the build configures, and the clock are arguments.
  After an exception the connection is closed and its buffer is not used any more.
\<close>

section \<open>The state and its operations\<close>

record connection_base =
  cb_fmt_data :: "formatters_data option"
  cb_ws_info :: websocket_info
  cb_name :: string
  cb_headers :: "(string \<times> string) list option"

definition connection_base_init :: connection_base where
  "connection_base_init = \<lparr>cb_fmt_data = None, cb_ws_info = websocket_info_init, cb_name = [],
     cb_headers = None\<rparr>"

definition set_name :: "string \<Rightarrow> connection_base \<Rightarrow> connection_base" where
  "set_name name cb = cb\<lparr>cb_name := name\<rparr>"

definition base_init :: "crypto \<Rightarrow> bool \<Rightarrow> request_impl \<Rightarrow> connection_base \<Rightarrow>
    request_impl result \<times> connection_base" where
  "base_init cr secure req cb =
     (case ws_parse cr req secure (cb_ws_info cb) of
        (Inl e, ws) \<Rightarrow> (Inl e, cb\<lparr>cb_ws_info := ws\<rparr>)
      | (Inr ok, ws) \<Rightarrow> (Inr (if ok then set_websocket req else req), cb\<lparr>cb_ws_info := ws\<rparr>))"

definition init_formatters :: "formatters_factory \<Rightarrow> request_impl \<Rightarrow> response_impl \<Rightarrow> connection_base \<Rightarrow>
    connection_base result" where
  "init_formatters factory req resp cb =
     bind_result (create_formatters_data factory req resp) (\<lambda>d. Inr (cb\<lparr>cb_fmt_data := d\<rparr>))"

definition handle_response :: "response_impl \<Rightarrow> connection_base \<Rightarrow> connection_base" where
  "handle_response resp cb = cb\<lparr>cb_headers := Some (rs_headers resp)\<rparr>"

definition allow_message :: "message \<Rightarrow> message_filter option \<Rightarrow> connection_base \<Rightarrow> bool result" where
  "allow_message msg flt cb =
     (case cb_fmt_data cb of
        None \<Rightarrow> (case flt of None \<Rightarrow> Inr True | Some f \<Rightarrow> f msg [])
      | Some d \<Rightarrow> fmt_allow_message d msg flt)"

definition update_channels_stat :: "bool \<Rightarrow> connection_base \<Rightarrow> channels_stat \<Rightarrow> channels_stat result" where
  "update_channels_stat add cb st =
     (case cb_fmt_data cb of None \<Rightarrow> Inr st | Some d \<Rightarrow> fmt_update_channels_stat d add st)"

definition print_message_content :: "string \<Rightarrow> connection_base \<Rightarrow> string \<times> bool" where
  "print_message_content content cb =
     (if content = [] then ([], False)
      else if \<not> ws_empty (cb_ws_info cb) then (ws_write_message (cb_ws_info cb) content, True)
      else (show_number 16 (length content) @ crlf @ content @ crlf, True))"

definition print_message :: "message \<Rightarrow> connection_base \<Rightarrow> ((string \<times> bool) \<times> connection_base) result" where
  "print_message msg cb =
     bind_result (case cb_fmt_data cb of None \<Rightarrow> Inr None | Some d \<Rightarrow> find_formatter d msg) (\<lambda>fmt.
     bind_result (case fmt of None \<Rightarrow> Inr (msg_content msg) | Some f \<Rightarrow> f (msg_content msg)) (\<lambda>content.
       (case print_message_content content cb of
          (_, False) \<Rightarrow> Inr (([], False), cb)
        | (out, True) \<Rightarrow>
            (case cb_fmt_data cb of
               None \<Rightarrow> Inr ((out, True), cb)
             | Some d \<Rightarrow> bind_result (fmt_update msg d)
                 (\<lambda>d'. Inr ((out, True), cb\<lparr>cb_fmt_data := Some d'\<rparr>))))))"

definition print_policy_data :: "string \<Rightarrow> string \<times> bool" where
  "print_policy_data data = (if data = [] then ([], False) else (data @ [CHR 0x00], True))"

text \<open>A header name or value is handed on as a C string.\<close>

definition c_str :: "string \<Rightarrow> string" where
  "c_str s = takeWhile (\<lambda>c. c \<noteq> CHR 0x00) s"

definition header_pair_line :: "string \<Rightarrow> string \<Rightarrow> string" where
  "header_pair_line name value = http_header_line \<lparr>hh_name = c_str name, hh_value = c_str value\<rparr>"

definition print_error :: "string \<Rightarrow> ptime \<Rightarrow> nat \<Rightarrow> (string \<times> bool) result" where
  "print_error package now code =
     bind_result (http_date_line now) (\<lambda>date.
       Inr (http_status_line code @ date @ http_header_line (header_server package) @
         http_header_line header_connection_close @
         header_pair_line ''Content-Type'' ''text/plain; charset=utf-8'' @ crlf, True))"

definition print_common_headers ::
    "string \<Rightarrow> ptime \<Rightarrow> string \<Rightarrow> connection_base \<Rightarrow> string result" where
  "print_common_headers package now type cb =
     bind_result (http_date_line now) (\<lambda>date.
       Inr (date @ http_header_line (header_server package) @ header_pair_line ''Content-Type'' type @
         (case cb_headers cb of
            None \<Rightarrow> []
          | Some hs \<Rightarrow> concat (map (\<lambda>(name, value). header_pair_line name value) hs))))"

definition print_headers :: "string \<Rightarrow> ptime \<Rightarrow> string \<Rightarrow> connection_base \<Rightarrow> (string \<times> bool) result" where
  "print_headers package now type cb =
     (let ws = cb_ws_info cb; is_websocket = (\<not> ws_empty ws) in
      if is_websocket \<and> \<not> ws_valid ws then Inr ([], False)
      else bind_result
        (if is_websocket then ws_write_headers ws
         else Inr (http_status_line 200 @ http_header_line header_connection_close @
           header_pair_line ''Transfer-Encoding'' ''chunked'')) (\<lambda>start.
        bind_result (print_common_headers package now type cb) (\<lambda>common.
        bind_result (if is_websocket then ws_write_body ws else Inr []) (\<lambda>body.
          Inr (start @ common @ crlf @ body, True)))))"

definition print_static_content ::
    "string \<Rightarrow> ptime \<Rightarrow> string \<Rightarrow> string \<Rightarrow> connection_base \<Rightarrow> (string \<times> bool) result" where
  "print_static_content package now type content cb =
     (if \<not> ws_empty (cb_ws_info cb) then Inr ([], False)
      else bind_result (print_common_headers package now type cb) (\<lambda>common.
        Inr (http_status_line 200 @ http_header_line header_connection_close @ common @
          ''Content-Length: '' @ show_nat (length content) @ crlf @ crlf @ content, True)))"

definition print_last_message :: "connection_base \<Rightarrow> string \<times> bool" where
  "print_last_message cb =
     (if \<not> ws_empty (cb_ws_info cb)
      then (case ws_write_close (cb_ws_info cb) of (ok, out) \<Rightarrow> (out, ok))
      else (''0'' @ crlf, True))"

section \<open>A reader of the chunks\<close>

text \<open>A reference reader of the chunked transfer coding: the complete chunks, and whether the
  body has ended, which takes a chunk of size zero and an empty line behind it (there are no
  trailers).\<close>

function chunk_read :: "string \<Rightarrow> string list \<times> bool" where
  "chunk_read s =
     (let line = takeWhile is_not_line_end s; rest = dropWhile is_not_line_end s;
          n = read_number 16 line; data = drop 2 rest in
      if line = [] \<or> take 2 rest \<noteq> crlf then ([], False)
      else if n = 0 then ([], take 2 data = crlf)
      else if length data < n + 2 \<or> take 2 (drop n data) \<noteq> crlf then ([], False)
      else (case chunk_read (drop (n + 2) data) of (chunks, ended) \<Rightarrow> (take n data # chunks, ended)))"
  by pat_completeness auto
termination
proof (relation "measure length", goal_cases)
  case (2 s line rest n data)
  have "length rest \<le> length s" using 2 by (simp add: length_dropWhile_le)
  moreover have "0 < length s" using 2 by auto
  ultimately have "length rest - (2 + (n + 2)) < length s" by linarith
  then show ?case using 2(4) by simp
qed simp

declare chunk_read.simps [simp del]

lemma hex_no_line_end: "\<forall>c\<in>set (show_number 16 n). is_not_line_end c"
  using show_number_chars [of 16 _ n]
  by (fastforce simp: is_not_line_end_def is_line_end_def uchar_def)

lemma chunk_read_line:
  assumes "\<forall>c\<in>set line. is_not_line_end c"
  shows "takeWhile is_not_line_end (line @ crlf @ rest) = line"
    "dropWhile is_not_line_end (line @ crlf @ rest) = crlf @ rest"
proof -
  have "\<not> is_not_line_end (CHR 0x0D)" by (simp add: is_not_line_end_def is_line_end_def)
  note stop = takeWhile_stop [OF assms this, of "CHR 0x0A # rest"]
    dropWhile_stop [OF assms this, of "CHR 0x0A # rest"]
  then show "takeWhile is_not_line_end (line @ crlf @ rest) = line"
    "dropWhile is_not_line_end (line @ crlf @ rest) = crlf @ rest"
    by (simp_all add: crlf_def)
qed

lemma length_crlf [simp]: "length crlf = 2"
  by (simp add: crlf_def)

lemma chunk_read_chunk:
  assumes "content \<noteq> []"
  shows "chunk_read (show_number 16 (length content) @ crlf @ content @ crlf @ rest) =
    (content # fst (chunk_read rest), snd (chunk_read rest))"
proof -
  have "drop (length content + 2) (content @ crlf @ rest) = rest" by (simp add: crlf_def)
  moreover have "read_number 16 (show_number 16 (length content)) = length content"
    by (simp add: read_show_number)
  ultimately show ?thesis
    using assms chunk_read_line [OF hex_no_line_end, of "length content" "content @ crlf @ rest"]
    by (subst chunk_read.simps) (simp add: Let_def split: prod.split)
qed

text \<open>A client of a streaming response gets the messages: on a connection that is not a
  WebSocket, the non-empty messages printed one after the other are read back from the chunks
  exactly and in order, with nothing lost at the end.\<close>

theorem chunks_roundtrip:
  "ws_empty (cb_ws_info cb) \<Longrightarrow> \<forall>m\<in>set msgs. m \<noteq> [] \<Longrightarrow>
   chunk_read (concat (map (\<lambda>m. fst (print_message_content m cb)) msgs) @ rest) =
     (msgs @ fst (chunk_read rest), snd (chunk_read rest))"
proof (induction msgs)
  case (Cons m msgs)
  then have "fst (print_message_content m cb) = show_number 16 (length m) @ crlf @ m @ crlf"
    by (simp add: print_message_content_def)
  with Cons show ?case by (simp add: chunk_read_chunk)
qed simp

theorem chunks_roundtrip_witness:
  "fst (chunk_read (concat (map (\<lambda>m. fst (print_message_content m connection_base_init))
     [''hello'', replicate 20 (CHR ''x'')]) @ [])) = [''hello'', replicate 20 (CHR ''x'')]"
proof -
  have h: "ws_empty (cb_ws_info connection_base_init)" "\<forall>m\<in>set [''hello'', replicate 20 (CHR ''x'')]. m \<noteq> []"
    by (simp_all add: ws_empty_def connection_base_init_def websocket_info_init_def numeral_eq_Suc)
  have "chunk_read [] = ([], False)" by (simp add: chunk_read.simps)
  then show ?thesis by (simp only: chunks_roundtrip [OF h]) simp
qed

text \<open>The body of a streaming response never ends properly: the last thing printed is the
  chunk of size zero without the empty line behind it, so after all messages a reader of the
  chunks still waits; with two more characters it would be done.\<close>

theorem last_message_not_terminated:
  "ws_empty (cb_ws_info cb) \<Longrightarrow> \<forall>m\<in>set msgs. m \<noteq> [] \<Longrightarrow>
   out = concat (map (\<lambda>m. fst (print_message_content m cb)) msgs) @ fst (print_last_message cb) \<Longrightarrow>
   chunk_read out = (msgs, False) \<and> chunk_read (out @ crlf) = (msgs, True)"
proof -
  assume h: "ws_empty (cb_ws_info cb)" "\<forall>m\<in>set msgs. m \<noteq> []"
    and out: "out = concat (map (\<lambda>m. fst (print_message_content m cb)) msgs) @ fst (print_last_message cb)"
  have read: "chunk_read (concat (map (\<lambda>m. fst (print_message_content m cb)) msgs) @ rest) =
      (msgs @ fst (chunk_read rest), snd (chunk_read rest))" for rest
    using h(2)
  proof (induction msgs)
    case (Cons m msgs)
    then have "fst (print_message_content m cb) = show_number 16 (length m) @ crlf @ m @ crlf"
      using h(1) by (simp add: print_message_content_def)
    with Cons show ?case by (simp add: chunk_read_chunk)
  qed simp
  have "\<forall>c\<in>set ''0''. is_not_line_end c" by (simp add: is_not_line_end_def is_line_end_def)
  note line = chunk_read_line [OF this]
  have "read_number 16 ''0'' = 0" by (simp add: read_number_def digit_value_def uchar_def)
  then have "chunk_read (''0'' @ crlf @ rest) = ([], take 2 rest = crlf)" for rest
    using line [of rest] by (subst chunk_read.simps) (simp add: Let_def)
  then have "chunk_read (''0'' @ crlf @ []) = ([], False)" "chunk_read (''0'' @ crlf @ crlf) = ([], True)"
    by (simp_all add: crlf_def)
  then show ?thesis using h(1) by (simp add: out print_last_message_def read)
qed

theorem last_message_not_terminated_witness:
  "chunk_read (concat (map (\<lambda>m. fst (print_message_content m connection_base_init)) [''hello'']) @
     fst (print_last_message connection_base_init)) = ([''hello''], False)"
proof -
  have h: "ws_empty (cb_ws_info connection_base_init)" "\<forall>m\<in>set [''hello'']. m \<noteq> []"
    by (simp_all add: ws_empty_def connection_base_init_def websocket_info_init_def)
  show ?thesis using last_message_not_terminated [OF h refl] by blast
qed

section \<open>Reading the head of a response\<close>

text \<open>A reference reader of the head of a response: the lines up to the first empty one, and
  what follows.\<close>

function read_head :: "string \<Rightarrow> (string list \<times> string) option" where
  "read_head s =
     (let line = takeWhile is_not_line_end s; rest = dropWhile is_not_line_end s in
      if take 2 rest \<noteq> crlf then None
      else if line = [] then Some ([], drop 2 rest)
      else map_option (\<lambda>(ls, body). (line # ls, body)) (read_head (drop 2 rest)))"
  by pat_completeness auto
termination
proof (relation "measure length", goal_cases)
  case (2 s line rest)
  have "length rest \<le> length s" using 2 by (simp add: length_dropWhile_le)
  moreover have "0 < length s" using 2(1,4) by auto
  ultimately have "length rest - 2 < length s" by linarith
  then show ?case by simp
qed simp

declare read_head.simps [simp del]

definition no_ends :: "string \<Rightarrow> bool" where
  "no_ends s \<longleftrightarrow> (\<forall>c\<in>set s. is_not_line_end c)"

definition as_lines :: "string list \<Rightarrow> string" where
  "as_lines ls = concat (map (\<lambda>l. l @ crlf) ls)"

lemma as_lines_simps [simp]: "as_lines [] = []" "as_lines (l # ls) = l @ crlf @ as_lines ls"
  "as_lines (ls @ ls') = as_lines ls @ as_lines ls'"
  by (simp_all add: as_lines_def)

lemma no_ends_append [simp]: "no_ends (a @ b) \<longleftrightarrow> no_ends a \<and> no_ends b" "no_ends []"
  by (auto simp: no_ends_def)

lemma no_ends_number: "no_ends (pad_zero w (show_nat n))"
  using show_number_chars [of 10 _ n]
  by (fastforce simp: no_ends_def pad_zero_def is_not_line_end_def is_line_end_def uchar_def)

lemma no_ends_show_nat: "no_ends (show_nat n)"
  using no_ends_number [of 0 n] by (simp add: pad_zero_def)

lemma no_ends_c_str: "no_ends s \<Longrightarrow> no_ends (c_str s)"
  by (auto simp: no_ends_def c_str_def dest: set_takeWhileD)

lemma read_head_lines:
  "\<forall>l\<in>set ls. l \<noteq> [] \<and> no_ends l \<Longrightarrow> read_head (as_lines ls @ crlf @ body) = Some (ls, body)"
proof (induction ls)
  case Nil
  have "\<forall>c\<in>set []. is_not_line_end c" by simp
  from chunk_read_line [OF this, of body] show ?case
    by (subst read_head.simps) (simp add: Let_def)
next
  case (Cons l ls)
  then have "\<forall>c\<in>set l. is_not_line_end c" by (simp add: no_ends_def)
  from chunk_read_line [OF this, of "as_lines ls @ crlf @ body"] Cons show ?case
    by (subst read_head.simps) (simp add: Let_def)
qed

lemma date_line_form:
  assumes "http_date_line now = Inr d"
  obtains l where "d = l @ crlf" "l \<noteq> []" "no_ends l"
proof -
  from assms obtain dw mn where names: "array_at day_of_week_names (int (pt_weekday now) - 1) = Inr dw"
      "array_at month_names (int (pt_month now) - 1) = Inr mn"
    by (auto simp: http_date_line_def split: sum.splits)
  have "\<forall>x\<in>set day_of_week_names. no_ends x" "\<forall>x\<in>set month_names. no_ends x"
    by code_simp+
  then have n: "no_ends dw" "no_ends mn"
    using names by (auto simp: array_at_def split: if_splits)
  have lits: "no_ends ''Date: ''" "no_ends '', ''" "no_ends '' ''" "no_ends '':''" "no_ends '' GMT''"
    by code_simp+
  from assms names have "d = (''Date: '' @ dw @ '', '' @ pad_zero 2 (show_nat (pt_day now)) @ '' '' @ mn @
      '' '' @ pad_zero 4 (show_nat (pt_year now)) @ '' '' @ pad_zero 2 (show_nat (pt_hours now)) @ '':'' @
      pad_zero 2 (show_nat (pt_minutes now)) @ '':'' @ pad_zero 2 (show_nat (pt_seconds now)) @ '' GMT'') @ crlf"
    by (simp add: http_date_line_def)
  then show ?thesis
    by (rule that) (simp_all only: no_ends_append n lits no_ends_number, simp_all)
qed

definition header_line :: "string \<Rightarrow> string \<Rightarrow> string" where
  "header_line name value = name @ '': '' @ value"

lemma header_line_props: "no_ends name \<Longrightarrow> no_ends value \<Longrightarrow>
  header_line name value \<noteq> [] \<and> no_ends (header_line name value)"
proof -
  have "no_ends '': ''" by code_simp
  then show "no_ends name \<Longrightarrow> no_ends value \<Longrightarrow> header_line name value \<noteq> [] \<and> no_ends (header_line name value)"
    by (simp only: header_line_def no_ends_append) simp
qed

lemma header_pairs_lines:
  "concat (map (\<lambda>(name, value). header_pair_line name value) hs) =
     as_lines (map (\<lambda>(name, value). header_line (c_str name) (c_str value)) hs)"
  by (induction hs) (auto simp: header_pair_line_def http_header_line_def header_line_def)

text \<open>A page reaches the client as it is: when the headers set by the application, the content
  type and the package name have no line ends, the printed answer is read back as the lines of its
  head, starting with the status line, ending with the length of the content and containing every
  header, and behind the head exactly the content.\<close>

theorem static_content_read_back:
  "print_static_content package now type content cb = Inr (out, True) \<Longrightarrow> no_ends package \<Longrightarrow> no_ends type \<Longrightarrow>
   cb_headers cb = Some hs \<Longrightarrow> \<forall>(name, value)\<in>set hs. no_ends name \<and> no_ends value \<Longrightarrow>
   \<exists>lines. read_head out = Some (lines, content) \<and> hd lines = ''HTTP/1.1 200 OK'' \<and>
     last lines = ''Content-Length: '' @ show_nat (length content) \<and>
     (\<forall>(name, value)\<in>set hs. c_str name @ '': '' @ c_str value \<in> set lines)"
proof -
  assume h: "print_static_content package now type content cb = Inr (out, True)" "no_ends package"
    "no_ends type" "cb_headers cb = Some hs" "\<forall>(name, value)\<in>set hs. no_ends name \<and> no_ends value"
  define hls where "hls = map (\<lambda>(name, value). header_line (c_str name) (c_str value)) hs"
  from h(1) obtain d where d: "http_date_line now = Inr d"
    by (auto simp: print_static_content_def print_common_headers_def bind_result_eq_Inr split: if_splits)
  obtain dl where dl: "d = dl @ crlf" "dl \<noteq> []" "no_ends dl" using date_line_form [OF d] .
  define lines where "lines = [''HTTP/1.1 200 OK'', ''Connection: close'', dl, header_line ''Server'' package,
    header_line ''Content-Type'' (c_str type)] @ hls @ [header_line ''Content-Length'' (show_nat (length content))]"
  have status: "http_status_line 200 = ''HTTP/1.1 200 OK'' @ crlf"
    by code_simp
  have out: "out = as_lines lines @ crlf @ content"
    using h(1,4) d dl(1)
    by (auto simp: print_static_content_def print_common_headers_def status http_header_line_def
        header_connection_close_def header_server_def header_pairs_lines hls_def lines_def header_line_def
        header_pair_line_def c_str_def split: if_splits)
  have lits: "no_ends ''HTTP/1.1 200 OK''" "no_ends ''Connection: close''" "no_ends ''Server''"
    "no_ends ''Content-Type''" "no_ends ''Content-Length''" by code_simp+
  have "\<forall>l\<in>set hls. l \<noteq> [] \<and> no_ends l"
    using h(5) by (auto simp: hls_def no_ends_c_str header_line_props)
  then have "\<forall>l\<in>set lines. l \<noteq> [] \<and> no_ends l"
    using dl(2,3) lits h(2,3) header_line_props [OF lits(3) h(2)]
      header_line_props [OF lits(4) no_ends_c_str [OF h(3)]] header_line_props [OF lits(5) no_ends_show_nat]
    by (simp add: lines_def)
  note read = read_head_lines [OF this, of content, folded out]
  have "\<forall>(name, value)\<in>set hs. c_str name @ '': '' @ c_str value \<in> set lines"
    by (auto simp: lines_def hls_def header_line_def)
  with read show ?thesis
    by (intro exI [of _ lines]) (simp add: lines_def, simp add: header_line_def)
qed

theorem static_content_read_back_witness:
  "\<exists>out lines. print_static_content ''xiva'' \<lparr>pt_weekday = 1, pt_day = 29, pt_month = 11, pt_year = 2010,
      pt_hours = 12, pt_minutes = 5, pt_seconds = 9\<rparr> ''text/plain'' ''page''
      (connection_base_init\<lparr>cb_headers := Some [(''X'', ''1'')]\<rparr>) = Inr (out, True) \<and>
    read_head out = Some (lines, ''page'')"
proof -
  let ?now = "\<lparr>pt_weekday = 1, pt_day = 29, pt_month = 11, pt_year = 2010,
      pt_hours = 12, pt_minutes = 5, pt_seconds = 9\<rparr> :: ptime"
  let ?cb = "connection_base_init\<lparr>cb_headers := Some [(''X'', ''1'')]\<rparr>"
  have "\<exists>d. http_date_line ?now = Inr d"
    by (simp add: http_date_line_def array_at_def day_of_week_names_def month_names_def)
  then obtain out where out: "print_static_content ''xiva'' ?now ''text/plain'' ''page'' ?cb = Inr (out, True)"
    by (auto simp: print_static_content_def print_common_headers_def ws_empty_def connection_base_init_def
        websocket_info_init_def)
  have "no_ends ''xiva''" "no_ends ''text/plain''" "cb_headers ?cb = Some [(''X'', ''1'')]"
    "\<forall>(name, value)\<in>set [(''X'', ''1'')]. no_ends name \<and> no_ends value"
    by code_simp+
  from static_content_read_back [OF out this] out show ?thesis by blast
qed

end
