(* ===== verification/Queues.thy ===== *)
theory Queues
  imports Channels
begin

text \<open>
  The queues between the threads and the reference counts (\<open>include/details/threaded_queue.hpp\<close>,
  \<open>message_queue\<close>, \<open>include/xiva/shared.hpp\<close>, \<open>threaded_shared.hpp\<close>, \<open>resource.hpp\<close>).
  Every operation runs under the mutex of its object and is one atomic step. A call that would
  wait for the condition variable is \<open>None\<close>: it returns only after another step.

  The contract that both queues keep is the locale \<open>batch_queue\<close>: a producer appends while the
  queue is accepting, a consumer takes everything at once. Inside it nothing is lost, duplicated
  or reordered whatever the interleaving.
\<close>

section \<open>The queue between threads\<close>

record 'a threaded_queue =
  tq_finished :: bool
  tq_items :: "'a list"

definition queue_init :: "'a threaded_queue" where
  "queue_init = \<lparr>tq_finished = False, tq_items = []\<rparr>"

definition queue_pop :: "'a threaded_queue \<Rightarrow> ('a option \<times> 'a threaded_queue) option" where
  "queue_pop q =
     (if \<not> tq_finished q \<and> tq_items q = [] then None
      else if tq_finished q then Some (None, q)
      else Some (Some (hd (tq_items q)), q\<lparr>tq_items := tl (tq_items q)\<rparr>))"

definition queue_pop_all :: "'a threaded_queue \<Rightarrow> ('a list option \<times> 'a threaded_queue) option" where
  "queue_pop_all q =
     (if \<not> tq_finished q \<and> tq_items q = [] then None
      else if tq_finished q then Some (None, q)
      else Some (Some (tq_items q), q\<lparr>tq_items := []\<rparr>))"

definition queue_push :: "'a \<Rightarrow> 'a threaded_queue \<Rightarrow> bool \<times> 'a threaded_queue" where
  "queue_push item q =
     (if tq_finished q then (False, q) else (True, q\<lparr>tq_items := tq_items q @ [item]\<rparr>))"

definition queue_finish :: "'a threaded_queue \<Rightarrow> 'a threaded_queue" where
  "queue_finish q = q\<lparr>tq_finished := True\<rparr>"

definition queue_finished :: "'a threaded_queue \<Rightarrow> bool" where
  "queue_finished q = tq_finished q"

definition queue_swap_data :: "'a list \<Rightarrow> 'a threaded_queue \<Rightarrow> 'a list \<times> 'a threaded_queue" where
  "queue_swap_data data q = (tq_items q, q\<lparr>tq_items := data\<rparr>)"

section \<open>The queue of messages\<close>

datatype strand_job = Pop_by_name | Pop_by_id

text \<open>The two deques, whether messages are accepted, and the handlers posted to the strand.\<close>

record message_queue =
  mq_by_name :: "(string \<times> message) list"
  mq_by_id :: "(nat \<times> message) list"
  mq_accepting :: bool
  mq_posted :: "strand_job list"

definition message_queue_init :: message_queue where
  "message_queue_init = \<lparr>mq_by_name = [], mq_by_id = [], mq_accepting = True, mq_posted = []\<rparr>"

definition push_message_name :: "string \<times> message \<Rightarrow> message_queue \<Rightarrow> bool \<times> message_queue" where
  "push_message_name item q =
     (mq_accepting q, if mq_accepting q then q\<lparr>mq_by_name := mq_by_name q @ [item]\<rparr> else q)"

definition push_message_id :: "nat \<times> message \<Rightarrow> message_queue \<Rightarrow> bool \<times> message_queue" where
  "push_message_id item q =
     (mq_accepting q, if mq_accepting q then q\<lparr>mq_by_id := mq_by_id q @ [item]\<rparr> else q)"

definition message_queue_send_name :: "string \<Rightarrow> message \<Rightarrow> message_queue \<Rightarrow> message_queue" where
  "message_queue_send_name to m q =
     (case push_message_name (to, m) q of (ok, q') \<Rightarrow>
        if ok then q'\<lparr>mq_posted := mq_posted q' @ [Pop_by_name]\<rparr> else q')"

definition message_queue_send_id :: "nat \<Rightarrow> message \<Rightarrow> message_queue \<Rightarrow> message_queue" where
  "message_queue_send_id to m q =
     (case push_message_id (to, m) q of (ok, q') \<Rightarrow>
        if ok then q'\<lparr>mq_posted := mq_posted q' @ [Pop_by_id]\<rparr> else q')"

definition message_queue_finish :: "message_queue \<Rightarrow> message_queue" where
  "message_queue_finish q = q\<lparr>mq_accepting := False\<rparr>"

definition message_queue_active :: "message_queue \<Rightarrow> bool" where
  "message_queue_active q = mq_accepting q"

text \<open>The loop that hands the taken messages to the manager; an exception ends it.\<close>

fun deliver_loop :: "('to \<Rightarrow> message \<Rightarrow> 'm \<Rightarrow> unit result \<times> 'm) \<Rightarrow> ('to \<times> message) list \<Rightarrow> 'm \<Rightarrow>
    unit result \<times> 'm" where
  "deliver_loop send [] m = (Inr (), m)"
| "deliver_loop send ((to, msg) # l) m =
     (case send to msg m of (Inl e, m') \<Rightarrow> (Inl e, m') | (Inr _, m') \<Rightarrow> deliver_loop send l m')"

definition take_by_name :: "message_queue \<Rightarrow> (string \<times> message) list \<times> message_queue" where
  "take_by_name q = (mq_by_name q, q\<lparr>mq_by_name := []\<rparr>)"

definition take_by_id :: "message_queue \<Rightarrow> (nat \<times> message) list \<times> message_queue" where
  "take_by_id q = (mq_by_id q, q\<lparr>mq_by_id := []\<rparr>)"

definition pop_by_name :: "(string \<Rightarrow> message \<Rightarrow> 'm \<Rightarrow> unit result \<times> 'm) \<Rightarrow> message_queue \<Rightarrow> 'm \<Rightarrow>
    message_queue \<times> 'm" where
  "pop_by_name send q m =
     (case take_by_name q of (l, q') \<Rightarrow> (q', snd (deliver_loop send l m)))"

definition pop_by_id :: "(nat \<Rightarrow> message \<Rightarrow> 'm \<Rightarrow> unit result \<times> 'm) \<Rightarrow> message_queue \<Rightarrow> 'm \<Rightarrow>
    message_queue \<times> 'm" where
  "pop_by_id send q m =
     (case take_by_id q of (l, q') \<Rightarrow> (q', snd (deliver_loop send l m)))"

section \<open>The contract of the queues\<close>

datatype 'a queue_op = Op_push 'a | Op_take | Op_close

text \<open>A history of a queue: what the pushes answered and what the takes returned.\<close>

fun queue_run :: "('a \<Rightarrow> 'q \<Rightarrow> bool \<times> 'q) \<Rightarrow> ('q \<Rightarrow> 'a list \<times> 'q) \<Rightarrow> ('q \<Rightarrow> 'q) \<Rightarrow> 'a queue_op list \<Rightarrow> 'q \<Rightarrow>
    'a list \<times> 'a list \<times> 'q" where
  "queue_run push tak clos [] q = ([], [], q)"
| "queue_run push tak clos (Op_push x # ops) q =
     (case push x q of (ok, q1) \<Rightarrow> case queue_run push tak clos ops q1 of
        (accepted, taken, q2) \<Rightarrow> ((if ok then [x] else []) @ accepted, taken, q2))"
| "queue_run push tak clos (Op_take # ops) q =
     (case tak q of (xs, q1) \<Rightarrow> case queue_run push tak clos ops q1 of
        (accepted, taken, q2) \<Rightarrow> (accepted, xs @ taken, q2))"
| "queue_run push tak clos (Op_close # ops) q = queue_run push tak clos ops (clos q)"

locale batch_queue =
  fixes push :: "'a \<Rightarrow> 'q \<Rightarrow> bool \<times> 'q"
    and tak :: "'q \<Rightarrow> 'a list \<times> 'q"
    and clos :: "'q \<Rightarrow> 'q"
    and pending :: "'q \<Rightarrow> 'a list"
    and accepting :: "'q \<Rightarrow> bool"
  assumes push_result: "fst (push x q) = accepting q"
    and push_pending: "pending (snd (push x q)) = pending q @ (if accepting q then [x] else [])"
    and push_accepting: "accepting (snd (push x q)) = accepting q"
    and take_split: "fst (tak q) @ pending (snd (tak q)) = pending q"
    and take_accepting: "accepting (snd (tak q)) = accepting q"
    and close_pending: "pending (clos q) = pending q"
    and close_accepting: "\<not> accepting (clos q)"
begin

lemma run_conserves:
  "queue_run push tak clos ops q = (accepted, taken, q') \<Longrightarrow>
   taken @ pending q' = pending q @ accepted"
proof (induction ops arbitrary: q accepted taken q')
  case (Cons op ops)
  show ?case
  proof (cases op)
    case (Op_push x)
    obtain a t q2 where run: "queue_run push tak clos ops (snd (push x q)) = (a, t, q2)"
      by (metis prod_cases3)
    then have "accepted = (if fst (push x q) then [x] else []) @ a" "taken = t" "q' = q2"
      using Cons.prems Op_push by (auto split: prod.splits)
    with Cons.IH [OF run] show ?thesis by (simp add: push_result push_pending)
  next
    case Op_take
    obtain a t q2 where run: "queue_run push tak clos ops (snd (tak q)) = (a, t, q2)"
      by (metis prod_cases3)
    then have "accepted = a" "taken = fst (tak q) @ t" "q' = q2"
      using Cons.prems Op_take by (auto split: prod.splits)
    with Cons.IH [OF run] take_split [of q] show ?thesis by (metis append.assoc)
  next
    case Op_close
    with Cons.prems Cons.IH [of "clos q"] show ?thesis by (simp add: close_pending)
  qed
qed simp

lemma run_closed:
  "queue_run push tak clos ops q = (accepted, taken, q') \<Longrightarrow> \<not> accepting q \<Longrightarrow> accepted = []"
proof (induction ops arbitrary: q accepted taken q')
  case (Cons op ops)
  then show ?case
  proof (cases op)
    case (Op_push x)
    obtain a t q2 where run: "queue_run push tak clos ops (snd (push x q)) = (a, t, q2)"
      by (metis prod_cases3)
    then have "accepted = (if fst (push x q) then [x] else []) @ a"
      using Cons.prems Op_push by (auto split: prod.splits)
    with Cons.IH [OF run] Cons.prems(2) show ?thesis by (simp add: push_result push_accepting)
  next
    case Op_take
    obtain a t q2 where run: "queue_run push tak clos ops (snd (tak q)) = (a, t, q2)"
      by (metis prod_cases3)
    then have "accepted = a" using Cons.prems Op_take by (auto split: prod.splits)
    with Cons.IH [OF run] Cons.prems(2) show ?thesis by (simp add: take_accepting)
  next
    case Op_close
    with Cons.prems Cons.IH [of "clos q"] show ?thesis by (simp add: close_accepting)
  qed
qed simp

end

text \<open>Taking from the queue between threads: a call that waits takes nothing now, a call on a
  finished queue takes nothing at all.\<close>

definition queue_take :: "'a threaded_queue \<Rightarrow> 'a list \<times> 'a threaded_queue" where
  "queue_take q = (case queue_pop_all q of
       Some (Some items, q') \<Rightarrow> (items, q')
     | _ \<Rightarrow> ([], q))"

definition queue_take_one :: "'a threaded_queue \<Rightarrow> 'a list \<times> 'a threaded_queue" where
  "queue_take_one q = (case queue_pop q of
       Some (Some item, q') \<Rightarrow> ([item], q')
     | _ \<Rightarrow> ([], q))"

interpretation pop_all_queue: batch_queue queue_push queue_take queue_finish tq_items "\<lambda>q. \<not> queue_finished q"
  by unfold_locales
    (auto simp: queue_push_def queue_take_def queue_pop_all_def queue_finish_def queue_finished_def)

interpretation pop_queue: batch_queue queue_push queue_take_one queue_finish tq_items "\<lambda>q. \<not> queue_finished q"
  by unfold_locales
    (auto simp: queue_push_def queue_take_one_def queue_pop_def queue_finish_def queue_finished_def)

interpretation by_name_queue: batch_queue push_message_name take_by_name message_queue_finish
    mq_by_name message_queue_active
  by unfold_locales (auto simp: push_message_name_def take_by_name_def message_queue_finish_def
      message_queue_active_def)

interpretation by_id_queue: batch_queue push_message_id take_by_id message_queue_finish
    mq_by_id message_queue_active
  by unfold_locales (auto simp: push_message_id_def take_by_id_def message_queue_finish_def
      message_queue_active_def)

text \<open>C13. The queue between threads is first-in first-out: for every interleaving of pushes,
  pops of one item and finishing, started from the empty queue, the items popped so far followed
  by those still inside are exactly the items whose push answered true, in order; and a push after
  the queue is finished answers false.\<close>

theorem threaded_queue_fifo:
  "queue_run queue_push queue_take_one queue_finish ops queue_init = (accepted, taken, q) \<Longrightarrow>
   taken @ tq_items q = accepted \<and>
   (queue_finished q \<longrightarrow> queue_push x q = (False, q) \<and> queue_pop q = Some (None, q))"
  using pop_queue.run_conserves [of ops queue_init accepted taken q]
  by (simp add: queue_init_def queue_finished_def queue_push_def queue_pop_def)

theorem threaded_queue_fifo_witness:
  "fst (snd (queue_run queue_push queue_take_one queue_finish
     [Op_push 1, Op_push 2, Op_take, Op_push (3::nat), Op_take] queue_init)) = [1, 2]"
proof -
  let ?r = "queue_run queue_push queue_take_one queue_finish
     [Op_push 1, Op_push 2, Op_take, Op_push (3::nat), Op_take] queue_init"
  have "?r = (fst ?r, fst (snd ?r), snd (snd ?r))" by simp
  from threaded_queue_fifo [OF this]
  have "fst (snd ?r) @ tq_items (snd (snd ?r)) = fst ?r" by blast
  moreover have "tq_items (snd (snd ?r)) = [3]" "fst ?r = [1, 2, 3]" by code_simp+
  ultimately show ?thesis by simp
qed

section \<open>Delivery of messages\<close>

datatype mq_op = Mq_send_name string message | Mq_send_id nat message | Mq_finish | Mq_strand

text \<open>A history of the message queue: sends from any thread, \<open>finish\<close>, and the strand running the
  oldest handler posted to it. The manager here records what it is given, the messages by name
  and those by identifier.\<close>

definition record_name :: "string \<Rightarrow> message \<Rightarrow> (string \<times> message) list \<times> (nat \<times> message) list \<Rightarrow>
    unit result \<times> (string \<times> message) list \<times> (nat \<times> message) list" where
  "record_name to msg m = (Inr (), fst m @ [(to, msg)], snd m)"

definition record_id :: "nat \<Rightarrow> message \<Rightarrow> (string \<times> message) list \<times> (nat \<times> message) list \<Rightarrow>
    unit result \<times> (string \<times> message) list \<times> (nat \<times> message) list" where
  "record_id to msg m = (Inr (), fst m, snd m @ [(to, msg)])"

definition mq_step :: "mq_op \<Rightarrow> message_queue \<times> (string \<times> message) list \<times> (nat \<times> message) list \<Rightarrow>
    message_queue \<times> (string \<times> message) list \<times> (nat \<times> message) list" where
  "mq_step op s =
     (case op of
        Mq_send_name to msg \<Rightarrow> (message_queue_send_name to msg (fst s), snd s)
      | Mq_send_id to msg \<Rightarrow> (message_queue_send_id to msg (fst s), snd s)
      | Mq_finish \<Rightarrow> (message_queue_finish (fst s), snd s)
      | Mq_strand \<Rightarrow>
          (case mq_posted (fst s) of
             [] \<Rightarrow> s
           | Pop_by_name # js \<Rightarrow> pop_by_name record_name ((fst s)\<lparr>mq_posted := js\<rparr>) (snd s)
           | Pop_by_id # js \<Rightarrow> pop_by_id record_id ((fst s)\<lparr>mq_posted := js\<rparr>) (snd s)))"

fun sent_names :: "mq_op list \<Rightarrow> (string \<times> message) list" where
  "sent_names [] = []"
| "sent_names (Mq_send_name to msg # ops) = (to, msg) # sent_names ops"
| "sent_names (_ # ops) = sent_names ops"

fun sent_ids :: "mq_op list \<Rightarrow> (nat \<times> message) list" where
  "sent_ids [] = []"
| "sent_ids (Mq_send_id to msg # ops) = (to, msg) # sent_ids ops"
| "sent_ids (_ # ops) = sent_ids ops"

lemma deliver_record_name: "deliver_loop record_name l m = (Inr (), fst m @ l, snd m)"
  by (induction l arbitrary: m) (auto simp: record_name_def)

lemma deliver_record_id: "deliver_loop record_id l m = (Inr (), fst m, snd m @ l)"
  by (induction l arbitrary: m) (auto simp: record_id_def)

lemmas mq_step_defs = mq_step_def message_queue_send_name_def message_queue_send_id_def
  push_message_name_def push_message_id_def message_queue_finish_def pop_by_name_def pop_by_id_def
  take_by_name_def take_by_id_def deliver_record_name deliver_record_id

text \<open>What is waiting in a deque has its handler posted.\<close>

definition mq_inv :: "message_queue \<Rightarrow> bool" where
  "mq_inv q \<longleftrightarrow> (mq_by_name q \<noteq> [] \<longrightarrow> Pop_by_name \<in> set (mq_posted q)) \<and>
     (mq_by_id q \<noteq> [] \<longrightarrow> Pop_by_id \<in> set (mq_posted q))"

lemma mq_step_inv: "mq_inv (fst s) \<Longrightarrow> mq_inv (fst (mq_step op s))"
  by (cases op) (auto simp: mq_step_defs mq_inv_def split: list.splits strand_job.splits)

lemma mq_run_inv: "mq_inv (fst s) \<Longrightarrow> mq_inv (fst (fold mq_step ops s))"
  by (induction ops arbitrary: s) (simp_all add: mq_step_inv)

lemma mq_step_accepting: "mq_accepting (fst (mq_step op s)) \<longleftrightarrow> mq_accepting (fst s) \<and> op \<noteq> Mq_finish"
  by (cases op) (auto simp: mq_step_defs split: list.splits strand_job.splits)

lemma mq_step_names:
  "fst (snd (mq_step op s)) @ mq_by_name (fst (mq_step op s)) =
     fst (snd s) @ mq_by_name (fst s) @ (if mq_accepting (fst s) then sent_names [op] else [])"
  by (cases op) (auto simp: mq_step_defs split: list.splits strand_job.splits)

lemma mq_step_ids:
  "snd (snd (mq_step op s)) @ mq_by_id (fst (mq_step op s)) =
     snd (snd s) @ mq_by_id (fst s) @ (if mq_accepting (fst s) then sent_ids [op] else [])"
  by (cases op) (auto simp: mq_step_defs split: list.splits strand_job.splits)

definition before_finish :: "mq_op list \<Rightarrow> mq_op list" where
  "before_finish ops = takeWhile (\<lambda>op. op \<noteq> Mq_finish) ops"

lemma mq_run_names:
  "fst (snd (fold mq_step ops s)) @ mq_by_name (fst (fold mq_step ops s)) =
     (fst (snd s) @ mq_by_name (fst s)) @ (if mq_accepting (fst s) then sent_names (before_finish ops) else [])"
proof (induction ops arbitrary: s)
  case (Cons op ops)
  have "(if mq_accepting (fst s) then sent_names (before_finish (op # ops)) else []) =
      (if mq_accepting (fst s) then sent_names [op] else []) @
      (if mq_accepting (fst (mq_step op s)) then sent_names (before_finish ops) else [])"
    by (cases op) (simp_all add: before_finish_def mq_step_accepting)
  with Cons.IH [of "mq_step op s"] mq_step_names [of op s] show ?case
    by (simp only: fold.simps o_apply) simp
qed (simp add: before_finish_def)

lemma mq_run_ids:
  "snd (snd (fold mq_step ops s)) @ mq_by_id (fst (fold mq_step ops s)) =
     (snd (snd s) @ mq_by_id (fst s)) @ (if mq_accepting (fst s) then sent_ids (before_finish ops) else [])"
proof (induction ops arbitrary: s)
  case (Cons op ops)
  have "(if mq_accepting (fst s) then sent_ids (before_finish (op # ops)) else []) =
      (if mq_accepting (fst s) then sent_ids [op] else []) @
      (if mq_accepting (fst (mq_step op s)) then sent_ids (before_finish ops) else [])"
    by (cases op) (simp_all add: before_finish_def mq_step_accepting)
  with Cons.IH [of "mq_step op s"] mq_step_ids [of op s] show ?case
    by (simp only: fold.simps o_apply) simp
qed (simp add: before_finish_def)



text \<open>An exception loses messages: when giving one message of the deque to the manager
  throws, every message behind it in the deque is dropped, never to be delivered.\<close>

theorem pop_by_name_drops_rest:
  "mq_by_name q = l @ (to, msg) # rest \<Longrightarrow> deliver_loop send l m = (Inr (), m1) \<Longrightarrow>
   send to msg m1 = (Inl e, m2) \<Longrightarrow>
   pop_by_name send q m = (q\<lparr>mq_by_name := []\<rparr>, m2)"
proof -
  assume h: "mq_by_name q = l @ (to, msg) # rest" "deliver_loop send l m = (Inr (), m1)"
    "send to msg m1 = (Inl e, m2)"
  have "deliver_loop send (l @ (to, msg) # rest) m = (Inl e, m2)"
    using h(2,3) by (induction l arbitrary: m) (auto split: prod.splits sum.splits)
  with h(1) show ?thesis by (simp add: pop_by_name_def take_by_name_def)
qed

theorem pop_by_name_drops_rest_witness:
  "snd (pop_by_name (\<lambda>to msg m. if to = ''bad'' then (Inl (Runtime_error []), m) else (Inr (), to # m))
     (message_queue_init\<lparr>mq_by_name := [(''a'', message_init ''1''), (''bad'', message_init ''2''),
        (''c'', message_init ''3'')]\<rparr>) []) = [''a'']"
proof -
  let ?send = "\<lambda>to msg (m :: string list). if to = ''bad'' then (Inl (Runtime_error []), m) else (Inr (), to # m)"
  let ?q = "message_queue_init\<lparr>mq_by_name := [(''a'', message_init ''1''), (''bad'', message_init ''2''),
        (''c'', message_init ''3'')]\<rparr>"
  have "mq_by_name ?q = [(''a'', message_init ''1'')] @ (''bad'', message_init ''2'') # [(''c'', message_init ''3'')]"
    "deliver_loop ?send [(''a'', message_init ''1'')] [] = (Inr (), [''a''])"
    "?send ''bad'' (message_init ''2'') [''a''] = (Inl (Runtime_error []), [''a''])"
    by simp_all
  from pop_by_name_drops_rest [OF this] show ?thesis by simp
qed

section \<open>Reference counts and owned resources\<close>

text \<open>The count is an \<open>int\<close>. Releasing answers whether the object is deleted. The threaded
  version differs only in holding the mutex of the object while counting.\<close>

definition shared_init :: "32 word" where
  "shared_init = 0"

definition add_ref :: "32 word \<Rightarrow> 32 word" where
  "add_ref cnt = cnt + 1"

definition release_ref :: "32 word \<Rightarrow> bool \<times> 32 word" where
  "release_ref cnt = (cnt - 1 = 0, cnt - 1)"

definition threaded_add_ref :: "32 word \<Rightarrow> 32 word" where
  "threaded_add_ref cnt = cnt + 1"

definition threaded_release_ref :: "32 word \<Rightarrow> bool \<times> 32 word" where
  "threaded_release_ref cnt = (let cnt' = cnt - 1; last = (cnt' = 0) in (last, cnt'))"

text \<open>A history of references to one object, true for taking one: the numbers of the releases
  that deleted it, counted from the start.\<close>

fun refs_run :: "bool list \<Rightarrow> 32 word \<Rightarrow> nat \<Rightarrow> nat list" where
  "refs_run [] cnt n = []"
| "refs_run (True # ops) cnt n = refs_run ops (threaded_add_ref cnt) (Suc n)"
| "refs_run (False # ops) cnt n =
     (case threaded_release_ref cnt of (deleted, cnt') \<Rightarrow>
        (if deleted then [n] else []) @ refs_run ops cnt' (Suc n))"

text \<open>Correct use: every release belongs to a reference taken before it, and only the last
  release gives up the last reference.\<close>

fun balanced_refs :: "bool list \<Rightarrow> nat \<Rightarrow> bool" where
  "balanced_refs [] k \<longleftrightarrow> k = 0"
| "balanced_refs (True # ops) k \<longleftrightarrow> balanced_refs ops (Suc k)"
| "balanced_refs (False # ops) k \<longleftrightarrow> (if k = 1 then ops = [] else 1 < k \<and> balanced_refs ops (k - 1))"

lemma refs_run_balanced:
  "balanced_refs ops k \<Longrightarrow> k + length ops < 2 ^ 32 \<Longrightarrow> ops \<noteq> [] \<Longrightarrow>
   refs_run ops (of_nat k) n = [n + length ops - 1]"
proof (induction ops arbitrary: k n)
  case (Cons b ops)
  show ?case
  proof (cases b)
    case True
    have "ops \<noteq> []" using Cons.prems(1) True by auto
    with True Cons.prems Cons.IH [of "Suc k" "Suc n"] show ?thesis
      by (simp add: threaded_add_ref_def algebra_simps)
  next
    case False
    show ?thesis
    proof (cases "k = 1")
      case True
      with False Cons.prems(1) show ?thesis by (simp add: threaded_release_ref_def)
    next
      case k: False
      with False Cons.prems(1) have k1: "1 < k" "balanced_refs ops (k - 1)" by auto
      then have "ops \<noteq> []" by auto
      moreover have pred: "of_nat k - 1 = (of_nat (k - 1) :: 32 word)" using k1(1) by simp
      moreover have "unat (of_nat (k - 1) :: 32 word) = k - 1"
        using Cons.prems(2) by (simp add: unat_of_nat take_bit_eq_mod)
      then have "of_nat (k - 1) \<noteq> (0 :: 32 word)" using k1(1) by force
      ultimately show ?thesis
        using False Cons.prems(2) Cons.IH [OF k1(2), of "Suc n"]
        by (simp only: refs_run.simps threaded_release_ref_def Let_def pred) simp
    qed
  qed
qed simp

text \<open>C34. A shared object is deleted exactly once, by the last release: for every history of
  fewer than \<open>2^32\<close> references taken and released in which each release gives up a reference
  taken before, the only deletion is at the last operation.\<close>

theorem shared_deleted_once:
  "balanced_refs ops 0 \<Longrightarrow> length ops < 2 ^ 32 \<Longrightarrow> ops \<noteq> [] \<Longrightarrow>
   refs_run ops shared_init 0 = [length ops - 1]"
  using refs_run_balanced [of ops 0 0] by (simp add: shared_init_def)

theorem shared_deleted_once_witness:
  "refs_run [True, True, False, True, False, False] shared_init 0 = [5]"
  using shared_deleted_once [of "[True, True, False, True, False, False]"] by simp

text \<open>A resource owns a value; the default value stands for none. The operations return the
  values that were destroyed.\<close>

definition resource_reset :: "'a \<Rightarrow> 'a \<Rightarrow> 'a \<Rightarrow> 'a list \<times> 'a" where
  "resource_reset dflt v value = (if value \<noteq> dflt then [value] else [], v)"

definition resource_release :: "'a \<Rightarrow> 'a \<Rightarrow> 'a \<times> 'a" where
  "resource_release dflt value = (value, dflt)"

definition resource_destroy :: "'a \<Rightarrow> 'a \<Rightarrow> 'a list" where
  "resource_destroy dflt value = (if dflt \<noteq> value then [value] else [])"

definition resource_swap :: "'a \<Rightarrow> 'a \<Rightarrow> 'a \<times> 'a" where
  "resource_swap value other = (other, value)"

definition resource_get :: "'a \<Rightarrow> 'a" where
  "resource_get value = value"

definition resource_bool :: "'a \<Rightarrow> 'a \<Rightarrow> bool" where
  "resource_bool dflt value \<longleftrightarrow> dflt \<noteq> value"

end
