(* ===== verification/Listeners.thy ===== *)
theory Listeners
  imports Queues
begin

text \<open>
  Notification of the application about connections (\<open>guard\<close>, \<open>compound_listener\<close>,
  \<open>threaded_listener\<close>). The listeners are objects of the application: a record of functions
  that may throw. What is called on them is recorded in a log; an event names the listener by its
  position in the list. A guard is a shared object with an address; the checksum that spreads the
  users over the threads (Boost's CRC-32) is a parameter.
\<close>

section \<open>The guard of a connection\<close>

datatype guard_state = Guard_none | Guard_opened | Guard_ok | Guard_canceled | Guard_closed

definition guard_init :: guard_state where
  "guard_init = Guard_none"

definition guard_open :: "guard_state \<Rightarrow> bool \<times> guard_state" where
  "guard_open g = (if g \<noteq> Guard_none then (False, g) else (True, Guard_opened))"

definition guard_commit :: "guard_state \<Rightarrow> bool \<times> guard_state" where
  "guard_commit g = (if g \<noteq> Guard_opened then (False, g) else (True, Guard_ok))"

definition guard_cancel :: "guard_state \<Rightarrow> bool \<times> guard_state" where
  "guard_cancel g = (if g \<noteq> Guard_opened then (False, g) else (True, Guard_canceled))"

definition guard_close :: "guard_state \<Rightarrow> bool \<times> guard_state" where
  "guard_close g = (if g \<noteq> Guard_ok then (False, g) else (True, Guard_closed))"

section \<open>Several listeners as one\<close>

record user_listener =
  ul_opened :: "string \<Rightarrow> nat \<Rightarrow> unit result"
  ul_closed :: "string \<Rightarrow> nat \<Rightarrow> unit result"
  ul_disconnected :: "string \<Rightarrow> unit result"

datatype listener_event =
    Ev_opened nat string nat
  | Ev_closed nat string nat
  | Ev_disconnected nat string

text \<open>The first loop of \<open>notify_connection_opened\<close>, from the listener at position \<open>i\<close>: the
  position where it stops, what was thrown there, the calls.\<close>

fun opened_loop :: "string \<Rightarrow> nat \<Rightarrow> nat \<Rightarrow> user_listener list \<Rightarrow>
    (nat \<times> xiva_error option) \<times> listener_event list" where
  "opened_loop to cid i [] = ((i, None), [])"
| "opened_loop to cid i (l # ls) =
     (case ul_opened l to cid of
        Inl e \<Rightarrow> ((i, Some e), [Ev_opened i to cid])
      | Inr _ \<Rightarrow> (case opened_loop to cid (Suc i) ls of (r, evs) \<Rightarrow> (r, Ev_opened i to cid # evs)))"

text \<open>The second loop goes back from the position where the first stopped; all errors of the
  calls are suppressed.\<close>

fun rollback_loop :: "string \<Rightarrow> nat \<Rightarrow> nat \<Rightarrow> listener_event list" where
  "rollback_loop to cid 0 = []"
| "rollback_loop to cid (Suc i) = Ev_closed i to cid # rollback_loop to cid i"

definition notify_connection_opened ::
    "user_listener list \<Rightarrow> string \<Rightarrow> nat \<Rightarrow> unit result \<times> listener_event list" where
  "notify_connection_opened ls to cid =
     (case opened_loop to cid 0 ls of
        ((_, None), evs) \<Rightarrow> (Inr (), evs)
      | ((i, Some e), evs) \<Rightarrow> (Inl e, evs @ rollback_loop to cid i))"

text \<open>Closing goes through the listeners from the last to the first; errors are logged only.\<close>

definition notify_connection_closed :: "user_listener list \<Rightarrow> string \<Rightarrow> nat \<Rightarrow> listener_event list" where
  "notify_connection_closed ls to cid = rollback_loop to cid (length ls)"

fun disconnected_loop :: "string \<Rightarrow> nat \<Rightarrow> user_listener list \<Rightarrow> unit result \<times> listener_event list" where
  "disconnected_loop to i [] = (Inr (), [])"
| "disconnected_loop to i (l # ls) =
     (case ul_disconnected l to of
        Inl e \<Rightarrow> (Inl e, [Ev_disconnected i to])
      | Inr _ \<Rightarrow> (case disconnected_loop to (Suc i) ls of (r, evs) \<Rightarrow> (r, Ev_disconnected i to # evs)))"

definition notify_disconnected :: "user_listener list \<Rightarrow> string \<Rightarrow> unit result \<times> listener_event list" where
  "notify_disconnected ls to = disconnected_loop to 0 ls"

definition add_connection_listener :: "user_listener \<Rightarrow> user_listener list \<Rightarrow> user_listener list" where
  "add_connection_listener l ls = ls @ [l]"

section \<open>Listeners behind threads\<close>

record queue_item =
  qi_guard :: "nat option"
  qi_to :: string
  qi_id :: nat
  qi_for_open :: bool

type_synonym item_queues = "queue_item threaded_queue list"

definition threaded_init :: "user_listener list \<Rightarrow> nat \<Rightarrow> item_queues \<Rightarrow> item_queues" where
  "threaded_init ls listener_threads items =
     (if ls \<noteq> [] then items @ replicate (if listener_threads = 0 then 1 else listener_threads) queue_init
      else items)"

definition threaded_finish :: "item_queues \<Rightarrow> item_queues" where
  "threaded_finish items = map queue_finish items"

definition calc_index :: "(string \<Rightarrow> nat) \<Rightarrow> item_queues \<Rightarrow> string \<Rightarrow> nat result" where
  "calc_index crc32 items to =
     assert_that (length items \<noteq> 0)
       (if length items = 1 then Inr 0 else Inr (crc32 to mod length items))"

definition push_item :: "(string \<Rightarrow> nat) \<Rightarrow> queue_item \<Rightarrow> item_queues \<Rightarrow> item_queues result" where
  "push_item crc32 item items =
     bind_result (calc_index crc32 items (qi_to item))
       (\<lambda>i. Inr (items[i := snd (queue_push item (items ! i))]))"

definition threaded_opened_ex ::
    "(string \<Rightarrow> nat) \<Rightarrow> user_listener list \<Rightarrow> string \<Rightarrow> nat \<Rightarrow> nat \<Rightarrow> item_queues \<Rightarrow> item_queues result" where
  "threaded_opened_ex crc32 ls to cid g items =
     (if ls \<noteq> [] then push_item crc32 \<lparr>qi_guard = Some g, qi_to = to, qi_id = cid, qi_for_open = True\<rparr> items
      else Inr items)"

definition threaded_closed_ex ::
    "(string \<Rightarrow> nat) \<Rightarrow> user_listener list \<Rightarrow> string \<Rightarrow> nat \<Rightarrow> nat \<Rightarrow> item_queues \<Rightarrow> item_queues result" where
  "threaded_closed_ex crc32 ls to cid g items =
     (if ls \<noteq> [] then push_item crc32 \<lparr>qi_guard = Some g, qi_to = to, qi_id = cid, qi_for_open = False\<rparr> items
      else Inr items)"

text \<open>The item of \<open>disconnected\<close> has no guard; its \<open>for_open\<close> is never set and never read.\<close>

definition threaded_disconnected ::
    "(string \<Rightarrow> nat) \<Rightarrow> user_listener list \<Rightarrow> string \<Rightarrow> item_queues \<Rightarrow> item_queues result" where
  "threaded_disconnected crc32 ls to items =
     (if ls \<noteq> [] then push_item crc32 \<lparr>qi_guard = None, qi_to = to, qi_id = 0, qi_for_open = False\<rparr> items
      else Inr items)"

text \<open>What the threads share: the guards, the calls made so far, and the connections reported
  to the server because a listener refused them.\<close>

record listener_world =
  lw_guards :: "nat \<Rightarrow> guard_state"
  lw_log :: "listener_event list"
  lw_failed :: "(string \<times> nat) list"

definition data_notify_opened_failed :: "bool \<Rightarrow> string \<Rightarrow> nat \<Rightarrow> listener_world \<Rightarrow> listener_world" where
  "data_notify_opened_failed stopping to cid w =
     (if \<not> stopping then w\<lparr>lw_failed := lw_failed w @ [(to, cid)]\<rparr> else w)"

definition process_item ::
    "user_listener list \<Rightarrow> bool \<Rightarrow> queue_item \<Rightarrow> listener_world \<Rightarrow> listener_world" where
  "process_item ls stopping item w =
     (case qi_guard item of
        None \<Rightarrow> w\<lparr>lw_log := lw_log w @ snd (notify_disconnected ls (qi_to item))\<rparr>
      | Some g \<Rightarrow>
          if qi_for_open item then
            (case guard_open (lw_guards w g) of
               (False, _) \<Rightarrow> w
             | (True, s) \<Rightarrow>
                 (case notify_connection_opened ls (qi_to item) (qi_id item) of
                    (Inr _, evs) \<Rightarrow>
                      w\<lparr>lw_guards := (lw_guards w)(g := snd (guard_commit s)), lw_log := lw_log w @ evs\<rparr>
                  | (Inl _, evs) \<Rightarrow>
                      data_notify_opened_failed stopping (qi_to item) (qi_id item)
                        (w\<lparr>lw_guards := (lw_guards w)(g := snd (guard_cancel s)), lw_log := lw_log w @ evs\<rparr>)))
          else
            (case guard_close (lw_guards w g) of
               (False, _) \<Rightarrow> w
             | (True, s) \<Rightarrow>
                 w\<lparr>lw_guards := (lw_guards w)(g := s),
                   lw_log := lw_log w @ notify_connection_closed ls (qi_to item) (qi_id item)\<rparr>))"

text \<open>One round of \<open>thread_func\<close> of the thread at \<open>index\<close>: \<open>None\<close> while it waits, otherwise
  whether it goes on.\<close>

definition thread_round :: "user_listener list \<Rightarrow> bool \<Rightarrow> nat \<Rightarrow> item_queues \<Rightarrow> listener_world \<Rightarrow>
    (bool \<times> item_queues \<times> listener_world) option" where
  "thread_round ls stopping index items w =
     (case queue_pop_all (items ! index) of
        None \<Rightarrow> None
      | Some (None, q) \<Rightarrow> Some (False, items[index := q], w)
      | Some (Some batch, q) \<Rightarrow>
          Some (True, items[index := q], fold (process_item ls stopping) batch w))"

section \<open>Opening and rolling back\<close>

lemma rollback_loop_eq: "rollback_loop to cid n = map (\<lambda>j. Ev_closed j to cid) (rev [0..<n])"
  by (induction n) simp_all

lemma opened_loop_outcome:
  "opened_loop to cid i ls = ((k, err), evs) \<Longrightarrow>
   i \<le> k \<and> k \<le> i + length ls \<and> (\<forall>j<k - i. \<exists>u. ul_opened (ls ! j) to cid = Inr u) \<and>
   (case err of
      None \<Rightarrow> k = i + length ls \<and> evs = map (\<lambda>j. Ev_opened j to cid) [i..<k]
    | Some e \<Rightarrow> k < i + length ls \<and> ul_opened (ls ! (k - i)) to cid = Inl e \<and>
        evs = map (\<lambda>j. Ev_opened j to cid) [i..<Suc k])"
proof (induction ls arbitrary: i k err evs)
  case (Cons l ls)
  show ?case
  proof (cases "ul_opened l to cid")
    case (Inl e)
    with Cons.prems show ?thesis by auto
  next
    case (Inr u)
    obtain k' err' evs' where run: "opened_loop to cid (Suc i) ls = ((k', err'), evs')"
      by (metis prod_cases3 prod.collapse)
    then have eqs: "k' = k" "err' = err" "evs = Ev_opened i to cid # evs'"
      using Cons.prems Inr by auto
    note IH = Cons.IH [OF run, unfolded eqs]
    then have k: "Suc i \<le> k" by simp
    then have "[i..<k] = i # [Suc i..<k]" "[i..<Suc k] = i # [Suc i..<Suc k]"
      by (simp_all only: upt_conv_Cons)
    moreover have "(l # ls) ! (k - i) = ls ! (k - Suc i)" using k by (simp add: nth_Cons')
    moreover have "\<exists>u. ul_opened ((l # ls) ! j) to cid = Inr u" if "j < k - i" for j
      using that IH Inr by (cases j) auto
    ultimately show ?thesis
      using IH by (cases err) (auto simp: eqs(3) simp del: upt_Suc)
  qed
qed simp

text \<open>C22. Opening is all or nothing: when every listener accepts the connection each is told
  once, in order; when one throws, those before it have accepted, they are told the connection is
  closed in the opposite order, those behind it are told nothing, and the exception is passed on.\<close>

theorem notify_opened_all_or_nothing:
  "notify_connection_opened ls to cid = (r, evs) \<Longrightarrow>
   (case r of
      Inr _ \<Rightarrow> (\<forall>j<length ls. ul_opened (ls ! j) to cid = Inr ()) \<and>
        evs = map (\<lambda>j. Ev_opened j to cid) [0..<length ls]
    | Inl e \<Rightarrow> \<exists>k<length ls. ul_opened (ls ! k) to cid = Inl e \<and>
        (\<forall>j<k. ul_opened (ls ! j) to cid = Inr ()) \<and>
        evs = map (\<lambda>j. Ev_opened j to cid) [0..<Suc k] @ map (\<lambda>j. Ev_closed j to cid) (rev [0..<k]))"
proof -
  assume notify: "notify_connection_opened ls to cid = (r, evs)"
  obtain k err evs0 where run: "opened_loop to cid 0 ls = ((k, err), evs0)"
    by (metis prod_cases3 prod.collapse)
  note outcome = opened_loop_outcome [OF run]
  then have ok: "\<forall>j<k. ul_opened (ls ! j) to cid = Inr ()" by simp
  show ?thesis
  proof (cases err)
    case None
    with notify run have "r = Inr ()" "evs = evs0" by (simp_all add: notify_connection_opened_def)
    with None outcome ok show ?thesis by simp
  next
    case (Some e)
    with notify run have "r = Inl e" "evs = evs0 @ map (\<lambda>j. Ev_closed j to cid) (rev [0..<k])"
      by (simp_all add: notify_connection_opened_def rollback_loop_eq)
    with Some outcome ok show ?thesis by (auto simp del: upt_Suc)
  qed
qed

definition sample_listener :: "bool \<Rightarrow> user_listener" where
  "sample_listener ok = \<lparr>ul_opened = (\<lambda>_ _. if ok then Inr () else Inl (Runtime_error ''refused'')),
     ul_closed = (\<lambda>_ _. Inr ()), ul_disconnected = (\<lambda>_. Inr ())\<rparr>"

theorem notify_opened_all_or_nothing_witness:
  "\<exists>evs. notify_connection_opened [sample_listener True, sample_listener False, sample_listener True] ''u'' 7 =
     (Inl (Runtime_error ''refused''), evs) \<and>
     (\<exists>k<3. evs = map (\<lambda>j. Ev_opened j ''u'' 7) [0..<Suc k] @ map (\<lambda>j. Ev_closed j ''u'' 7) (rev [0..<k]))"
proof -
  let ?ls = "[sample_listener True, sample_listener False, sample_listener True]"
  obtain evs where evs: "notify_connection_opened ?ls ''u'' 7 = (Inl (Runtime_error ''refused''), evs)"
    by (simp add: notify_connection_opened_def sample_listener_def)
  from notify_opened_all_or_nothing [OF evs] evs show ?thesis
    by (auto simp: numeral_3_eq_3 simp del: upt_Suc)
qed

section \<open>Once opened, once closed\<close>

text \<open>The calls one listener gets for one connection.\<close>

definition listener_events :: "nat \<Rightarrow> string \<Rightarrow> nat \<Rightarrow> listener_event list \<Rightarrow> listener_event list" where
  "listener_events j to cid evs = filter (\<lambda>e. e = Ev_opened j to cid \<or> e = Ev_closed j to cid) evs"

lemma listener_events_append [simp]:
  "listener_events j to cid (xs @ ys) = listener_events j to cid xs @ listener_events j to cid ys"
  by (simp add: listener_events_def)

lemma listener_events_Nil [simp]: "listener_events j to cid [] = []"
  by (simp add: listener_events_def)

lemma listener_events_opened:
  "listener_events j to cid (map (\<lambda>i. Ev_opened i to' cid') [0..<n]) =
     (if j < n \<and> to' = to \<and> cid' = cid then [Ev_opened j to cid] else [])"
  by (induction n) (auto simp: listener_events_def)

lemma listener_events_rollback:
  "listener_events j to cid (rollback_loop to' cid' n) =
     (if j < n \<and> to' = to \<and> cid' = cid then [Ev_closed j to cid] else [])"
  by (induction n) (auto simp: listener_events_def)

lemma disconnected_loop_events: "listener_events j to cid (snd (disconnected_loop to' i ls)) = []"
proof (induction ls arbitrary: i)
  case (Cons l ls)
  from Cons.IH [of "Suc i"] show ?case
    by (auto simp: listener_events_def split: sum.split prod.split)
qed simp

lemma listener_events_notify_opened:
  assumes "notify_connection_opened ls to' cid' = (r, evs)"
  shows "to' = to \<and> cid' = cid \<Longrightarrow> r = Inr u \<Longrightarrow>
      listener_events j to cid evs = (if j < length ls then [Ev_opened j to cid] else [])"
    and "\<not> (to' = to \<and> cid' = cid) \<Longrightarrow> listener_events j to cid evs = []"
    and "listener_events j to cid evs \<in> {[], [Ev_opened j to cid], [Ev_opened j to cid, Ev_closed j to cid]}"
proof -
  obtain k err evs0 where run: "opened_loop to' cid' 0 ls = ((k, err), evs0)"
    by (metis prod_cases3 prod.collapse)
  note outcome = opened_loop_outcome [OF run]
  show "listener_events j to cid evs = (if j < length ls then [Ev_opened j to cid] else [])"
    if "to' = to \<and> cid' = cid" "r = Inr u"
    using assms run outcome that
    by (auto simp: notify_connection_opened_def listener_events_opened split: option.splits)
  have "evs = map (\<lambda>i. Ev_opened i to' cid') [0..<(if err = None then k else Suc k)] @
      (if err = None then [] else rollback_loop to' cid' k)"
    using assms run outcome
    by (auto simp: notify_connection_opened_def split: option.splits simp del: upt_Suc)
  then show "\<not> (to' = to \<and> cid' = cid) \<Longrightarrow> listener_events j to cid evs = []"
    and "listener_events j to cid evs \<in> {[], [Ev_opened j to cid], [Ev_opened j to cid, Ev_closed j to cid]}"
    by (auto simp: listener_events_opened listener_events_rollback simp del: upt_Suc)
qed

text \<open>What the state of the guard says about the calls.\<close>

fun guard_events :: "nat \<Rightarrow> nat \<Rightarrow> string \<Rightarrow> nat \<Rightarrow> guard_state \<Rightarrow> listener_event list set" where
  "guard_events n j to cid Guard_none = {[]}"
| "guard_events n j to cid Guard_opened = {}"
| "guard_events n j to cid Guard_ok = {if j < n then [Ev_opened j to cid] else []}"
| "guard_events n j to cid Guard_canceled =
     {[], [Ev_opened j to cid], [Ev_opened j to cid, Ev_closed j to cid]}"
| "guard_events n j to cid Guard_closed =
     {if j < n then [Ev_opened j to cid, Ev_closed j to cid] else []}"

definition item_of :: "nat \<Rightarrow> string \<Rightarrow> nat \<Rightarrow> queue_item \<Rightarrow> bool" where
  "item_of g to cid item \<longleftrightarrow>
     (case qi_guard item of None \<Rightarrow> True | Some g' \<Rightarrow> (g' = g \<longleftrightarrow> qi_to item = to \<and> qi_id item = cid))"

lemma process_item_guard:
  assumes "item_of g to cid item"
    "listener_events j to cid (lw_log w) \<in> guard_events (length ls) j to cid (lw_guards w g)"
  shows "listener_events j to cid (lw_log (process_item ls stopping item w)) \<in>
    guard_events (length ls) j to cid (lw_guards (process_item ls stopping item w) g)"
proof (cases "qi_guard item")
  case None
  with assms(2) show ?thesis
    by (simp add: process_item_def notify_disconnected_def disconnected_loop_events)
next
  case (Some g')
  obtain r evs where notify: "notify_connection_opened ls (qi_to item) (qi_id item) = (r, evs)"
    by fastforce
  note opened = listener_events_notify_opened [OF notify]
  show ?thesis
  proof (cases "g' = g")
    case False
    then have other: "\<not> (qi_to item = to \<and> qi_id item = cid)"
      using assms(1) Some by (auto simp: item_of_def)
    with False assms(2) Some opened(2) show ?thesis
      by (auto simp: process_item_def notify guard_open_def guard_close_def notify_connection_closed_def
          listener_events_rollback data_notify_opened_failed_def split: sum.splits)
  next
    case True
    then have own: "qi_to item = to" "qi_id item = cid"
      using assms(1) Some by (auto simp: item_of_def)
    show ?thesis
    proof (cases "qi_for_open item")
      case opn: True
      show ?thesis
      proof (cases "lw_guards w g = Guard_none")
        case none: True
        then have "listener_events j to cid (lw_log w) = []" using assms(2) by simp
        with opn none True Some own opened(1) [of to cid _ j] opened(3) [of j to cid] show ?thesis
          by (cases r) (simp_all add: process_item_def notify [unfolded own] guard_open_def guard_commit_def
              guard_cancel_def data_notify_opened_failed_def)
      next
        case False
        with opn True Some assms(2) show ?thesis by (simp add: process_item_def guard_open_def)
      qed
    next
      case closed: False
      show ?thesis
      proof (cases "lw_guards w g = Guard_ok")
        case ok: True
        with assms(2) closed True Some own show ?thesis
          by (simp add: process_item_def guard_close_def notify_connection_closed_def listener_events_rollback)
      next
        case False
        with closed True Some assms(2) show ?thesis by (simp add: process_item_def guard_close_def)
      qed
    qed
  qed
qed

text \<open>C21. Behind the threads a listener is told about a connection at most once each way, and
  never of the closing of a connection it was not told of: whatever items the threads process, in
  whatever order and number, as long as the guard is that of one connection, the calls each
  listener gets for the connection are none, the opening, or the opening and then the closing; and
  once the guard is closed every listener has had both.\<close>

theorem listener_told_once:
  "\<forall>item\<in>set items. item_of g to cid item \<Longrightarrow>
   lw_guards w g = guard_init \<Longrightarrow> listener_events j to cid (lw_log w) = [] \<Longrightarrow>
   w' = fold (process_item ls stopping) items w \<Longrightarrow>
   listener_events j to cid (lw_log w') \<in>
     {[], [Ev_opened j to cid], [Ev_opened j to cid, Ev_closed j to cid]} \<and>
   (lw_guards w' g = Guard_closed \<longrightarrow> j < length ls \<longrightarrow>
     listener_events j to cid (lw_log w') = [Ev_opened j to cid, Ev_closed j to cid])"
proof -
  assume h: "\<forall>item\<in>set items. item_of g to cid item" "lw_guards w g = guard_init"
    "listener_events j to cid (lw_log w) = []" "w' = fold (process_item ls stopping) items w"
  have "listener_events j to cid (lw_log w) \<in> guard_events (length ls) j to cid (lw_guards w g)"
    using h(2,3) by (simp add: guard_init_def)
  then have "listener_events j to cid (lw_log w') \<in> guard_events (length ls) j to cid (lw_guards w' g)"
    unfolding h(4) using h(1)
    by (induction items arbitrary: w) (simp_all add: process_item_guard)
  then show ?thesis by (cases "lw_guards w' g") (auto split: if_splits)
qed

theorem listener_told_once_witness:
  "listener_events 0 ''u'' 7 (lw_log (fold (process_item [sample_listener True] False)
     [\<lparr>qi_guard = Some 1, qi_to = ''u'', qi_id = 7, qi_for_open = True\<rparr>,
      \<lparr>qi_guard = Some 1, qi_to = ''u'', qi_id = 7, qi_for_open = True\<rparr>,
      \<lparr>qi_guard = Some 1, qi_to = ''u'', qi_id = 7, qi_for_open = False\<rparr>]
     \<lparr>lw_guards = (\<lambda>_. guard_init), lw_log = [], lw_failed = []\<rparr>)) =
   [Ev_opened 0 ''u'' 7, Ev_closed 0 ''u'' 7]"
proof -
  let ?items = "[\<lparr>qi_guard = Some 1, qi_to = ''u'', qi_id = 7, qi_for_open = True\<rparr>,
      \<lparr>qi_guard = Some 1, qi_to = ''u'', qi_id = 7, qi_for_open = True\<rparr>,
      \<lparr>qi_guard = Some 1, qi_to = ''u'', qi_id = 7, qi_for_open = False\<rparr>]"
  let ?w = "\<lparr>lw_guards = (\<lambda>_. guard_init), lw_log = [], lw_failed = []\<rparr> :: listener_world"
  have h: "\<forall>item\<in>set ?items. item_of 1 ''u'' 7 item" "lw_guards ?w 1 = guard_init"
    "listener_events 0 ''u'' 7 (lw_log ?w) = []"
    by (simp_all add: item_of_def listener_events_def)
  have "lw_guards (fold (process_item [sample_listener True] False) ?items ?w) 1 = Guard_closed"
    by code_simp
  with listener_told_once [OF h refl, of "[sample_listener True]" False] show ?thesis by simp
qed

end
