(* ===== verification/Manager.thy ===== *)
theory Manager
  imports Connection_Base Listeners
begin

text \<open>
  The registry of the connections (\<open>connection_manager\<close>, \<open>connection_manager_base\<close>): which
  connections are open, by identifier and by the name of their user, and what it tells the
  listeners and the channel statistics. A connection is known here by its identifier (the address
  of the object), which also names its guard. The container is the list of the identifiers with
  the names they were inserted under, in the order of insertion, which is the order
  \<open>boost::multi_index\<close> keeps among equal names; the order of the whole container, which is
  hashed, is used by \<open>finish\<close> only.
\<close>

section \<open>The registry\<close>

text \<open>The listener is the threaded one when there are queues, the compound one otherwise. A
  failed assertion is recorded: the program ends there.\<close>

record manager =
  cm_connections :: "(nat \<times> string) list"
  cm_finished :: bool
  cm_filter :: "message_filter option"
  cm_stat :: "channels_stat option"
  cm_listeners :: "user_listener list"
  cm_queues :: "item_queues option"
  cm_log :: "listener_event list"
  cm_failed :: bool

definition manager_init :: "item_queues option \<Rightarrow> manager" where
  "manager_init queues = \<lparr>cm_connections = [], cm_finished = False, cm_filter = None, cm_stat = None,
     cm_listeners = [], cm_queues = queues, cm_log = [], cm_failed = False\<rparr>"

definition manager_start :: "nat \<Rightarrow> manager \<Rightarrow> manager" where
  "manager_start listener_threads m =
     (case cm_queues m of
        None \<Rightarrow> m
      | Some qs \<Rightarrow> m\<lparr>cm_queues := Some (threaded_init (cm_listeners m) listener_threads qs)\<rparr>)"

definition manager_add_listener :: "user_listener \<Rightarrow> manager \<Rightarrow> manager" where
  "manager_add_listener l m = m\<lparr>cm_listeners := add_connection_listener l (cm_listeners m)\<rparr>"

definition attach_message_filter :: "message_filter option \<Rightarrow> manager \<Rightarrow> manager" where
  "attach_message_filter flt m = m\<lparr>cm_filter := flt\<rparr>"

definition init_channels_stat :: "manager \<Rightarrow> manager" where
  "init_channels_stat m = (if cm_stat m = None then m\<lparr>cm_stat := Some []\<rparr> else m)"

definition manager_stat :: "bool \<Rightarrow> connection_base \<Rightarrow> manager \<Rightarrow> unit result \<times> manager" where
  "manager_stat add cb m =
     (case cm_stat m of
        None \<Rightarrow> (Inr (), m)
      | Some st \<Rightarrow> (case update_channels_stat add cb st of
            Inl e \<Rightarrow> (Inl e, m\<lparr>cm_failed := True\<rparr>)
          | Inr st' \<Rightarrow> (Inr (), m\<lparr>cm_stat := Some st'\<rparr>)))"

definition listener_opened :: "(string \<Rightarrow> nat) \<Rightarrow> string \<Rightarrow> nat \<Rightarrow> manager \<Rightarrow> unit result \<times> manager" where
  "listener_opened crc32 to cid m =
     (case cm_queues m of
        None \<Rightarrow> (case notify_connection_opened (cm_listeners m) to cid of
            (r, evs) \<Rightarrow> (r, m\<lparr>cm_log := cm_log m @ evs\<rparr>))
      | Some qs \<Rightarrow> (case threaded_opened_ex crc32 (cm_listeners m) to cid cid qs of
            Inl e \<Rightarrow> (Inl e, m\<lparr>cm_failed := True\<rparr>)
          | Inr qs' \<Rightarrow> (Inr (), m\<lparr>cm_queues := Some qs'\<rparr>)))"

definition listener_closed :: "(string \<Rightarrow> nat) \<Rightarrow> string \<Rightarrow> nat \<Rightarrow> manager \<Rightarrow> manager" where
  "listener_closed crc32 to cid m =
     (case cm_queues m of
        None \<Rightarrow> m\<lparr>cm_log := cm_log m @ notify_connection_closed (cm_listeners m) to cid\<rparr>
      | Some qs \<Rightarrow> (case threaded_closed_ex crc32 (cm_listeners m) to cid cid qs of
            Inl e \<Rightarrow> m\<lparr>cm_failed := True\<rparr>
          | Inr qs' \<Rightarrow> m\<lparr>cm_queues := Some qs'\<rparr>))"

definition fire_connection_opened ::
    "(string \<Rightarrow> nat) \<Rightarrow> nat \<Rightarrow> connection_base \<Rightarrow> manager \<Rightarrow> unit result \<times> manager" where
  "fire_connection_opened crc32 cid cb m =
     (case manager_stat True cb m of
        (Inl e, m1) \<Rightarrow> (Inl e, m1)
      | (Inr _, m1) \<Rightarrow> listener_opened crc32 (cb_name cb) cid m1)"

definition fire_connection_closed ::
    "(string \<Rightarrow> nat) \<Rightarrow> nat \<Rightarrow> connection_base \<Rightarrow> manager \<Rightarrow> manager" where
  "fire_connection_closed crc32 cid cb m =
     (case manager_stat False cb m of
        (Inl e, m1) \<Rightarrow> m1
      | (Inr _, m1) \<Rightarrow> listener_closed crc32 (cb_name cb) cid m1)"

definition fire_disconnected :: "(string \<Rightarrow> nat) \<Rightarrow> string \<Rightarrow> manager \<Rightarrow> unit result \<times> manager" where
  "fire_disconnected crc32 to m =
     (case cm_queues m of
        None \<Rightarrow> (case notify_disconnected (cm_listeners m) to of
            (r, evs) \<Rightarrow> (r, m\<lparr>cm_log := cm_log m @ evs\<rparr>))
      | Some qs \<Rightarrow> (case threaded_disconnected crc32 (cm_listeners m) to qs of
            Inl e \<Rightarrow> (Inl e, m\<lparr>cm_failed := True\<rparr>)
          | Inr qs' \<Rightarrow> (Inr (), m\<lparr>cm_queues := Some qs'\<rparr>)))"

definition manager_empty :: "manager \<Rightarrow> bool" where
  "manager_empty m \<longleftrightarrow> cm_connections m = []"

definition insert_connection ::
    "(string \<Rightarrow> nat) \<Rightarrow> nat \<Rightarrow> connection_base \<Rightarrow> manager \<Rightarrow> bool result \<times> manager" where
  "insert_connection crc32 cid cb m =
     (if cm_finished m then (Inr False, m)
      else if cid \<in> fst ` set (cm_connections m) then (Inl (Xiva_error ''same connection''), m)
      else (case fire_connection_opened crc32 cid cb
              (m\<lparr>cm_connections := cm_connections m @ [(cid, cb_name cb)]\<rparr>) of
          (Inl e, m') \<Rightarrow> (Inl e, m')
        | (Inr _, m') \<Rightarrow> (Inr True, m')))"

definition remove_connection ::
    "(string \<Rightarrow> nat) \<Rightarrow> nat \<Rightarrow> connection_base \<Rightarrow> manager \<Rightarrow> manager" where
  "remove_connection crc32 cid cb m =
     (if cm_finished m then m
      else fire_connection_closed crc32 cid cb
        (m\<lparr>cm_connections := filter (\<lambda>p. fst p \<noteq> cid) (cm_connections m)\<rparr>))"

section \<open>What the operations change\<close>

lemmas manager_fire_defs = fire_connection_opened_def fire_connection_closed_def fire_disconnected_def
  manager_stat_def listener_opened_def listener_closed_def

lemma fire_opened_keeps:
  "fire_connection_opened crc32 cid cb m = (r, m') \<Longrightarrow>
   cm_connections m' = cm_connections m \<and> cm_finished m' = cm_finished m \<and>
   cm_listeners m' = cm_listeners m \<and> cm_filter m' = cm_filter m"
  by (auto simp: manager_fire_defs split: option.splits sum.splits prod.splits)

lemma fire_closed_keeps:
  "cm_connections (fire_connection_closed crc32 cid cb m) = cm_connections m"
  "cm_finished (fire_connection_closed crc32 cid cb m) = cm_finished m"
  "cm_listeners (fire_connection_closed crc32 cid cb m) = cm_listeners m"
  "cm_filter (fire_connection_closed crc32 cid cb m) = cm_filter m"
  by (auto simp: manager_fire_defs split: option.splits sum.splits prod.splits)

definition registered :: "nat \<Rightarrow> manager \<Rightarrow> bool" where
  "registered cid m \<longleftrightarrow> cid \<in> fst ` set (cm_connections m)"

lemma insert_connection_outcome:
  assumes "insert_connection crc32 cid cb m = (r, m')"
  shows "r = Inr True \<Longrightarrow> \<not> cm_finished m' \<and> registered cid m'"
    "r = Inr False \<Longrightarrow> cm_finished m \<and> m' = m"
    "cm_finished m' = cm_finished m"
    "registered i m' \<longleftrightarrow> registered i m \<or> i = cid \<and> \<not> cm_finished m"
    "distinct (map fst (cm_connections m)) \<Longrightarrow> distinct (map fst (cm_connections m'))"
  using assms fire_opened_keeps [of crc32 cid cb "m\<lparr>cm_connections := cm_connections m @ [(cid, cb_name cb)]\<rparr>"]
  by (auto simp: insert_connection_def registered_def split: if_splits prod.splits sum.splits)

lemma remove_connection_outcome:
  "cm_finished (remove_connection crc32 cid cb m) = cm_finished m"
  "registered i (remove_connection crc32 cid cb m) \<longleftrightarrow> registered i m \<and> (i \<noteq> cid \<or> cm_finished m)"
  "distinct (map fst (cm_connections m)) \<Longrightarrow> distinct (map fst (cm_connections (remove_connection crc32 cid cb m)))"
  by (auto simp: remove_connection_def registered_def fire_closed_keeps distinct_map_filter)

end
