(* ===== verification/Handlers.thy ===== *)
theory Handlers
  imports Queues
begin

text \<open>
  The application's response handler and the invokers that call it
  (\<open>include/xiva/response_handler.hpp\<close>, \<open>url_response_handler\<close>, \<open>threaded_handler_invoker\<close>;
  the invoker without threads is in the theory of the connection, which it calls back). A handler
  is a record of functions that may throw. The invoker with threads moves the request into a
  holder, puts it into a queue with its connection and answers from a worker thread through the
  strand.
\<close>

record response_handler =
  rh_threaded :: bool
  rh_has_enough_data :: "request_impl \<Rightarrow> bool result"
  rh_receiver :: "request_impl \<Rightarrow> string result"
  rh_handle_response :: "request_impl \<Rightarrow> response_impl \<Rightarrow> response_impl result"

section \<open>The handler that reads the user from the URL\<close>

definition rfind :: "char \<Rightarrow> string \<Rightarrow> nat option" where
  "rfind c s = (if c \<in> set s then Some (length s - 1 - length (takeWhile (\<lambda>x. x \<noteq> c) (rev s))) else None)"

text \<open>A range whose end stands before its begin has a negative size, which \<open>urldecode\<close> asks the
  string to reserve: \<open>std::length_error\<close>.\<close>

definition url_receiver :: "string \<Rightarrow> string result" where
  "url_receiver url =
     (let s = (case rfind (CHR ''/'') url of Some spos \<Rightarrow> spos + 1 | None \<Rightarrow> 0);
          q = (case rfind (CHR ''?'') url of Some qpos \<Rightarrow> qpos | None \<Rightarrow> length url) in
      if q < s then Inl Length_error
      else let res = urldecode (take (q - s) (drop s url)) in
        if res = [] then Inl (Http_error not_found) else Inr res)"

definition url_threaded :: bool where
  "url_threaded = False"

definition url_has_enough_data :: "request_impl \<Rightarrow> bool" where
  "url_has_enough_data req \<longleftrightarrow> ''/'' \<noteq> rq_uri req"

definition url_handle_response :: "request_impl \<Rightarrow> response_impl \<Rightarrow> response_impl" where
  "url_handle_response req resp = content_type ''text/plain'' resp"

definition url_response_handler :: response_handler where
  "url_response_handler = \<lparr>rh_threaded = url_threaded,
     rh_has_enough_data = (\<lambda>req. Inr (url_has_enough_data req)),
     rh_receiver = (\<lambda>req. url_receiver (rq_uri req)),
     rh_handle_response = (\<lambda>req resp. Inr (url_handle_response req resp))\<rparr>"

lemma rfind_last: "c \<notin> set t \<Longrightarrow> rfind c (s @ c # t) = Some (length s)"
proof -
  assume "c \<notin> set t"
  then have "takeWhile (\<lambda>x. x \<noteq> c) (rev t @ c # rev s) = rev t"
    by (intro takeWhile_stop) auto
  then show ?thesis by (simp add: rfind_def)
qed

lemma rfind_None: "c \<notin> set s \<Longrightarrow> rfind c s = None"
  by (simp add: rfind_def)

lemma urlencode_no_slash: "CHR ''/'' \<notin> set (urlencode name)" "CHR ''?'' \<notin> set (urlencode name)"
  by (rule urlencode_not_in; simp)+

text \<open>The user is the last segment of the path: when the URL is any directory, a slash, the
  encoded name and possibly a query without slashes and question marks, the handler finds exactly
  the name; a slash in the query makes it throw a length error instead.\<close>

theorem url_receiver_name:
  "name \<noteq> [] \<Longrightarrow> CHR ''?'' \<notin> set dir \<Longrightarrow> CHR ''?'' \<notin> set args \<Longrightarrow>
   url_receiver (dir @ ''/'' @ urlencode name @ ''?'' @ args) =
     (if CHR ''/'' \<in> set args then Inl Length_error else Inr name) \<and>
   url_receiver (dir @ ''/'' @ urlencode name) = Inr name"
proof -
  assume h: "name \<noteq> []" "CHR ''?'' \<notin> set dir" "CHR ''?'' \<notin> set args"
  let ?n = "urlencode name" and ?url = "dir @ ''/'' @ urlencode name @ ''?'' @ args"
  have q: "rfind (CHR ''?'') ?url = Some (length dir + 1 + length ?n)"
    using rfind_last [OF h(3), of "dir @ ''/'' @ ?n"] by simp
  have plain: "url_receiver (dir @ ''/'' @ ?n) = Inr name"
  proof -
    have "rfind (CHR ''/'') (dir @ ''/'' @ ?n) = Some (length dir)"
      using rfind_last [OF urlencode_no_slash(1) [of name], of dir] by simp
    moreover have "rfind (CHR ''?'') (dir @ ''/'' @ ?n) = None"
      using h(2) urlencode_no_slash(2) [of name] by (intro rfind_None) simp
    ultimately show ?thesis using h(1) by (simp add: url_receiver_def urldecode_urlencode_inv)
  qed
  show ?thesis
  proof (cases "CHR ''/'' \<in> set args")
    case True
    then obtain a b where ab: "args = a @ CHR ''/'' # b" "CHR ''/'' \<notin> set b"
      by (metis split_list_last)
    then have "rfind (CHR ''/'') ?url = Some (length dir + 1 + length ?n + 1 + length a)"
      using rfind_last [OF ab(2), of "dir @ ''/'' @ ?n @ ''?'' @ a"] by simp
    with q True plain show ?thesis by (simp add: url_receiver_def)
  next
    case False
    then have "rfind (CHR ''/'') ?url = Some (length dir)"
      using rfind_last [of "CHR ''/''" "?n @ ''?'' @ args" dir] urlencode_no_slash(1) [of name] by simp
    with q False plain h(1) show ?thesis by (simp add: url_receiver_def urldecode_urlencode_inv)
  qed
qed

theorem url_receiver_name_witness:
  "url_receiver ''/swan?id=a/b'' = Inl Length_error \<and> url_receiver ''/swan'' = Inr ''swan''"
proof -
  have "''swan'' \<noteq> []" "CHR ''?'' \<notin> set []" "CHR ''?'' \<notin> set ''id=a/b''" by simp_all
  note h = url_receiver_name [OF this]
  moreover have "urlencode ''swan'' = ''swan''" by code_simp
  ultimately show ?thesis by simp
qed

section \<open>The invoker with threads\<close>

text \<open>A request on its way through a worker thread. \<open>what\<close> is the text of an exception.\<close>

record request_holder =
  hd_req :: request_impl
  hd_resp :: response_impl
  hd_error_msg :: string
  hd_http_code :: nat

definition finish_error_msg :: string where
  "finish_error_msg = ''finish''"

definition holder_init :: request_holder where
  "holder_init = \<lparr>hd_req = request_empty, hd_resp = response_init, hd_error_msg = [], hd_http_code = 0\<rparr>"

definition holder_attach :: "request_impl \<Rightarrow> response_impl \<Rightarrow> request_holder \<Rightarrow>
    request_holder \<times> request_impl \<times> response_impl" where
  "holder_attach req resp h =
     (case request_swap (hd_req h) req of (req1, req2) \<Rightarrow>
        case response_swap (hd_resp h) resp of (resp1, resp2) \<Rightarrow>
          (h\<lparr>hd_req := req1, hd_resp := resp1\<rparr>, req2, resp2))"

definition set_error_msg :: "string \<Rightarrow> request_holder \<Rightarrow> request_holder" where
  "set_error_msg msg h = h\<lparr>hd_error_msg := msg\<rparr>"

definition set_http_error_code :: "nat \<Rightarrow> request_holder \<Rightarrow> request_holder" where
  "set_http_error_code code h = h\<lparr>hd_http_code := code\<rparr>"

text \<open>Which of the two calls of the connection a holder makes.\<close>

datatype answer =
    Answer_handled request_impl response_impl
  | Answer_errors nat string

definition holder_handled :: "request_holder \<Rightarrow> answer" where
  "holder_handled h =
     (if hd_http_code h = 0 \<and> hd_error_msg h = [] then Answer_handled (hd_req h) (hd_resp h)
      else Answer_errors (hd_http_code h) (hd_error_msg h))"

definition holder_error :: "(xiva_error \<Rightarrow> string) \<Rightarrow> xiva_error \<Rightarrow> request_holder \<Rightarrow> request_holder" where
  "holder_error what e h =
     (case e of Http_error code \<Rightarrow> set_http_error_code code h | _ \<Rightarrow> set_error_msg (what e) h)"

text \<open>One item in \<open>thread_func\<close>: the holder afterwards and the name given to the connection.\<close>

definition process_request :: "(xiva_error \<Rightarrow> string) \<Rightarrow> response_handler \<Rightarrow> request_holder \<Rightarrow>
    request_holder \<times> string option" where
  "process_request what rh h =
     (case rh_receiver rh (hd_req h) of
        Inl e \<Rightarrow> (holder_error what e h, None)
      | Inr receiver \<Rightarrow>
          (case rh_handle_response rh (hd_req h) (hd_resp h) of
             Inl e \<Rightarrow> (holder_error what e h, Some receiver)
           | Inr resp \<Rightarrow> (h\<lparr>hd_resp := resp\<rparr>, Some receiver)))"

type_synonym holder_queue = "(request_holder \<times> nat) threaded_queue"

definition threaded_invoke_handler :: "response_handler \<Rightarrow> nat \<Rightarrow> request_impl \<Rightarrow> response_impl \<Rightarrow> holder_queue \<Rightarrow>
    unit result \<times> holder_queue" where
  "threaded_invoke_handler rh cid req resp q =
     (case rh_has_enough_data rh req of
        Inl e \<Rightarrow> (Inl e, q)
      | Inr False \<Rightarrow> (Inl (Http_error forbidden), q)
      | Inr True \<Rightarrow>
          (case holder_attach req resp holder_init of (h, _, _) \<Rightarrow>
             (case queue_push (h, cid) q of
                (False, q') \<Rightarrow> (Inl (Runtime_error finish_error_msg), q')
              | (True, q') \<Rightarrow> (Inr (), q'))))"

text \<open>The state of the invoker: the queue, the items the workers hold, and the answers handed to
  the strand, each with its connection.\<close>

record invoker =
  iv_queue :: holder_queue
  iv_working :: "(request_holder \<times> nat) list"
  iv_answers :: "(nat \<times> answer) list"

definition invoker_init :: invoker where
  "invoker_init = \<lparr>iv_queue = queue_init, iv_working = [], iv_answers = []\<rparr>"

definition worker_pop :: "invoker \<Rightarrow> invoker" where
  "worker_pop iv =
     (case queue_pop (iv_queue iv) of
        Some (Some item, q) \<Rightarrow> iv\<lparr>iv_queue := q, iv_working := iv_working iv @ [item]\<rparr>
      | _ \<Rightarrow> iv)"

text \<open>The worker that holds the item at position \<open>k\<close> is done with it.\<close>

definition worker_done :: "(xiva_error \<Rightarrow> string) \<Rightarrow> response_handler \<Rightarrow> nat \<Rightarrow> invoker \<Rightarrow> invoker" where
  "worker_done what rh k iv =
     (if k < length (iv_working iv) then
        (case iv_working iv ! k of (h, cid) \<Rightarrow>
           iv\<lparr>iv_working := take k (iv_working iv) @ drop (Suc k) (iv_working iv),
              iv_answers := iv_answers iv @ [(cid, holder_handled (fst (process_request what rh h)))]\<rparr>)
      else iv)"

definition invoker_finish :: "invoker \<Rightarrow> invoker" where
  "invoker_finish iv = iv\<lparr>iv_queue := queue_finish (iv_queue iv)\<rparr>"

definition invoker_wait_for_complete :: "invoker \<Rightarrow> invoker" where
  "invoker_wait_for_complete iv =
     (case queue_swap_data [] (queue_finish (iv_queue iv)) of (unhandled, q) \<Rightarrow>
        iv\<lparr>iv_queue := q, iv_answers := iv_answers iv @
          map (\<lambda>(h, cid). (cid, holder_handled (set_error_msg finish_error_msg h))) unhandled\<rparr>)"

section \<open>Every accepted request is answered once\<close>

datatype invoker_op =
    Iv_invoke nat request_impl response_impl
  | Iv_pop
  | Iv_done nat
  | Iv_finish
  | Iv_wait

text \<open>A history of the invoker, with the connections whose request was accepted.\<close>

fun invoker_run :: "(xiva_error \<Rightarrow> string) \<Rightarrow> response_handler \<Rightarrow> invoker_op list \<Rightarrow> invoker \<Rightarrow>
    nat list \<times> invoker" where
  "invoker_run what rh [] iv = ([], iv)"
| "invoker_run what rh (Iv_invoke cid req resp # ops) iv =
     (case threaded_invoke_handler rh cid req resp (iv_queue iv) of (r, q) \<Rightarrow>
        (case invoker_run what rh ops (iv\<lparr>iv_queue := q\<rparr>) of (accepted, iv') \<Rightarrow>
           ((if r = Inr () then [cid] else []) @ accepted, iv')))"
| "invoker_run what rh (Iv_pop # ops) iv = invoker_run what rh ops (worker_pop iv)"
| "invoker_run what rh (Iv_done k # ops) iv = invoker_run what rh ops (worker_done what rh k iv)"
| "invoker_run what rh (Iv_finish # ops) iv = invoker_run what rh ops (invoker_finish iv)"
| "invoker_run what rh (Iv_wait # ops) iv = invoker_run what rh ops (invoker_wait_for_complete iv)"

text \<open>The connections whose requests the invoker has: waiting, in a worker, or answered.\<close>

definition invoker_has :: "invoker \<Rightarrow> nat multiset" where
  "invoker_has iv = mset (map snd (tq_items (iv_queue iv))) + mset (map snd (iv_working iv)) +
     mset (map fst (iv_answers iv))"

lemma worker_pop_has: "invoker_has (worker_pop iv) = invoker_has iv"
  by (auto simp: worker_pop_def invoker_has_def queue_pop_def neq_Nil_conv split: if_splits)

lemma mset_remove_nth: "k < length xs \<Longrightarrow> mset (take k xs @ drop (Suc k) xs) + {#xs ! k#} = mset xs"
  by (metis add_mset_add_single id_take_nth_drop mset.simps(2) mset_append union_mset_add_mset_right)

lemma worker_done_has: "invoker_has (worker_done what rh k iv) = invoker_has iv"
proof (cases "k < length (iv_working iv)")
  case True
  obtain h cid where item: "iv_working iv ! k = (h, cid)" by fastforce
  have "mset (map snd (take k (iv_working iv) @ drop (Suc k) (iv_working iv))) + {#cid#} =
      mset (map snd (iv_working iv))"
    using arg_cong [OF mset_remove_nth [OF True], of "image_mset snd"] item by simp
  with True item show ?thesis by (simp add: worker_done_def invoker_has_def)
next
  case False
  then show ?thesis by (simp add: worker_done_def)
qed

lemma invoker_finish_has: "invoker_has (invoker_finish iv) = invoker_has iv"
  by (simp add: invoker_finish_def invoker_has_def queue_finish_def)

lemma invoker_wait_has: "invoker_has (invoker_wait_for_complete iv) = invoker_has iv"
proof -
  have "map fst (map (\<lambda>(h, cid). (cid, f h)) xs) = map snd xs" for f :: "request_holder \<Rightarrow> answer" and xs :: "(request_holder \<times> nat) list"
    by (induction xs) auto
  then show ?thesis
    by (simp add: invoker_wait_for_complete_def invoker_has_def queue_swap_data_def queue_finish_def
        del: map_map)
qed

lemma invoke_has:
  assumes "threaded_invoke_handler rh cid req resp (iv_queue iv) = (r, q)"
  shows "invoker_has (iv\<lparr>iv_queue := q\<rparr>) = invoker_has iv + (if r = Inr () then {#cid#} else {#})"
  using assms
  by (auto simp: threaded_invoke_handler_def invoker_has_def queue_push_def
      split: sum.splits bool.splits prod.splits if_splits)

lemma invoker_run_conserves:
  "invoker_run what rh ops iv = (accepted, iv') \<Longrightarrow> invoker_has iv' = invoker_has iv + mset accepted"
proof (induction ops arbitrary: iv accepted iv')
  case (Cons op ops)
  show ?case
  proof (cases op)
    case (Iv_invoke cid req resp)
    obtain r q where call: "threaded_invoke_handler rh cid req resp (iv_queue iv) = (r, q)" by fastforce
    obtain a iv1 where run: "invoker_run what rh ops (iv\<lparr>iv_queue := q\<rparr>) = (a, iv1)" by fastforce
    from Cons.prems have "accepted = (if r = Inr () then [cid] else []) @ a" "iv' = iv1"
      by (simp_all add: Iv_invoke call run)
    with Cons.IH [OF run] invoke_has [OF call] show ?thesis by simp
  qed (use Cons worker_pop_has worker_done_has invoker_finish_has invoker_wait_has in \<open>fastforce+\<close>)
qed simp



text \<open>An exception without a text counts as success: when the handler throws an exception
  that is not an HTTP error and whose text is empty, the connection is told that the request was
  handled, with the response as it was before.\<close>

theorem empty_what_is_success:
  "rh_receiver rh (hd_req h) = Inr receiver \<Longrightarrow> rh_handle_response rh (hd_req h) (hd_resp h) = Inl e \<Longrightarrow>
   \<forall>code. e \<noteq> Http_error code \<Longrightarrow> hd_http_code h = 0 \<Longrightarrow> hd_error_msg h = [] \<Longrightarrow>
   holder_handled (fst (process_request what rh h)) =
     (if what e = [] then Answer_handled (hd_req h) (hd_resp h) else Answer_errors 0 (what e))"
  by (cases e) (simp_all add: process_request_def holder_error_def set_error_msg_def holder_handled_def)

theorem empty_what_is_success_witness:
  "holder_handled (fst (process_request (\<lambda>_. [])
     (url_response_handler\<lparr>rh_receiver := (\<lambda>_. Inr ''u''), rh_handle_response := (\<lambda>_ _. Inl (Runtime_error []))\<rparr>)
     holder_init)) = Answer_handled request_empty response_init"
proof -
  let ?rh = "url_response_handler\<lparr>rh_receiver := (\<lambda>_. Inr ''u''), rh_handle_response := (\<lambda>_ _. Inl (Runtime_error []))\<rparr>"
  have h: "rh_receiver ?rh (hd_req holder_init) = Inr ''u''"
    "rh_handle_response ?rh (hd_req holder_init) (hd_resp holder_init) = Inl (Runtime_error [])"
    "\<forall>code. Runtime_error [] \<noteq> Http_error code" "hd_http_code holder_init = 0" "hd_error_msg holder_init = []"
    by (simp_all add: holder_init_def)
  from empty_what_is_success [OF h, of "\<lambda>_. []"] show ?thesis by (simp add: holder_init_def)
qed

end
