(* ===== verification/Request_Checker.thy ===== *)
theory Request_Checker
  imports Request
begin

text \<open>
  The match condition that decides, while a request is being read, whether it is complete
  (\<open>include/details/request_checker.hpp\<close>). It is called with everything read so far and
  returns a position in it and whether to stop reading. A position is the number of characters
  before it; not complete is \<open>(0, False)\<close>.
\<close>

section \<open>The checker\<close>

function check_headers :: "nat \<Rightarrow> nat \<Rightarrow> line_reader \<Rightarrow> nat \<times> bool" where
  "check_headers sz read_body_ahead reader =
     (case read_line reader of
        None \<Rightarrow> (0, False)
      | Some (line, end_line, reader') \<Rightarrow>
          (let res = check_read_body_ahead line;
               ahead = (if res > 0 then res else read_body_ahead)
           in case find_headers_break end_line (lr_begin reader') of
                Some break_ptr \<Rightarrow>
                  if ahead = 0 then (sz - length (end_line @ lr_begin reader'), True)
                  else if length break_ptr \<ge> ahead then (sz, True)
                  else check_headers sz ahead reader'
              | None \<Rightarrow> check_headers sz ahead reader'))"
  by pat_completeness auto
termination
  by (relation "measure (\<lambda>(sz, ahead, reader). length (lr_begin reader))")
    (auto dest: read_line_shorter)

declare check_headers.simps [simp del]

definition http_request_checker :: "string \<Rightarrow> (nat \<times> bool) result" where
  "http_request_checker s =
     (case read_line (line_reader s) of
        None \<Rightarrow> Inr (0, False)
      | Some (line, end_line, reader) \<Rightarrow>
          if end_line \<noteq> []
          then (case helper_parse_request_line line of
                  Inl e \<Rightarrow> Inl e
                | Inr _ \<Rightarrow> Inr (check_headers (length s) 0 reader))
          else Inr (0, False))"

definition min_size :: nat where
  "min_size = length (''get / http/1.1'' @ [CHR 0x0A, CHR 0x0A])"

definition policy_file_request :: string where
  "policy_file_request = ''<policy-file-request/>'' @ [CHR 0x00]"

definition request_checker :: "int \<Rightarrow> string \<Rightarrow> nat \<times> bool" where
  "request_checker max_size s =
     (if length s < min_size then (0, False)
      else if int (length s) > max_size then (length s, True)
      else if hd s = CHR ''<'' then
        (if length s < length policy_file_request then (0, False) else (length s, True))
      else (case http_request_checker s of Inl e \<Rightarrow> (length s, True) | Inr r \<Rightarrow> r))"

lemma length_constants [simp]: "min_size = 16" "length policy_file_request = 23"
  by (simp_all add: min_size_def policy_file_request_def)

section \<open>Reading lines of an incomplete buffer\<close>

lemma read_line_empty [simp]: "lr_begin r = [] \<Longrightarrow> read_line r = None"
  by (simp add: read_line_def)

lemma check_headers_empty: "lr_begin r = [] \<Longrightarrow> check_headers n k r = (0, False)"
  by (subst check_headers.simps) simp

lemma find_break_Nil [simp]: "find_headers_break [] after = None"
  by (simp add: find_headers_break_def nonstd_headers_end_def)

text \<open>A line whose end has not arrived yet.\<close>

lemma read_line_unfinished:
  assumes "\<forall>c\<in>set s. \<not> is_line_end c" "s \<noteq> []" "lr_begin r = s"
  shows "read_line r = Some (s, [], \<lparr>lr_begin = [], lr_multiline = False\<rparr>)"
proof -
  have "takeWhile is_not_line_end s = s" "dropWhile is_not_line_end s = []"
    using assms(1) by (auto simp: is_not_line_end_def takeWhile_eq_all_conv)
  then have "line_part s = s" "end_part s = []" "next_part s = []"
    by (simp_all only: line_part_def end_part_def next_part_def) simp_all
  then show ?thesis
    using assms(2,3) unfolding read_line_def by (subst read_line_loop_eq) simp
qed

lemma check_unfinished:
  assumes "\<forall>c\<in>set s. \<not> is_line_end c" "lr_begin r = s"
  shows "check_headers n k r = (0, False)"
proof (cases "s = []")
  case True
  with assms(2) show ?thesis by (simp add: check_headers_empty)
next
  case False
  with assms have "read_line r = Some (s, [], \<lparr>lr_begin = [], lr_multiline = False\<rparr>)"
    by (intro read_line_unfinished)
  then show ?thesis by (subst check_headers.simps) (simp add: check_headers_empty Let_def)
qed

lemma prefix_split:
  assumes "p @ q = a @ b"
  obtains r where "a = p @ r" | r where "r \<noteq> []" "p = a @ r" "b = r @ q"
proof -
  from assms have "length p \<le> length a \<or> (\<exists>r. r \<noteq> [] \<and> p = a @ r \<and> r @ q = b)"
    by (auto simp: append_eq_append_conv2)
  then show thesis
  proof
    assume "length p \<le> length a"
    with assms have "a = p @ drop (length p) a"
      by (metis append_eq_append_conv_if append_take_drop_id)
    then show thesis by (rule that(1))
  next
    assume "\<exists>r. r \<noteq> [] \<and> p = a @ r \<and> r @ q = b"
    then show thesis using that(2) by auto
  qed
qed

lemma find_break_partial:
  assumes "wf_eol eol" "e @ q = eol @ eol" "q \<noteq> []"
  shows "find_headers_break e [] = None"
proof -
  define n where "n = length e"
  have n1: "e = take n (eol @ eol)"
    unfolding n_def assms(2) [symmetric] by simp
  have "length e + length q = length (eol @ eol)"
    using arg_cong [OF assms(2), of length] by simp
  moreover have "0 < length q" using assms(3) by blast
  ultimately have "n < length (eol @ eol)"
    unfolding n_def by linarith
  note n = n1 this
  from assms(1) consider "eol = crlf" | "eol = [CHR 0x0A]" by (auto simp: wf_eol_def)
  then show ?thesis
  proof cases
    case 1
    with n(2) have "n = 0 \<or> n = 1 \<or> n = 2 \<or> n = 3" by (simp add: crlf_def) arith
    then show ?thesis
      unfolding n(1) 1 by (elim disjE) (simp_all add: crlf_def find_headers_break_def
          nonstd_headers_end_def headers_end_def starts_with_def eval_nat_numeral)
  next
    case 2
    with n(2) have "n = 0 \<or> n = 1" by (simp, arith)
    then show ?thesis
      unfolding n(1) 2 by (elim disjE) (simp_all add: find_headers_break_def nonstd_headers_end_def)
  qed
qed

lemma check_partial_headers:
  assumes "wf_eol eol"
  shows "\<forall>h\<in>set hs. wf_header h \<Longrightarrow> hs \<noteq> [] \<Longrightarrow> p @ q = render_headers eol hs @ eol \<Longrightarrow> q \<noteq> [] \<Longrightarrow>
    lr_begin r = p \<Longrightarrow> check_headers n k r = (0, False)"
proof (induction hs arbitrary: p r k)
  case (Cons h hs)
  note line = render_header_line [of h] and eol = wf_eol_props [OF assms]
  have h: "wf_header h" using Cons.prems by simp
  let ?rest = "render_headers eol hs @ eol"
  have "p @ q = render_header h @ eol @ ?rest"
    using Cons.prems(3) by (simp add: render_headers_Cons)
  then show ?case
  proof (cases rule: prefix_split)
    case (1 t)
    then have "\<forall>c\<in>set p. \<not> is_line_end c" using line(1) [OF h] by simp
    then show ?thesis using Cons.prems(5) by (rule check_unfinished)
  next
    case (2 e)
    have partial: ?thesis if "e @ q' = eol @ eol" "q' \<noteq> []" for q'
    proof -
      have "set e \<subseteq> set eol" using arg_cong [OF that(1), of set] by auto
      then have "read_line r = Some (render_header h, e, \<lparr>lr_begin = [], lr_multiline = False\<rparr>)"
        using 2 eol(2) Cons.prems(5) by (intro read_line_simple line(1) [OF h]) auto
      then show ?thesis
        using find_break_partial [OF assms that]
        by (subst check_headers.simps) (simp add: Let_def check_headers_empty)
    qed
    show ?thesis
    proof (cases "hs = []")
      case True
      with 2 partial [of q] Cons.prems(4) show ?thesis by (simp add: render_headers_def)
    next
      case False
      then obtain g gs where hs: "hs = g # gs" "wf_header g" using Cons.prems(1) by (cases hs) auto
      from 2(3) have "e @ q = eol @ ?rest" by simp
      then show ?thesis
      proof (cases rule: prefix_split)
        case (1 t)
        then have "e @ t @ eol = eol @ eol" by simp
        with eol(1) show ?thesis by (intro partial [of "t @ eol"]) auto
      next
        case inner: (2 e')
        have "hd e' = hd ?rest" using inner by (cases e') auto
        then have "\<not> is_line_end (hd e') \<and> \<not> is_blank (hd e')"
          using render_header_line(2,3) [OF hs(2)] by (simp add: hs(1) render_headers_Cons)
        then have "read_line r = Some (render_header h, eol, \<lparr>lr_begin = e', lr_multiline = False\<rparr>)"
          using 2 inner eol Cons.prems(5) by (intro read_line_simple line(1) [OF h]) auto
        moreover have "check_headers n k' \<lparr>lr_begin = e', lr_multiline = False\<rparr> = (0, False)" for k'
          using Cons.prems inner False by (intro Cons.IH [of e']) auto
        ultimately show ?thesis
          by (subst check_headers.simps) (simp add: Let_def eol(4))
      qed
    qed
  qed
qed simp

lemma http_check_request_line:
  assumes "wf_uri uri" "\<forall>c\<in>set el. is_line_end c" "el \<noteq> []"
    "rest = [] \<or> \<not> is_line_end (hd rest) \<and> \<not> is_blank (hd rest)"
    "s = (''GET '' @ uri @ '' HTTP/1.1'') @ el @ rest"
  shows "http_request_checker s =
    Inr (check_headers (length s) 0 \<lparr>lr_begin = rest, lr_multiline = False\<rparr>)"
proof -
  have "read_line (line_reader s) =
      Some (''GET '' @ uri @ '' HTTP/1.1'', el, \<lparr>lr_begin = rest, lr_multiline = False\<rparr>)"
    using assms(2-5) by (intro read_line_simple request_line_no_end [OF assms(1)])
      (auto simp: line_reader_def)
  then show ?thesis
    using assms(3) helper_parse_rendered_line [OF assms(1)]
    by (simp add: http_request_checker_def)
qed

lemma http_check_partial:
  assumes "wf_eol eol" "wf_uri uri" "hs \<noteq> []" "\<forall>h\<in>set hs. wf_header h"
    "p @ q = render_request eol uri hs []" "q \<noteq> []"
  shows "http_request_checker p = Inr (0, False)"
proof -
  let ?line = "''GET '' @ uri @ '' HTTP/1.1''"
  let ?rest = "render_headers eol hs @ eol"
  note eol = wf_eol_props [OF assms(1)]
  from assms(5) have "p @ q = ?line @ eol @ ?rest" by (simp add: render_request_def)
  then show ?thesis
  proof (cases rule: prefix_split)
    case (1 t)
    then have no: "\<forall>c\<in>set p. \<not> is_line_end c"
      using request_line_no_end [OF assms(2)] by (metis Un_iff set_append)
    show ?thesis
    proof (cases "p = []")
      case True
      then show ?thesis by (simp add: http_request_checker_def line_reader_def)
    next
      case False
      with no read_line_unfinished [of p "line_reader p"] show ?thesis
        by (auto simp: http_request_checker_def line_reader_def)
    qed
  next
    case (2 e)
    from 2(3) have "e @ q = eol @ ?rest" by simp
    then show ?thesis
    proof (cases rule: prefix_split)
      case (1 t)
      with eol(2) have "\<forall>c\<in>set e. is_line_end c" by simp
      then show ?thesis
        using 2 http_check_request_line [OF assms(2), of e "[]" p] by (simp add: check_headers_empty)
    next
      case inner: (2 e')
      obtain g gs where hs: "hs = g # gs" "wf_header g" using assms(3,4) by (cases hs) auto
      have "hd e' = hd ?rest" using inner by (cases e') auto
      then have "\<not> is_line_end (hd e') \<and> \<not> is_blank (hd e')"
        using render_header_line(2,3) [OF hs(2)] by (simp add: hs(1) render_headers_Cons)
      moreover have "check_headers (length p) 0 \<lparr>lr_begin = e', lr_multiline = False\<rparr> = (0, False)"
        using assms inner by (intro check_partial_headers [OF assms(1), of hs e' q]) auto
      ultimately show ?thesis
        using 2 inner http_check_request_line [OF assms(2) eol(2,1), of e' p] by simp
    qed
  qed
qed

lemma hd_prefix_request:
  assumes "p @ q = render_request eol uri hs body" "p \<noteq> []"
  shows "hd p \<noteq> CHR ''<''"
proof -
  have "hd p = CHR ''G''" using assms by (cases p) (auto simp: render_request_def)
  then show ?thesis by simp
qed

text \<open>C27. Reading continues while the headers are incomplete: on every proper prefix of the header
  section of a well-formed request (wherever the network cuts it) the checker asks for more
  data, as long as the size limit is kept.\<close>

theorem checker_waits_for_headers:
  "wf_eol eol \<Longrightarrow> wf_uri uri \<Longrightarrow> hs \<noteq> [] \<Longrightarrow> \<forall>h\<in>set hs. wf_header h \<Longrightarrow>
   p @ q = render_request eol uri hs [] \<Longrightarrow> q \<noteq> [] \<Longrightarrow> int (length p) \<le> max_size \<Longrightarrow>
   request_checker max_size p = (0, False)"
proof -
  assume h: "wf_eol eol" "wf_uri uri" "hs \<noteq> []" "\<forall>h\<in>set hs. wf_header h"
    "p @ q = render_request eol uri hs []" "q \<noteq> []" "int (length p) \<le> max_size"
  show ?thesis
  proof (cases "length p < 16")
    case False
    then have "p \<noteq> []" by auto
    then have "hd p \<noteq> CHR ''<''" by (rule hd_prefix_request [OF h(5)])
    with False h(7) http_check_partial [OF h(1-6)] show ?thesis
      by (simp add: request_checker_def)
  qed (simp add: request_checker_def)
qed

theorem checker_waits_for_headers_witness:
  "request_checker 100 (''GET /swan HTTP/1.1'' @ crlf @ ''Host: x'' @ crlf @ [CHR 0x0D]) = (0, False)"
proof -
  have "wf_eol crlf" "wf_uri ''/swan''" "[(''Host'', ''x'')] \<noteq> ([] :: (string \<times> string) list)"
    "\<forall>h\<in>set [(''Host'', ''x'')]. wf_header h"
    "(''GET /swan HTTP/1.1'' @ crlf @ ''Host: x'' @ crlf @ [CHR 0x0D]) @ [CHR 0x0A] =
       render_request crlf ''/swan'' [(''Host'', ''x'')] []"
    "[CHR 0x0A] \<noteq> []"
    "int (length (''GET /swan HTTP/1.1'' @ crlf @ ''Host: x'' @ crlf @ [CHR 0x0D])) \<le> 100"
    by (simp add: wf_eol_def) code_simp+
  then show ?thesis by (rule checker_waits_for_headers)
qed

section \<open>Complete requests\<close>

definition key1_header :: "string \<times> string \<Rightarrow> bool" where
  "key1_header h \<longleftrightarrow> is_ci_equal (fst h) sec_websocket_key1"

lemma check_rendered_ahead:
  "wf_header h \<Longrightarrow> check_read_body_ahead (render_header h) = (if key1_header h then 8 else 0)"
proof -
  assume h: "wf_header h"
  then have "CHR '':'' \<notin> set (fst h)" "fst h \<noteq> [] \<and> \<not> is_space (last (fst h))"
    by (auto simp: wf_header_def)
  then show ?thesis
    using split_once_char_found [of "CHR '':''" "fst h" "CHR '' '' # snd h"]
    by (simp add: check_read_body_ahead_def render_header_def key1_header_def trim_right_id)
qed

lemma find_break_length: "find_headers_break el after = Some b \<Longrightarrow> length b \<le> length el + length after"
  by (auto simp: find_headers_break_def split: if_splits)

lemma read_body_ahead_range: "check_read_body_ahead line = 0 \<or> check_read_body_ahead line = 8"
  by (simp add: check_read_body_ahead_def split: prod.split)

lemma check_short_body: "length (lr_begin r) < 8 \<Longrightarrow> check_headers n 8 r = (0, False)"
proof (induction "length (lr_begin r)" arbitrary: r rule: less_induct)
  case less
  show ?case
  proof (cases "read_line r")
    case None
    then show ?thesis by (subst check_headers.simps) simp
  next
    case (Some x)
    then obtain line el r' where rl: "read_line r = Some (line, el, r')" by (cases x) auto
    have shorter: "length (lr_begin r') < length (lr_begin r)" by (rule read_line_shorter [OF rl])
    have "length el + length (lr_begin r') < 8"
      using read_line_cases(1) [OF rl] less.prems by simp
    then have "\<not> 8 \<le> length b" if "find_headers_break el (lr_begin r') = Some b" for b
      using find_break_length [OF that] by linarith
    moreover have "check_headers n 8 r' = (0, False)"
      using shorter less.prems by (intro less.hyps) auto
    ultimately show ?thesis
      using read_body_ahead_range [of line]
      by (subst check_headers.simps) (auto simp: rl Let_def split: option.split)
  qed
qed

definition check_result :: "nat \<Rightarrow> nat \<Rightarrow> string \<Rightarrow> string \<Rightarrow> nat \<times> bool" where
  "check_result n ahead eol body =
     (if ahead = 0 then (n - length (eol @ eol @ body), True)
      else if ahead \<le> length body then (n, True) else (0, False))"

lemma check_full_headers:
  assumes "wf_eol eol" "wf_body body"
  shows "\<forall>h\<in>set hs. wf_header h \<Longrightarrow> hs \<noteq> [] \<Longrightarrow> k = 0 \<or> k = 8 \<Longrightarrow>
    lr_begin r = render_headers eol hs @ eol @ body \<Longrightarrow>
    check_headers n k r = check_result n (if \<exists>h\<in>set hs. key1_header h then 8 else k) eol body"
proof (induction hs arbitrary: r k)
  case (Cons h hs)
  have h: "wf_header h" using Cons.prems by simp
  note line = render_header_line [OF h] and eol = wf_eol_props [OF assms(1)]
  show ?case
  proof (cases "hs = []")
    case True
    have rl: "read_line r = Some (render_header h, eol @ eol, \<lparr>lr_begin = body, lr_multiline = False\<rparr>)"
      using Cons.prems(4) True assms(2) eol
      by (intro read_line_simple line(1)) (auto simp: render_headers_def wf_body_def)
    have short: "check_headers n 8 \<lparr>lr_begin = body, lr_multiline = False\<rparr> = (0, False)"
      if "\<not> 8 \<le> length body"
      using that by (intro check_short_body) simp
    show ?thesis
      using True Cons.prems(3) short
      by (subst check_headers.simps)
        (auto simp: rl Let_def check_rendered_ahead [OF h] eol(3) check_result_def)
  next
    case False
    let ?rest = "render_headers eol hs @ eol @ body"
    obtain g gs where hs: "hs = g # gs" "wf_header g" using False Cons.prems(1) by (cases hs) auto
    have "\<not> is_line_end (hd ?rest) \<and> \<not> is_blank (hd ?rest)"
      using render_header_line(2,3) [OF hs(2)] by (simp add: hs(1) render_headers_Cons)
    then have rl: "read_line r = Some (render_header h, eol, \<lparr>lr_begin = ?rest, lr_multiline = False\<rparr>)"
      using Cons.prems(4) eol
      by (intro read_line_simple line(1)) (auto simp: render_headers_Cons)
    have "check_headers n k' \<lparr>lr_begin = ?rest, lr_multiline = False\<rparr> =
        check_result n (if \<exists>h\<in>set hs. key1_header h then 8 else k') eol body"
      if "k' = 0 \<or> k' = 8" for k'
      using Cons.prems False that by (intro Cons.IH) auto
    with Cons.prems(3) show ?thesis
      by (subst check_headers.simps) (simp add: rl Let_def check_rendered_ahead [OF h] eol(4))
  qed
qed simp



section \<open>Requests the checker does not complete\<close>

lemma read_line_continued:
  assumes "\<forall>c\<in>set line. \<not> is_line_end c" "\<forall>c\<in>set el. is_line_end c" "el \<noteq> []"
    "is_blank b" "\<forall>c\<in>set (b # t). \<not> is_line_end c" "lr_begin r = line @ el @ b # t"
  shows "read_line r = Some (line @ el @ b # t, [], \<lparr>lr_begin = [], lr_multiline = True\<rparr>)"
proof -
  have hd: "b # t = [] \<or> \<not> is_line_end (hd (b # t))" using assms(5) by simp
  note parts = parts_simple [OF assms(1-3) hd]
  have "takeWhile is_not_line_end (b # t) = b # t" "dropWhile is_not_line_end (b # t) = []"
    using assms(5) by (auto simp: is_not_line_end_def takeWhile_eq_all_conv)
  then have tail: "line_part (b # t) = b # t" "end_part (b # t) = []" "next_part (b # t) = []"
    by (simp_all only: line_part_def end_part_def next_part_def) simp_all
  show ?thesis
    unfolding read_line_def assms(6) read_line_loop_eq [of "[]" "line @ el @ b # t"] parts
    using assms(3,4) by (simp add: read_line_loop_eq [of "line @ el" "b # t"] tail)
qed

lemma check_blank_body:
  assumes "wf_eol eol" "is_blank b" "\<forall>c\<in>set (b # t). \<not> is_line_end c"
  shows "\<forall>h\<in>set hs. wf_header h \<Longrightarrow> hs \<noteq> [] \<Longrightarrow> lr_begin r = render_headers eol hs @ eol @ b # t \<Longrightarrow>
    check_headers n k r = (0, False)"
proof (induction hs arbitrary: r k)
  case (Cons h hs)
  have h: "wf_header h" using Cons.prems by simp
  note line = render_header_line [OF h] and eol = wf_eol_props [OF assms(1)]
  show ?case
  proof (cases "hs = []")
    case True
    have "read_line r = Some (render_header h @ (eol @ eol) @ b # t, [], \<lparr>lr_begin = [], lr_multiline = True\<rparr>)"
      using Cons.prems(3) True eol assms(2,3)
      by (intro read_line_continued line(1)) (auto simp: render_headers_def)
    then show ?thesis by (subst check_headers.simps) (simp add: Let_def check_headers_empty)
  next
    case False
    let ?rest = "render_headers eol hs @ eol @ b # t"
    obtain g gs where hs: "hs = g # gs" "wf_header g" using False Cons.prems(1) by (cases hs) auto
    have "\<not> is_line_end (hd ?rest) \<and> \<not> is_blank (hd ?rest)"
      using render_header_line(2,3) [OF hs(2)] by (simp add: hs(1) render_headers_Cons)
    then have rl: "read_line r = Some (render_header h, eol, \<lparr>lr_begin = ?rest, lr_multiline = False\<rparr>)"
      using Cons.prems(3) eol
      by (intro read_line_simple line(1)) (auto simp: render_headers_Cons)
    have "check_headers n k' \<lparr>lr_begin = ?rest, lr_multiline = False\<rparr> = (0, False)" for k'
      using Cons.prems False by (intro Cons.IH) auto
    then show ?thesis
      by (subst check_headers.simps) (simp add: rl Let_def eol(4))
  qed
qed simp

text \<open>C39. A body that begins with a blank hides the end of the headers: the empty line followed by a
  space or a tab is read as a continued header line, so a complete handshake whose eight body
  bytes begin with a blank (and hold no line end) is never recognised as complete.\<close>

theorem checker_blank_body_never_completes:
  "wf_eol eol \<Longrightarrow> wf_uri uri \<Longrightarrow> hs \<noteq> [] \<Longrightarrow> \<forall>h\<in>set hs. wf_header h \<Longrightarrow> is_blank b \<Longrightarrow>
   \<forall>c\<in>set t. \<not> is_line_end c \<Longrightarrow> s = render_request eol uri hs (b # t) \<Longrightarrow>
   int (length s) \<le> max_size \<Longrightarrow> request_checker max_size s = (0, False)"
proof -
  assume h: "wf_eol eol" "wf_uri uri" "hs \<noteq> []" "\<forall>h\<in>set hs. wf_header h" "is_blank b"
    "\<forall>c\<in>set t. \<not> is_line_end c"
    and s: "s = render_request eol uri hs (b # t)" "int (length s) \<le> max_size"
  let ?rest = "render_headers eol hs @ eol @ b # t"
  note eol = wf_eol_props [OF h(1)]
  obtain g gs where hs: "hs = g # gs" "wf_header g" using h(3,4) by (cases hs) auto
  have "\<not> is_line_end (hd ?rest) \<and> \<not> is_blank (hd ?rest)"
    using render_header_line(2,3) [OF hs(2)] by (simp add: hs(1) render_headers_Cons)
  then have "http_request_checker s =
      Inr (check_headers (length s) 0 \<lparr>lr_begin = ?rest, lr_multiline = False\<rparr>)"
    using http_check_request_line [OF h(2) eol(2,1), of ?rest s] s(1) by (simp add: render_request_def)
  moreover have "check_headers (length s) 0 \<lparr>lr_begin = ?rest, lr_multiline = False\<rparr> = (0, False)"
    using h by (intro check_blank_body [of eol b t hs]) (auto dest: blank_not_line_end)
  moreover have "hd s \<noteq> CHR ''<''"
    by (rule hd_prefix_request [of s "[]"]) (simp_all add: s(1) render_request_def)
  ultimately show ?thesis
    using s(2) by (simp add: request_checker_def)
qed

theorem checker_blank_body_never_completes_witness:
  "request_checker 200 (render_request crlf ''/'' [(''Sec-WebSocket-Key1'', ''1 2'')] '' 2345678'') =
     (0, False)"
proof -
  let ?hs = "[(''Sec-WebSocket-Key1'', ''1 2'')] :: (string \<times> string) list"
  have "wf_eol crlf" "wf_uri ''/''" "?hs \<noteq> []" "\<forall>h\<in>set ?hs. wf_header h" "is_blank (CHR '' '')"
    "\<forall>c\<in>set ''2345678''. \<not> is_line_end c"
    by (simp add: wf_eol_def) code_simp+
  note h = this refl
  have "int (length (render_request crlf ''/'' ?hs '' 2345678'')) \<le> 200" by code_simp
  with h show ?thesis by (rule checker_blank_body_never_completes)
qed

text \<open>A request without any header line is never complete for the checker, although the
  smallest request it is prepared to look at (\<open>min_size\<close>) is such a request and the parser
  accepts it.\<close>

theorem checker_no_headers_never_completes:
  "wf_eol eol \<Longrightarrow> wf_uri uri \<Longrightarrow> s = ''GET '' @ uri @ '' HTTP/1.1'' @ eol @ eol \<Longrightarrow>
   int (length s) \<le> max_size \<Longrightarrow>
   request_checker max_size s = (0, False) \<and>
   request_init s = Inr (parse_uri uri request_empty)"
proof -
  assume h: "wf_eol eol" "wf_uri uri" and s: "s = ''GET '' @ uri @ '' HTTP/1.1'' @ eol @ eol"
    "int (length s) \<le> max_size"
  note eol = wf_eol_props [OF h(1)]
  have http: "http_request_checker s = Inr (0, False)"
    using http_check_request_line [OF h(2), of "eol @ eol" "[]" s] eol s(1)
    by (simp add: check_headers_empty)
  have "hd s \<noteq> CHR ''<''" using s(1) by simp
  with http s(2) have "request_checker max_size s = (0, False)"
    by (simp add: request_checker_def)
  moreover have "read_line (line_reader s) = Some (''GET '' @ uri @ '' HTTP/1.1'', eol @ eol,
      \<lparr>lr_begin = [], lr_multiline = False\<rparr>)"
    using eol s(1) by (intro read_line_simple request_line_no_end [OF h(2)])
      (auto simp: line_reader_def)
  then have "request_init s = Inr (parse_uri uri request_empty)"
    using helper_parse_rendered_line [OF h(2)]
    by (simp add: request_init_def parse_request_line_def parse_request_line_impl_def
        parse_headers.simps)
  ultimately show ?thesis by simp
qed

theorem checker_no_headers_never_completes_witness:
  "request_checker 100 (''GET '' @ ''/'' @ '' HTTP/1.1'' @ crlf @ crlf) = (0, False)"
proof -
  have "wf_eol crlf" "wf_uri ''/''"
    by (simp add: wf_eol_def) code_simp
  note h = this refl
  have "int (length (''GET '' @ ''/'' @ '' HTTP/1.1'' @ crlf @ crlf)) \<le> 100" by code_simp
  from checker_no_headers_never_completes [OF h this] show ?thesis by simp
qed

end
