(* ===== verification/Connection.thy ===== *)
theory Connection
  imports Manager Handlers Request_Checker
begin

text \<open>
  The life of one connection (\<open>include/details/connection_impl.hpp\<close>) and the invoker without
  threads (\<open>library/handler_invoker.cpp\<close>), which the connection calls and which calls it back.

  The asynchronous operations of Boost.Asio appear as what has been started and not yet completed:
  a list of reads and writes, and the one timer. The completion of each is an event
  (theory \<open>Connection_Events\<close>). A write takes what the output buffer holds when it is started
  and removes it from the buffer when it completes. Cancelling or restarting a timer hands the old
  wait to the ready queue as aborted. A closed socket stays closed.

  The operations act on the connection, the manager and the queue of the threaded invoker
  together. Logging is not modelled.
\<close>

section \<open>The data all connections share\<close>

record connection_data =
  cd_fmt_factory :: formatters_factory
  cd_ping_message :: string
  cd_ping_message_for_single :: string
  cd_policy_data :: string
  cd_read_timeout :: nat
  cd_write_timeout :: nat
  cd_inactive_timeout :: nat
  cd_ping_interval :: nat
  cd_max_request_size :: nat
  cd_stopping :: bool

definition ping_message :: "bool \<Rightarrow> connection_data \<Rightarrow> string" where
  "ping_message single d = (if single then cd_ping_message_for_single d else cd_ping_message d)"

section \<open>The state of a connection\<close>

datatype write_handler = W_headers | W_message | W_ping | W_cleanup

datatype io_op = Io_handshake | Io_read_request | Io_read_some | Io_write string write_handler

datatype timer_handler = T_timeout | T_ping | T_inactive

text \<open>The environment of a step: OpenSSL and Boost's checksum, the build and the configuration,
  the attached handler, and the clock, once as a calendar time and once in milliseconds.\<close>

record env =
  e_crypto :: crypto
  e_crc32 :: "string \<Rightarrow> nat"
  e_package :: string
  e_secure :: bool
  e_data :: connection_data
  e_handler :: response_handler
  e_now :: ptime
  e_clock :: int

record conn =
  c_id :: nat
  c_base :: connection_base
  c_addr :: string
  c_in :: string
  c_out :: string
  c_inactive_expires :: int
  c_messages :: "message option list"
  c_writing_message :: bool
  c_connected :: bool
  c_is_policy :: bool
  c_single_message :: bool
  c_disable_ping :: bool
  c_managed :: bool
  c_socket_open :: bool
  c_pending :: "io_op list"
  c_timer :: "timer_handler option"
  c_ready :: "(timer_handler \<times> bool) list"

definition minimal_ping_interval :: nat where
  "minimal_ping_interval = 100"

definition minimal_inactive_timeout :: nat where
  "minimal_inactive_timeout = 100"

definition conn_init :: "nat \<Rightarrow> conn" where
  "conn_init cid = \<lparr>c_id = cid, c_base = connection_base_init, c_addr = [], c_in = [], c_out = [],
     c_inactive_expires = 0, c_messages = [], c_writing_message = False, c_connected = False,
     c_is_policy = False, c_single_message = False, c_disable_ping = False, c_managed = False,
     c_socket_open = True, c_pending = [], c_timer = None, c_ready = []\<rparr>"

text \<open>A connection, the manager, and the queue of the threaded invoker.\<close>

record ctx =
  x_conn :: conn
  x_man :: manager
  x_queue :: holder_queue

definition on_conn :: "(conn \<Rightarrow> conn) \<Rightarrow> ctx \<Rightarrow> ctx" where
  "on_conn f x = x\<lparr>x_conn := f (x_conn x)\<rparr>"

text \<open>A failed assertion ends the program; it is recorded in the manager.\<close>

definition assertion :: "bool \<Rightarrow> ctx \<Rightarrow> ctx" where
  "assertion b x = (if b then x else x\<lparr>x_man := (x_man x)\<lparr>cm_failed := True\<rparr>\<rparr>)"

section \<open>Timers and operations\<close>

definition timer_cancel :: "conn \<Rightarrow> conn" where
  "timer_cancel c = c\<lparr>c_timer := None,
     c_ready := c_ready c @ (case c_timer c of None \<Rightarrow> [] | Some h \<Rightarrow> [(h, True)])\<rparr>"

definition timer_start :: "timer_handler \<Rightarrow> conn \<Rightarrow> conn" where
  "timer_start h c = (timer_cancel c)\<lparr>c_timer := Some h\<rparr>"

definition async_op :: "io_op \<Rightarrow> conn \<Rightarrow> conn" where
  "async_op op c = c\<lparr>c_pending := c_pending c @ [op]\<rparr>"

definition async_write :: "write_handler \<Rightarrow> conn \<Rightarrow> conn" where
  "async_write h c = async_op (Io_write (c_out c) h) c"

definition setup_timeout :: "conn \<Rightarrow> conn" where
  "setup_timeout c = timer_start T_timeout c"

section \<open>Closing\<close>

definition cleanup :: "env \<Rightarrow> ctx \<Rightarrow> ctx" where
  "cleanup e x =
     (let c1 = (timer_cancel (x_conn x))\<lparr>c_connected := False\<rparr>;
          x2 = (if c_managed c1 \<and> cb_name (c_base c1) \<noteq> []
                then x\<lparr>x_conn := c1\<lparr>c_managed := False\<rparr>,
                       x_man := remove_connection (e_crc32 e) (c_id c1) (c_base c1) (x_man x)\<rparr>
                else x\<lparr>x_conn := c1\<rparr>)
      in if c_socket_open (x_conn x2) then on_conn (\<lambda>c. c\<lparr>c_socket_open := False\<rparr>) x2 else x2)"

definition handle_exception :: "env \<Rightarrow> ctx \<Rightarrow> ctx" where
  "handle_exception e x = cleanup e x"

definition handle_error :: "env \<Rightarrow> ctx \<Rightarrow> ctx" where
  "handle_error e x = cleanup e x"

definition close_connection :: "env \<Rightarrow> ctx \<Rightarrow> ctx" where
  "close_connection e x = cleanup e x"

section \<open>Writing\<close>

text \<open>Starting a write of what has just been printed, and its time limit.\<close>

definition send_out :: "string \<Rightarrow> write_handler \<Rightarrow> conn \<Rightarrow> conn" where
  "send_out out h c = setup_timeout (async_write h (c\<lparr>c_out := c_out c @ out\<rparr>))"

definition write_http_error :: "env \<Rightarrow> nat \<Rightarrow> ctx \<Rightarrow> ctx" where
  "write_http_error e code x =
     (if c_is_policy (x_conn x) then cleanup e x
      else case print_error (e_package e) (e_now e) code of
          Inl err \<Rightarrow> handle_exception e x
        | Inr (out, printed) \<Rightarrow>
            if \<not> printed then cleanup e x else on_conn (send_out out W_cleanup) x)"

text \<open>What the two catch clauses do that most operations end with.\<close>

definition dispatch_error :: "env \<Rightarrow> xiva_error \<Rightarrow> ctx \<Rightarrow> ctx" where
  "dispatch_error e err x =
     (case err of Http_error code \<Rightarrow> write_http_error e code x | _ \<Rightarrow> handle_exception e x)"

definition write_static_content :: "env \<Rightarrow> response_impl \<Rightarrow> string \<Rightarrow> ctx \<Rightarrow> ctx" where
  "write_static_content e resp content x =
     (if c_is_policy (x_conn x) then cleanup e x
      else case print_static_content (e_package e) (e_now e) (rs_type resp) content (c_base (x_conn x)) of
          Inl err \<Rightarrow> handle_exception e x
        | Inr (out, printed) \<Rightarrow>
            if \<not> printed then cleanup e x
            else on_conn (\<lambda>c. send_out out W_cleanup (c\<lparr>c_writing_message := True\<rparr>)) x)"

text \<open>\<open>write_headers\<close> has no handler of its own: it may throw.\<close>

definition write_headers :: "env \<Rightarrow> response_impl \<Rightarrow> ctx \<Rightarrow> unit result \<times> ctx" where
  "write_headers e resp x =
     (if c_is_policy (x_conn x) then (Inr (), cleanup e x)
      else case print_headers (e_package e) (e_now e) (rs_type resp) (c_base (x_conn x)) of
          Inl err \<Rightarrow> (Inl err, x)
        | Inr (out, printed) \<Rightarrow>
            if \<not> printed then (Inr (), cleanup e x)
            else (Inr (), on_conn (send_out out W_headers) x))"

definition write_last_message :: "env \<Rightarrow> ctx \<Rightarrow> ctx" where
  "write_last_message e x =
     (if c_is_policy (x_conn x) then cleanup e x
      else case print_last_message (c_base (x_conn x)) of
        (out, printed) \<Rightarrow>
          if \<not> printed then cleanup e (on_conn (\<lambda>c. c\<lparr>c_out := c_out c @ out\<rparr>) x)
          else on_conn (\<lambda>c. send_out out W_cleanup (c\<lparr>c_writing_message := True\<rparr>)) x)"

definition write_policy_data :: "env \<Rightarrow> ctx \<Rightarrow> ctx" where
  "write_policy_data e x =
     (case print_policy_data (cd_policy_data (e_data e)) of
        (out, printed) \<Rightarrow>
          if \<not> printed then cleanup e x
          else on_conn (\<lambda>c. send_out out W_cleanup (c\<lparr>c_writing_message := True\<rparr>)) x)"

section \<open>Waiting for messages\<close>

definition handle_inactive_timeout :: "env \<Rightarrow> bool \<Rightarrow> ctx \<Rightarrow> ctx" where
  "handle_inactive_timeout e code x = (if \<not> code then write_last_message e x else x)"

definition setup_ping_or_inactive_timeout :: "env \<Rightarrow> ctx \<Rightarrow> ctx" where
  "setup_ping_or_inactive_timeout e x =
     (let now = e_clock e; c = x_conn x;
          c1 = (if c_inactive_expires c \<le> now
                then c\<lparr>c_inactive_expires := now + int (cd_inactive_timeout (e_data e))\<rparr> else c);
          x1 = x\<lparr>x_conn := c1\<rparr>
      in if \<not> c_disable_ping c1 \<and> now + int (cd_ping_interval (e_data e)) < c_inactive_expires c1
         then on_conn (timer_start T_ping) x1
         else if c_inactive_expires c1 - now \<ge> int minimal_inactive_timeout
         then on_conn (timer_start T_inactive) x1
         else handle_inactive_timeout e False x1)"

definition setup_inactive_timeout :: "env \<Rightarrow> ctx \<Rightarrow> ctx" where
  "setup_inactive_timeout e x =
     setup_ping_or_inactive_timeout e
       (on_conn (\<lambda>c. c\<lparr>c_inactive_expires := e_clock e + int (cd_inactive_timeout (e_data e))\<rparr>) x)"

definition write_ping_message :: "env \<Rightarrow> ctx \<Rightarrow> ctx" where
  "write_ping_message e x =
     (let x1 = assertion (\<not> c_disable_ping (x_conn x)) x; c = x_conn x1 in
      case print_message_content (ping_message (c_single_message c) (e_data e)) (c_base c) of
        (out, printed) \<Rightarrow>
          if printed then on_conn (\<lambda>c. send_out out W_ping (c\<lparr>c_writing_message := True\<rparr>)) x1
          else setup_ping_or_inactive_timeout e (on_conn (\<lambda>c. c\<lparr>c_disable_ping := True\<rparr>) x1))"

text \<open>The loop of \<open>write_message\<close> takes the messages that are not printed (the empty ones) off
  the list.\<close>

function write_message :: "env \<Rightarrow> ctx \<Rightarrow> ctx" where
  "write_message e x =
     (if \<not> c_connected (x_conn x) then x
      else let x1 = on_conn timer_cancel x; c = x_conn x1 in
        (case c_messages c of
           [] \<Rightarrow> setup_inactive_timeout e x1
         | None # _ \<Rightarrow> write_last_message e x1
         | Some msg # rest \<Rightarrow>
             (case print_message msg (c_base c) of
                Inl err \<Rightarrow> handle_exception e x1
              | Inr ((out, printed), base) \<Rightarrow>
                  let x2 = on_conn (\<lambda>c. c\<lparr>c_base := base, c_messages := rest\<rparr>) x1 in
                  if printed then on_conn (\<lambda>c. send_out out W_message (c\<lparr>c_writing_message := True\<rparr>)) x2
                  else write_message e x2)))"
  by pat_completeness auto
termination
  by (relation "measure (\<lambda>(e, x). length (c_messages (x_conn x)))")
    (auto simp: on_conn_def timer_cancel_def)

declare write_message.simps [simp del]

definition send :: "env \<Rightarrow> message option \<Rightarrow> ctx \<Rightarrow> ctx" where
  "send e m x =
     (let x1 = on_conn (\<lambda>c. c\<lparr>c_messages := c_messages c @ [m]\<rparr>) x in
      if \<not> c_writing_message (x_conn x1) \<and> c_connected (x_conn x1) then write_message e x1 else x1)"

definition finish :: "env \<Rightarrow> ctx \<Rightarrow> ctx" where
  "finish e x = send e None x"

section \<open>Reading and answering the request\<close>

definition read_request :: "env \<Rightarrow> ctx \<Rightarrow> ctx" where
  "read_request e x = on_conn (\<lambda>c. setup_timeout (async_op Io_read_request c)) x"

definition read_some :: "env \<Rightarrow> ctx \<Rightarrow> ctx" where
  "read_some e x = on_conn (\<lambda>c. async_op Io_read_some (c\<lparr>c_in := []\<rparr>)) x"

definition handshake :: "env \<Rightarrow> ctx \<Rightarrow> ctx" where
  "handshake e x =
     (if e_secure e then on_conn (\<lambda>c. setup_timeout (async_op Io_handshake c)) x
      else read_request e x)"

text \<open>The address of the peer is \<open>None\<close> when asking the socket for it throws.\<close>

definition start :: "env \<Rightarrow> string option \<Rightarrow> ctx \<Rightarrow> ctx" where
  "start e addr x =
     (case addr of
        None \<Rightarrow> handle_exception e x
      | Some a \<Rightarrow> handshake e (on_conn (\<lambda>c. c\<lparr>c_addr := a\<rparr>) x))"

definition handled :: "env \<Rightarrow> request_impl \<Rightarrow> response_impl \<Rightarrow> ctx \<Rightarrow> ctx" where
  "handled e req resp x =
     (let x1 = on_conn (\<lambda>c. (timer_cancel c)\<lparr>c_base := handle_response resp (c_base c)\<rparr>) x in
      case content_read (\<lambda>_. resp) (rs_content_ptr resp) of
        Some content \<Rightarrow> write_static_content e resp content x1
      | None \<Rightarrow>
          if cb_name (c_base (x_conn x1)) = [] then write_http_error e not_found x1
          else
            let x2 = on_conn (\<lambda>c. c\<lparr>c_single_message := rs_single_message resp\<rparr>) x1 in
            (case init_formatters (cd_fmt_factory (e_data e)) req resp (c_base (x_conn x2)) of
              Inl err \<Rightarrow> dispatch_error e err x2
            | Inr base \<Rightarrow>
                let x3 = on_conn (\<lambda>c. c\<lparr>c_base := base,
                      c_disable_ping := (cd_ping_interval (e_data e) < minimal_ping_interval \<or>
                        ping_message (c_single_message c) (e_data e) = [])\<rparr>) x2;
                    c = x_conn x3 in
                (case insert_connection (e_crc32 e) (c_id c) (c_base c) (x_man x3) of
                   (Inl err, m) \<Rightarrow> dispatch_error e err (x3\<lparr>x_man := m\<rparr>)
                 | (Inr False, m) \<Rightarrow> cleanup e (x3\<lparr>x_man := m\<rparr>)
                 | (Inr True, m) \<Rightarrow>
                     (case write_headers e resp (x3\<lparr>x_man := m, x_conn := c\<lparr>c_managed := True\<rparr>\<rparr>) of
                        (Inl err, x4) \<Rightarrow> dispatch_error e err x4
                      | (Inr _, x4) \<Rightarrow> x4))))"

definition handled_errors :: "env \<Rightarrow> nat \<Rightarrow> string \<Rightarrow> ctx \<Rightarrow> ctx" where
  "handled_errors e http_code error_msg x =
     dispatch_error e
       (if http_code \<noteq> 0 then Http_error http_code
        else if error_msg \<noteq> [] then Runtime_error error_msg
        else Logic_error ''strange error in connection_impl::handled_errors'')
       (on_conn timer_cancel x)"

text \<open>The invoker without threads: it calls the handler and answers at once.\<close>

definition invoke_handler :: "env \<Rightarrow> request_impl \<Rightarrow> response_impl \<Rightarrow> ctx \<Rightarrow> unit result \<times> ctx" where
  "invoke_handler e req resp x =
     (case rh_has_enough_data (e_handler e) req of
        Inl err \<Rightarrow> (Inl err, x)
      | Inr False \<Rightarrow> (Inl (Http_error forbidden), x)
      | Inr True \<Rightarrow>
          (case rh_receiver (e_handler e) req of
             Inl err \<Rightarrow> (Inl err, x)
           | Inr receiver \<Rightarrow>
               let x1 = on_conn (\<lambda>c. c\<lparr>c_base := set_name receiver (c_base c)\<rparr>) x in
               (case rh_handle_response (e_handler e) req resp of
                  Inl err \<Rightarrow> (Inl err, x1)
                | Inr resp' \<Rightarrow> (Inr (), handled e req resp' x1))))"

definition invoke :: "env \<Rightarrow> request_impl \<Rightarrow> response_impl \<Rightarrow> ctx \<Rightarrow> unit result \<times> ctx" where
  "invoke e req resp x =
     (if rh_threaded (e_handler e) then
        (case threaded_invoke_handler (e_handler e) (c_id (x_conn x)) req resp (x_queue x) of
           (r, q) \<Rightarrow> (r, x\<lparr>x_queue := q\<rparr>))
      else invoke_handler e req resp x)"

section \<open>Completions\<close>

definition handle_handshake :: "env \<Rightarrow> bool \<Rightarrow> ctx \<Rightarrow> ctx" where
  "handle_handshake e code x =
     (let x1 = on_conn timer_cancel x in if code then handle_error e x1 else read_request e x1)"

text \<open>The two exceptions of \<open>handle_read_request\<close>: while the request is parsed every error is
  answered, the ones that are not HTTP errors as a bad request.\<close>

definition parse_failed :: "env \<Rightarrow> xiva_error \<Rightarrow> ctx \<Rightarrow> ctx" where
  "parse_failed e err x =
     (case err of Http_error code \<Rightarrow> write_http_error e code x | _ \<Rightarrow> write_http_error e bad_request x)"

definition handle_read_request :: "env \<Rightarrow> bool \<Rightarrow> ctx \<Rightarrow> ctx" where
  "handle_read_request e code x =
     (let x1 = on_conn timer_cancel x; data = c_in (x_conn x1) in
      if code then handle_error e x1
      else if data = [] then handle_exception e x1
      else if length data > cd_max_request_size (e_data e) then write_http_error e entity_too_large x1
      else if hd data = CHR ''<'' then
        (if length data < length policy_file_request \<or>
           \<not> is_ci_equal policy_file_request (take (length policy_file_request) data)
         then handle_exception e x1
         else write_policy_data e (on_conn (\<lambda>c. c\<lparr>c_is_policy := True\<rparr>) x1))
      else case request_init data of
          Inl err \<Rightarrow> parse_failed e err x1
        | Inr req \<Rightarrow>
            (case base_init (e_crypto e) (e_secure e) req (c_base (x_conn x1)) of
               (Inl err, base) \<Rightarrow> parse_failed e err (on_conn (\<lambda>c. c\<lparr>c_base := base\<rparr>) x1)
             | (Inr req', base) \<Rightarrow>
                 (case invoke e req' response_init (on_conn (\<lambda>c. c\<lparr>c_base := base\<rparr>) x1) of
                    (Inl err, x2) \<Rightarrow> dispatch_error e err x2
                  | (Inr _, x2) \<Rightarrow> x2)))"

definition handle_read_some :: "env \<Rightarrow> bool \<Rightarrow> ctx \<Rightarrow> ctx" where
  "handle_read_some e code x =
     (let x1 = on_conn timer_cancel x in
      if code then handle_error e x1
      else if c_in (x_conn x1) \<noteq> [] then read_some e x1
      else cleanup e x1)"

definition handle_write_headers :: "env \<Rightarrow> bool \<Rightarrow> ctx \<Rightarrow> ctx" where
  "handle_write_headers e code x =
     (let x1 = on_conn timer_cancel x in
      if code then handle_error e x1
      else if c_socket_open (x_conn x1)
      then write_message e (read_some e (on_conn (\<lambda>c. c\<lparr>c_connected := True\<rparr>) x1))
      else x1)"

definition handle_write_message :: "env \<Rightarrow> bool \<Rightarrow> ctx \<Rightarrow> ctx" where
  "handle_write_message e code x =
     (let x1 = on_conn (\<lambda>c. (timer_cancel c)\<lparr>c_writing_message := False\<rparr>) x in
      if code then handle_error e x1
      else if c_single_message (x_conn x1) then write_last_message e x1
      else write_message e x1)"

definition handle_write_ping_message :: "env \<Rightarrow> bool \<Rightarrow> ctx \<Rightarrow> ctx" where
  "handle_write_ping_message e code x =
     (let x1 = on_conn (\<lambda>c. (timer_cancel c)\<lparr>c_writing_message := False\<rparr>) x in
      if code then handle_error e x1
      else let x2 = assertion (\<not> c_disable_ping (x_conn x1)) x1 in
        if c_messages (x_conn x2) \<noteq> [] then write_message e x2
        else setup_ping_or_inactive_timeout e x2)"

definition handle_ping :: "env \<Rightarrow> bool \<Rightarrow> ctx \<Rightarrow> ctx" where
  "handle_ping e code x =
     (let x1 = assertion (\<not> c_disable_ping (x_conn x)) x in
      if \<not> code then write_ping_message e x1 else x1)"

definition handle_cleanup :: "env \<Rightarrow> bool \<Rightarrow> ctx \<Rightarrow> ctx" where
  "handle_cleanup e code x = cleanup e x"

definition handle_timeout :: "env \<Rightarrow> bool \<Rightarrow> ctx \<Rightarrow> ctx" where
  "handle_timeout e code x = (if \<not> code then cleanup e x else x)"

end
