(* ===== verification/Connection_Events.thy ===== *)
theory Connection_Events
  imports Connection
begin

text \<open>
  Connections as state machines: the events that Boost.Asio, the manager and the worker threads
  cause, one handler of \<open>connection_impl.hpp\<close> each, and what holds in every state they lead to.
  All handlers run on one thread. A timer that expires queues its handler; \<open>Ce_timer\<close> is the
  usual case that the handler runs before anything else, \<open>Ce_expires\<close> and \<open>Ce_ready\<close> are the
  two halves.
\<close>

section \<open>Events\<close>

datatype conn_event =
    Ce_handshake bool
  | Ce_request bool string
  | Ce_some bool string
  | Ce_written nat bool
  | Ce_timer
  | Ce_expires
  | Ce_ready
  | Ce_send message
  | Ce_close
  | Ce_shutdown
  | Ce_answer
  | Ce_others manager

definition run_timer_handler :: "env \<Rightarrow> timer_handler \<Rightarrow> bool \<Rightarrow> ctx \<Rightarrow> ctx" where
  "run_timer_handler e h code x =
     (case h of
        T_timeout \<Rightarrow> handle_timeout e code x
      | T_ping \<Rightarrow> handle_ping e code x
      | T_inactive \<Rightarrow> handle_inactive_timeout e code x)"

definition run_write_handler :: "env \<Rightarrow> write_handler \<Rightarrow> bool \<Rightarrow> ctx \<Rightarrow> ctx" where
  "run_write_handler e h code x =
     (case h of
        W_headers \<Rightarrow> handle_write_headers e code x
      | W_message \<Rightarrow> handle_write_message e code x
      | W_ping \<Rightarrow> handle_write_ping_message e code x
      | W_cleanup \<Rightarrow> handle_cleanup e code x)"

text \<open>The answer of the worker threads to the request of this connection, taken from the queue
  of the invoker. The texts of exceptions are the ones that carry a text; the others have some
  other text that is not empty.\<close>

definition exception_what :: "xiva_error \<Rightarrow> string" where
  "exception_what err = (case err of Runtime_error s \<Rightarrow> s | Logic_error s \<Rightarrow> s | Xiva_error s \<Rightarrow> s | _ \<Rightarrow> ''?'')"

definition run_answer :: "env \<Rightarrow> request_holder \<Rightarrow> ctx \<Rightarrow> ctx" where
  "run_answer e h x =
     (case process_request exception_what (e_handler e) h of (h', name) \<Rightarrow>
        let x1 = (case name of None \<Rightarrow> x
                  | Some receiver \<Rightarrow> on_conn (\<lambda>c. c\<lparr>c_base := set_name receiver (c_base c)\<rparr>) x) in
        (case holder_handled h' of
           Answer_handled req resp \<Rightarrow> handled e req resp x1
         | Answer_errors code msg \<Rightarrow> handled_errors e code msg x1))"

text \<open>One event; \<open>None\<close> when it cannot happen in the state. A completion takes its operation off
  the list; a read adds to the input, a successful write removes what it wrote from the output.
  The manager hands messages to, and closes, only connections it has; at its own finish it forgets
  them all first. The other connections may change the manager, but not its listeners and the
  registration of this one. After a failed assertion there is no program any more.\<close>

definition conn_step :: "env \<Rightarrow> conn_event \<Rightarrow> ctx \<Rightarrow> ctx option" where
  "conn_step e ev x =
     (let c = x_conn x; m = x_man x in
      if cm_failed m then None
      else case ev of
        Ce_handshake code \<Rightarrow>
          if Io_handshake \<in> set (c_pending c)
          then Some (handle_handshake e code
            (on_conn (\<lambda>c. c\<lparr>c_pending := remove1 Io_handshake (c_pending c)\<rparr>) x))
          else None
      | Ce_request code data \<Rightarrow>
          if Io_read_request \<in> set (c_pending c)
          then Some (handle_read_request e code
            (on_conn (\<lambda>c. c\<lparr>c_pending := remove1 Io_read_request (c_pending c), c_in := c_in c @ data\<rparr>) x))
          else None
      | Ce_some code data \<Rightarrow>
          if Io_read_some \<in> set (c_pending c)
          then Some (handle_read_some e code
            (on_conn (\<lambda>c. c\<lparr>c_pending := remove1 Io_read_some (c_pending c), c_in := c_in c @ data\<rparr>) x))
          else None
      | Ce_written k code \<Rightarrow>
          if k < length (c_pending c) then
            (case c_pending c ! k of
               Io_write w h \<Rightarrow> Some (run_write_handler e h code
                 (on_conn (\<lambda>c. c\<lparr>c_pending := take k (c_pending c) @ drop (Suc k) (c_pending c),
                    c_out := (if code then c_out c else drop (length w) (c_out c))\<rparr>) x))
             | _ \<Rightarrow> None)
          else None
      | Ce_timer \<Rightarrow>
          (case c_timer c of
             None \<Rightarrow> None
           | Some h \<Rightarrow> Some (run_timer_handler e h False (on_conn (\<lambda>c. c\<lparr>c_timer := None\<rparr>) x)))
      | Ce_expires \<Rightarrow>
          (case c_timer c of
             None \<Rightarrow> None
           | Some h \<Rightarrow> Some (on_conn (\<lambda>c. c\<lparr>c_timer := None, c_ready := c_ready c @ [(h, False)]\<rparr>) x))
      | Ce_ready \<Rightarrow>
          (case c_ready c of
             [] \<Rightarrow> None
           | (h, code) # hs \<Rightarrow> Some (run_timer_handler e h code (on_conn (\<lambda>c. c\<lparr>c_ready := hs\<rparr>) x)))
      | Ce_send msg \<Rightarrow>
          if registered (c_id c) m \<and> \<not> cm_finished m then Some (send e (Some msg) x) else None
      | Ce_close \<Rightarrow>
          if registered (c_id c) m \<and> \<not> cm_finished m then Some (close_connection e x) else None
      | Ce_shutdown \<Rightarrow>
          if cm_finished m then None
          else let x1 = x\<lparr>x_man := m\<lparr>cm_finished := True, cm_connections := []\<rparr>\<rparr> in
            if registered (c_id c) m then Some (close_connection e (finish e x1)) else Some x1
      | Ce_answer \<Rightarrow>
          (case tq_items (x_queue x) of
             [] \<Rightarrow> None
           | (h, cid) # q \<Rightarrow>
               if cid = c_id c then Some (run_answer e h (x\<lparr>x_queue := (x_queue x)\<lparr>tq_items := q\<rparr>\<rparr>)) else None)
      | Ce_others m' \<Rightarrow>
          if (registered (c_id c) m' \<longleftrightarrow> registered (c_id c) m) \<and> cm_finished m' = cm_finished m \<and>
            (cm_queues m' = None \<longleftrightarrow> cm_queues m = None)
          then Some (x\<lparr>x_man := m'\<lparr>cm_listeners := cm_listeners m\<rparr>\<rparr>)
          else None)"

text \<open>Runs: a sequence of events, each in its own environment (the clock goes on).\<close>

fun conn_run :: "(env \<times> conn_event) list \<Rightarrow> ctx \<Rightarrow> ctx option" where
  "conn_run [] x = Some x"
| "conn_run ((e, ev) # evs) x = Option.bind (conn_step e ev x) (conn_run evs)"

text \<open>A new connection, in the state in which it is accepted.\<close>

definition accepted :: "env \<Rightarrow> nat \<Rightarrow> string option \<Rightarrow> manager \<Rightarrow> ctx" where
  "accepted e cid addr m = start e addr \<lparr>x_conn = conn_init cid, x_man = m, x_queue = queue_init\<rparr>"

inductive conn_reach :: "ctx \<Rightarrow> ctx \<Rightarrow> bool" for x0 where
  reach_start: "conn_reach x0 x0"
| reach_step: "conn_reach x0 x \<Longrightarrow> conn_step e ev x = Some x' \<Longrightarrow> conn_reach x0 x'"

lemma conn_run_reach: "conn_run evs x = Some x' \<Longrightarrow> conn_reach x0 x \<Longrightarrow> conn_reach x0 x'"
proof (induction evs arbitrary: x)
  case (Cons p evs)
  obtain e ev where p: "p = (e, ev)" by (cases p)
  from Cons.prems obtain y where "conn_step e ev x = Some y" "conn_run evs y = Some x'"
    by (auto simp: p split: Option.bind_splits)
  with Cons.IH Cons.prems(2) reach_step show ?case by blast
qed simp

end
