(* ===== verification/Connection_Rules.thy ===== *)
theory Connection_Rules
  imports Connection_Events
begin

text \<open>
  Rules to prove invariants of a connection: what the primitive steps change, in which states each
  operation of \<open>connection_impl\<close> can end, and the locale \<open>write_rules\<close>, which derives from the
  laws of an invariant for the primitive steps that every operation of the second half of a
  connection's life keeps it.
\<close>

section \<open>What the operations leave alone\<close>

lemma on_conn_sel [simp]:
  "x_conn (on_conn f x) = f (x_conn x)" "x_man (on_conn f x) = x_man x" "x_queue (on_conn f x) = x_queue x"
  by (simp_all add: on_conn_def)

lemma timer_cancel_sel [simp]:
  "c_id (timer_cancel c) = c_id c" "c_pending (timer_cancel c) = c_pending c"
  "c_connected (timer_cancel c) = c_connected c" "c_managed (timer_cancel c) = c_managed c"
  "c_writing_message (timer_cancel c) = c_writing_message c" "c_messages (timer_cancel c) = c_messages c"
  "c_socket_open (timer_cancel c) = c_socket_open c" "c_base (timer_cancel c) = c_base c"
  "c_timer (timer_cancel c) = None" "c_in (timer_cancel c) = c_in c"
  "c_single_message (timer_cancel c) = c_single_message c" "c_is_policy (timer_cancel c) = c_is_policy c"
  "c_out (timer_cancel c) = c_out c" "c_disable_ping (timer_cancel c) = c_disable_ping c"
  by (simp_all add: timer_cancel_def)

lemma timer_start_sel [simp]:
  "c_id (timer_start h c) = c_id c" "c_pending (timer_start h c) = c_pending c"
  "c_connected (timer_start h c) = c_connected c" "c_managed (timer_start h c) = c_managed c"
  "c_writing_message (timer_start h c) = c_writing_message c" "c_messages (timer_start h c) = c_messages c"
  "c_socket_open (timer_start h c) = c_socket_open c" "c_base (timer_start h c) = c_base c"
  "c_timer (timer_start h c) = Some h" "c_ready (timer_start h c) = c_ready (timer_cancel c)"
  by (simp_all add: timer_start_def)

lemma async_op_sel [simp]:
  "c_id (async_op op c) = c_id c" "c_pending (async_op op c) = c_pending c @ [op]"
  "c_connected (async_op op c) = c_connected c" "c_managed (async_op op c) = c_managed c"
  "c_writing_message (async_op op c) = c_writing_message c" "c_messages (async_op op c) = c_messages c"
  "c_socket_open (async_op op c) = c_socket_open c" "c_base (async_op op c) = c_base c"
  "c_timer (async_op op c) = c_timer c" "c_ready (async_op op c) = c_ready c"
  by (simp_all add: async_op_def)

lemma send_out_sel [simp]:
  "c_id (send_out out h c) = c_id c" "c_pending (send_out out h c) = c_pending c @ [Io_write (c_out c @ out) h]"
  "c_connected (send_out out h c) = c_connected c" "c_managed (send_out out h c) = c_managed c"
  "c_writing_message (send_out out h c) = c_writing_message c" "c_messages (send_out out h c) = c_messages c"
  "c_socket_open (send_out out h c) = c_socket_open c" "c_base (send_out out h c) = c_base c"
  "c_timer (send_out out h c) = Some T_timeout" "c_ready (send_out out h c) = c_ready (timer_cancel c)"
  by (simp_all add: send_out_def setup_timeout_def async_write_def async_op_def timer_cancel_def timer_start_def)

text \<open>Cleaning up in full: what it leaves alone, and what it is for.\<close>

lemma cleanup_sel [simp]:
  "c_id (x_conn (cleanup e x)) = c_id (x_conn x)" "x_queue (cleanup e x) = x_queue x"
  "c_pending (x_conn (cleanup e x)) = c_pending (x_conn x)" "\<not> c_connected (x_conn (cleanup e x))"
  "c_timer (x_conn (cleanup e x)) = None" "c_ready (x_conn (cleanup e x)) = c_ready (timer_cancel (x_conn x))"
  "c_writing_message (x_conn (cleanup e x)) = c_writing_message (x_conn x)"
  "c_messages (x_conn (cleanup e x)) = c_messages (x_conn x)"
  "\<not> c_socket_open (x_conn (cleanup e x))" "c_base (x_conn (cleanup e x)) = c_base (x_conn x)"
  "c_managed (x_conn (cleanup e x)) \<longleftrightarrow> c_managed (x_conn x) \<and> cb_name (c_base (x_conn x)) = []"
  "x_man (cleanup e x) = (if c_managed (x_conn x) \<and> cb_name (c_base (x_conn x)) \<noteq> []
     then remove_connection (e_crc32 e) (c_id (x_conn x)) (c_base (x_conn x)) (x_man x) else x_man x)"
  by (auto simp: cleanup_def Let_def)

lemmas closing_defs = handle_error_def handle_exception_def close_connection_def handle_cleanup_def

section \<open>How the operations end\<close>

text \<open>Case rules for invariants: each operation that prints ends in a clean-up or in a write that
  has been started; waiting ends in one of the two timers or in the last message.\<close>

lemma write_http_error_rule:
  assumes "P (cleanup e x)" "\<And>out. P (on_conn (send_out out W_cleanup) x)"
  shows "P (write_http_error e code x)"
  using assms by (simp add: write_http_error_def handle_exception_def split: sum.splits prod.splits)

lemma dispatch_error_rule:
  assumes "P (cleanup e x)" "\<And>out. P (on_conn (send_out out W_cleanup) x)"
  shows "P (dispatch_error e err x)"
  using assms write_http_error_rule [of P e x]
  by (simp add: dispatch_error_def handle_exception_def split: xiva_error.splits)

definition start_write :: "write_handler \<Rightarrow> string \<Rightarrow> ctx \<Rightarrow> ctx" where
  "start_write h out x = on_conn (\<lambda>c. send_out out h (c\<lparr>c_writing_message := True\<rparr>)) x"

lemma write_static_content_rule:
  assumes "P (cleanup e x)" "\<And>out. P (start_write W_cleanup out x)"
  shows "P (write_static_content e resp content x)"
  using assms by (simp add: write_static_content_def handle_exception_def start_write_def split: sum.splits prod.splits)

lemma write_policy_data_rule:
  assumes "P (cleanup e x)" "\<And>out. P (start_write W_cleanup out x)"
  shows "P (write_policy_data e x)"
  using assms by (simp add: write_policy_data_def start_write_def split: prod.splits)

lemma write_last_message_rule:
  assumes "\<And>out. P (cleanup e (on_conn (\<lambda>c. c\<lparr>c_out := out\<rparr>) x))" "\<And>out. P (start_write W_cleanup out x)"
  shows "P (write_last_message e x)"
  using assms(1) [of "c_out (x_conn x)"] assms
  by (simp add: write_last_message_def start_write_def on_conn_def split: prod.splits)

lemma handle_inactive_timeout_rule:
  assumes "code \<Longrightarrow> P x" "\<And>out. P (cleanup e (on_conn (\<lambda>c. c\<lparr>c_out := out\<rparr>) x))" "\<And>out. P (start_write W_cleanup out x)"
  shows "P (handle_inactive_timeout e code x)"
  using assms write_last_message_rule [of P e x] by (simp add: handle_inactive_timeout_def)

text \<open>The connection waits from now on until \<open>t\<close>.\<close>

definition until :: "int \<Rightarrow> ctx \<Rightarrow> ctx" where
  "until t x = on_conn (\<lambda>c. c\<lparr>c_inactive_expires := t\<rparr>) x"

lemma until_self: "until (c_inactive_expires (x_conn x)) x = x"
  by (simp add: until_def on_conn_def)

lemma until_until: "until t (until t' x) = until t x"
  by (simp add: until_def on_conn_def)

lemma setup_ping_rule:
  assumes "\<And>t. \<not> c_disable_ping (x_conn x) \<Longrightarrow> P (on_conn (timer_start T_ping) (until t x))"
    "\<And>t. P (on_conn (timer_start T_inactive) (until t x))"
    "\<And>t out. P (cleanup e (on_conn (\<lambda>c. c\<lparr>c_out := out\<rparr>) (until t x)))"
    "\<And>t out. P (start_write W_cleanup out (until t x))"
  shows "P (setup_ping_or_inactive_timeout e x)"
proof -
  let ?t = "e_clock e + int (cd_inactive_timeout (e_data e))" and ?c = "x_conn x"
  let ?x1 = "x\<lparr>x_conn := (if c_inactive_expires ?c \<le> e_clock e then ?c\<lparr>c_inactive_expires := ?t\<rparr> else ?c)\<rparr>"
  have "\<exists>t. ?x1 = until t x"
  proof (cases "c_inactive_expires ?c \<le> e_clock e")
    case True
    then show ?thesis by (intro exI [of _ ?t]) (simp add: until_def on_conn_def)
  next
    case False
    then show ?thesis by (intro exI [of _ "c_inactive_expires ?c"]) (simp add: until_self)
  qed
  then obtain t where t: "?x1 = until t x" by blast
  have d: "c_disable_ping (x_conn (until t x)) = c_disable_ping ?c" by (simp add: until_def)
  have last: "P (handle_inactive_timeout e False (until t x))"
    by (rule handle_inactive_timeout_rule) (simp_all add: assms)
  define c1 where "c1 = (if c_inactive_expires ?c \<le> e_clock e then ?c\<lparr>c_inactive_expires := ?t\<rparr> else ?c)"
  have c1: "x\<lparr>x_conn := c1\<rparr> = until t x" "c_disable_ping c1 = c_disable_ping ?c"
    using t by (simp_all add: c1_def)
  show ?thesis
    unfolding setup_ping_or_inactive_timeout_def Let_def c1_def [symmetric] c1
    using assms(1,2) last by simp
qed

lemma setup_inactive_rule:
  assumes "\<And>t. \<not> c_disable_ping (x_conn x) \<Longrightarrow> P (on_conn (timer_start T_ping) (until t x))"
    "\<And>t. P (on_conn (timer_start T_inactive) (until t x))"
    "\<And>t out. P (cleanup e (on_conn (\<lambda>c. c\<lparr>c_out := out\<rparr>) (until t x)))"
    "\<And>t out. P (start_write W_cleanup out (until t x))"
  shows "P (setup_inactive_timeout e x)"
proof -
  let ?y = "until (e_clock e + int (cd_inactive_timeout (e_data e))) x"
  have d: "c_disable_ping (x_conn ?y) = c_disable_ping (x_conn x)" by (simp add: until_def)
  have "P (setup_ping_or_inactive_timeout e ?y)"
    by (rule setup_ping_rule) (simp_all only: d until_until assms not_False_eq_True)
  then show ?thesis by (simp add: setup_inactive_timeout_def until_def)
qed

text \<open>The loop of \<open>write_message\<close>: \<open>I\<close> holds before each round.\<close>

definition drop_message :: "connection_base \<Rightarrow> ctx \<Rightarrow> ctx" where
  "drop_message base x =
     on_conn (\<lambda>c. (timer_cancel c)\<lparr>c_base := base, c_messages := tl (c_messages c)\<rparr>) x"

lemma print_message_name:
  "print_message msg cb = Inr (r, base) \<Longrightarrow> cb_name base = cb_name cb"
  by (auto simp: print_message_def bind_result_def split: sum.splits option.splits prod.splits bool.splits)

lemma write_message_rule [consumes 1, case_names round stop idle last close message]:
  assumes "I x"
    and round: "\<And>x msg rest out base. I x \<Longrightarrow> c_connected (x_conn x) \<Longrightarrow> c_messages (x_conn x) = Some msg # rest \<Longrightarrow>
      print_message msg (c_base (x_conn x)) = Inr ((out, False), base) \<Longrightarrow> I (drop_message base x)"
    and stop: "\<And>x. I x \<Longrightarrow> \<not> c_connected (x_conn x) \<Longrightarrow> P x"
    and idle: "\<And>x. I x \<Longrightarrow> c_connected (x_conn x) \<Longrightarrow> c_messages (x_conn x) = [] \<Longrightarrow>
      P (setup_inactive_timeout e (on_conn timer_cancel x))"
    and last: "\<And>x. I x \<Longrightarrow> c_connected (x_conn x) \<Longrightarrow> P (write_last_message e (on_conn timer_cancel x))"
    and close: "\<And>x. I x \<Longrightarrow> c_connected (x_conn x) \<Longrightarrow> P (cleanup e (on_conn timer_cancel x))"
    and message: "\<And>x msg rest out base. I x \<Longrightarrow> c_connected (x_conn x) \<Longrightarrow> c_messages (x_conn x) = Some msg # rest \<Longrightarrow>
      print_message msg (c_base (x_conn x)) = Inr ((out, True), base) \<Longrightarrow> P (start_write W_message out (drop_message base x))"
  shows "P (write_message e x)"
  using assms(1)
proof (induction "length (c_messages (x_conn x))" arbitrary: x rule: less_induct)
  case (less x)
  show ?case
  proof (cases "c_connected (x_conn x)")
    case conn: True
    let ?x1 = "on_conn timer_cancel x"
    consider (Nil) "c_messages (x_conn x) = []"
      | (None) rest where "c_messages (x_conn x) = None # rest"
      | (Some) msg rest where "c_messages (x_conn x) = Some msg # rest"
      by (metis list.exhaust option.exhaust)
    then show ?thesis
    proof cases
      case Nil
      with conn idle [OF less.prems] show ?thesis by (simp add: write_message.simps)
    next
      case None
      with conn last [OF less.prems] show ?thesis by (simp add: write_message.simps)
    next
      case m: (Some msg rest)
      show ?thesis
      proof (cases "print_message msg (c_base (x_conn x))")
        case (Inl err)
        with m conn close [OF less.prems] show ?thesis
          by (simp add: write_message.simps handle_exception_def)
      next
        case (Inr r)
        obtain out printed base where r: "r = ((out, printed), base)" by (metis prod.exhaust)
        let ?x2 = "on_conn (\<lambda>c. c\<lparr>c_base := base, c_messages := rest\<rparr>) ?x1"
        have x2: "?x2 = drop_message base x"
          using m by (simp add: drop_message_def on_conn_def)
        show ?thesis
        proof (cases printed)
          case True
          with m conn Inr r message [OF less.prems conn m] show ?thesis
            by (simp add: write_message.simps start_write_def x2)
        next
          case False
          have "I ?x2" unfolding x2 using round [OF less.prems conn m] Inr r False by simp
          with m less.hyps [of ?x2] have "P (write_message e ?x2)" by simp
          with False m conn Inr r show ?thesis by (subst write_message.simps) simp
        qed
      qed
    qed
  qed (simp add: write_message.simps stop less.prems)
qed

text \<open>Answering a request: the state in which the answer is written, and what inserting the
  connection has done.\<close>

definition closes :: "(ctx \<Rightarrow> bool) \<Rightarrow> env \<Rightarrow> ctx \<Rightarrow> bool" where
  "closes P e x \<longleftrightarrow> P (cleanup e x) \<and> (\<forall>out. P (on_conn (send_out out W_cleanup) x)) \<and>
     (\<forall>out. P (start_write W_cleanup out x))"

lemma closes_dispatch: "closes P e x \<Longrightarrow> P (dispatch_error e err x)"
  by (rule dispatch_error_rule) (simp_all add: closes_def)

lemma closes_http: "closes P e x \<Longrightarrow> P (write_http_error e code x)"
  by (rule write_http_error_rule) (simp_all add: closes_def)

definition answering :: "connection_base \<Rightarrow> bool \<Rightarrow> bool \<Rightarrow> ctx \<Rightarrow> ctx" where
  "answering base s d x = on_conn (\<lambda>c. (timer_cancel c)\<lparr>c_base := base, c_single_message := s, c_disable_ping := d\<rparr>) x"

lemma answering_sel [simp]:
  "x_man (answering base s d x) = x_man x" "x_queue (answering base s d x) = x_queue x"
  "c_id (x_conn (answering base s d x)) = c_id (x_conn x)" "c_base (x_conn (answering base s d x)) = base"
  "c_pending (x_conn (answering base s d x)) = c_pending (x_conn x)"
  "c_connected (x_conn (answering base s d x)) = c_connected (x_conn x)"
  "c_managed (x_conn (answering base s d x)) = c_managed (x_conn x)"
  "c_socket_open (x_conn (answering base s d x)) = c_socket_open (x_conn x)"
  "c_writing_message (x_conn (answering base s d x)) = c_writing_message (x_conn x)"
  "c_timer (x_conn (answering base s d x)) = None" "c_single_message (x_conn (answering base s d x)) = s"
  "c_messages (x_conn (answering base s d x)) = c_messages (x_conn x)"
  "c_ready (x_conn (answering base s d x)) = c_ready (timer_cancel (x_conn x))"
  by (simp_all add: answering_def)

lemma init_formatters_name: "init_formatters fac req resp cb = Inr base \<Longrightarrow> cb_name base = cb_name cb"
  by (auto simp: init_formatters_def bind_result_def split: sum.splits)

lemma handled_rule:
  assumes early: "\<And>base s d. cb_name base = cb_name (c_base (x_conn x)) \<Longrightarrow> closes P e (answering base s d x)"
    and failed: "\<And>base s d err m. cb_name base = cb_name (c_base (x_conn x)) \<Longrightarrow> cb_name base \<noteq> [] \<Longrightarrow>
      insert_connection (e_crc32 e) (c_id (x_conn x)) base (x_man x) = (Inl err, m) \<Longrightarrow>
      closes P e ((answering base s d x)\<lparr>x_man := m\<rparr>)"
    and late: "\<And>base s d m. cb_name base = cb_name (c_base (x_conn x)) \<Longrightarrow> cb_name base \<noteq> [] \<Longrightarrow>
      insert_connection (e_crc32 e) (c_id (x_conn x)) base (x_man x) = (Inr False, m) \<Longrightarrow>
      closes P e ((answering base s d x)\<lparr>x_man := m\<rparr>)"
    and inserted: "\<And>base s d m y. cb_name base = cb_name (c_base (x_conn x)) \<Longrightarrow> cb_name base \<noteq> [] \<Longrightarrow>
      insert_connection (e_crc32 e) (c_id (x_conn x)) base (x_man x) = (Inr True, m) \<Longrightarrow>
      y = on_conn (\<lambda>c. c\<lparr>c_managed := True\<rparr>) ((answering base s d x)\<lparr>x_man := m\<rparr>) \<Longrightarrow>
      closes P e y \<and> (\<forall>out. P (on_conn (send_out out W_headers) y))"
  shows "P (handled e req resp x)"
proof -
  let ?c = "x_conn x"
  let ?base1 = "handle_response resp (c_base ?c)"
  have name1: "cb_name ?base1 = cb_name (c_base ?c)" by (simp add: handle_response_def)
  have x1: "on_conn (\<lambda>c. (timer_cancel c)\<lparr>c_base := handle_response resp (c_base c)\<rparr>) x
      = answering ?base1 (c_single_message ?c) (c_disable_ping ?c) x"
    by (simp add: answering_def on_conn_def timer_cancel_def)
  have x2: "on_conn (\<lambda>c. c\<lparr>c_single_message := s\<rparr>) (answering base s0 d x) = answering base s d x"
    "on_conn (\<lambda>c. c\<lparr>c_base := base', c_disable_ping := f c\<rparr>) (answering base s d0 x)
      = answering base' s (f (x_conn (answering base s d0 x))) x" for s s0 d d0 base base' f
    by (simp_all add: answering_def on_conn_def)
  have x3: "(answering base s d x)\<lparr>x_man := m, x_conn := (x_conn (answering base s d x))\<lparr>c_managed := True\<rparr>\<rparr>
      = on_conn (\<lambda>c. c\<lparr>c_managed := True\<rparr>) ((answering base s d x)\<lparr>x_man := m\<rparr>)" for base s d m
    by (simp add: on_conn_def)
  have static: "P (write_static_content e resp content (answering ?base1 s d x))" for content s d
    using early [OF name1, of s d] by - (rule write_static_content_rule [of P], simp_all add: closes_def)
  show ?thesis
  proof (cases "content_read (\<lambda>_. resp) (rs_content_ptr resp)")
    case (Some content)
    with static show ?thesis by (simp add: handled_def x1)
  next
    case None
    show ?thesis
    proof (cases "cb_name (c_base ?c) = []")
      case True
      with None name1 closes_http [OF early [OF name1]] show ?thesis by (simp add: handled_def x1)
    next
      case named: False
      show ?thesis
      proof (cases "init_formatters (cd_fmt_factory (e_data e)) req resp ?base1")
        case (Inl err)
        with None named name1 closes_dispatch [OF early [OF name1]] show ?thesis
          by (simp add: handled_def x1 x2)
      next
        case (Inr base)
        then have name: "cb_name base = cb_name (c_base ?c)" using init_formatters_name name1 by metis
        define d where "d = (cd_ping_interval (e_data e) < minimal_ping_interval \<or>
          ping_message (rs_single_message resp) (e_data e) = [])"
        let ?s = "rs_single_message resp"
        let ?ins = "insert_connection (e_crc32 e) (c_id ?c) base (x_man x)"
        have eq: "handled e req resp x =
          (case ?ins of
             (Inl err, m) \<Rightarrow> dispatch_error e err ((answering base ?s d x)\<lparr>x_man := m\<rparr>)
           | (Inr False, m) \<Rightarrow> cleanup e ((answering base ?s d x)\<lparr>x_man := m\<rparr>)
           | (Inr True, m) \<Rightarrow>
              (case write_headers e resp (on_conn (\<lambda>c. c\<lparr>c_managed := True\<rparr>) ((answering base ?s d x)\<lparr>x_man := m\<rparr>)) of
                 (Inl err, x4) \<Rightarrow> dispatch_error e err x4
               | (Inr _, x4) \<Rightarrow> x4))"
          unfolding handled_def Let_def x1 None option.case name1 answering_sel x2 Inr sum.case x3 d_def
          by (simp only: named if_False x2 answering_sel Inr sum.case x3)
        have nm: "cb_name base \<noteq> []" using named name by simp
        obtain r m where ins: "?ins = (r, m)" by fastforce
        consider (failed) err where "r = Inl err" | (late) "r = Inr False" | (ok) "r = Inr True"
          by (metis sum.exhaust)
        then show ?thesis
        proof cases
          case failed
          with eq ins closes_dispatch [OF assms(2) [OF name nm]] show ?thesis by simp
        next
          case late
          with eq ins assms(3) [OF name nm] show ?thesis by (simp add: closes_def)
        next
          case ok
          define y where "y = on_conn (\<lambda>c. c\<lparr>c_managed := True\<rparr>) ((answering base ?s d x)\<lparr>x_man := m\<rparr>)"
          note y = inserted [OF name nm ins [unfolded ok] y_def]
          have "P (case write_headers e resp y of (Inl err, x4) \<Rightarrow> dispatch_error e err x4 | (Inr _, x4) \<Rightarrow> x4)"
            using y closes_dispatch [of P e y]
            by (simp add: write_headers_def closes_def split: sum.splits prod.splits)
          with eq ins ok show ?thesis by (simp add: y_def)
        qed
      qed
    qed
  qed
qed

lemma handled_errors_rule:
  assumes "closes P e (on_conn timer_cancel x)"
  shows "P (handled_errors e code msg x)"
  by (simp add: handled_errors_def closes_dispatch [OF assms])

end
