(* ===== verification/Connection_Phase.thy ===== *)
theory Connection_Phase
  imports Connection_Rules
begin

text \<open>
  The discipline of a connection. The locale \<open>write_rules\<close> is the interface between the operations
  of \<open>connection_impl\<close> that wait, write and close, and a property of the states they lead to: three
  predicates (nothing more can be said than \<open>base\<close>; \<open>idle\<close>, when no write is outstanding; \<open>ok\<close>,
  between two events) with laws for the primitive steps. The flag \<open>n\<close> says whether the property speaks of the messages that
  are waiting when a timer is started. It is interpreted on the predicates that
  say that a connection writes one thing at a time and is registered exactly while it is managed.
\<close>

section \<open>Rules for the operations that wait and write\<close>

locale write_rules =
  fixes n :: bool and base idle ok :: "ctx \<Rightarrow> bool"
  assumes idle_base: "idle x \<Longrightarrow> base x"
    and base_cleanup: "base x \<Longrightarrow> ok (cleanup e x)"
    and idle_stop: "idle x \<Longrightarrow> \<not> c_connected (x_conn x) \<Longrightarrow> ok x"
    and idle_until: "idle x \<Longrightarrow> idle (until t x)"
    and idle_cancel: "idle x \<Longrightarrow> idle (on_conn timer_cancel x)"
    and base_out: "idle x \<Longrightarrow> base (on_conn (\<lambda>c. c\<lparr>c_out := out\<rparr>) x)"
    and idle_disable: "idle x \<Longrightarrow> idle (on_conn (\<lambda>c. c\<lparr>c_disable_ping := True\<rparr>) x)"
    and idle_assertion: "idle x \<Longrightarrow> idle (assertion b x)"
    and idle_drop: "idle x \<Longrightarrow> c_connected (x_conn x) \<Longrightarrow> c_messages (x_conn x) = Some msg # rest \<Longrightarrow>
      print_message msg (c_base (x_conn x)) = Inr ((out, False), cb) \<Longrightarrow> idle (drop_message cb x)"
    and idle_message: "idle x \<Longrightarrow> c_connected (x_conn x) \<Longrightarrow> c_messages (x_conn x) = Some msg # rest \<Longrightarrow>
      print_message msg (c_base (x_conn x)) = Inr ((out, True), cb) \<Longrightarrow> ok (start_write W_message out (drop_message cb x))"
    and idle_write: "idle x \<Longrightarrow> h = W_ping \<or> h = W_cleanup \<Longrightarrow> ok (start_write h out x)"
    and idle_timer: "idle x \<Longrightarrow> (n \<longrightarrow> c_connected (x_conn x) \<longrightarrow> c_messages (x_conn x) = []) \<Longrightarrow>
      th \<noteq> T_timeout \<Longrightarrow> ok (on_conn (timer_start th) x)"
begin

lemma idle_cleanup: "idle x \<Longrightarrow> ok (cleanup e x)"
  by (rule base_cleanup) (rule idle_base)

lemma write_last_ok: "idle x \<Longrightarrow> ok (write_last_message e x)"
  by (rule write_last_message_rule [of ok]) (simp_all add: base_cleanup base_out idle_write)

lemma inactive_ok: "idle x \<Longrightarrow> ok (handle_inactive_timeout e False x)"
  by (simp add: handle_inactive_timeout_def write_last_ok)

lemma setup_ping_ok:
  assumes "idle x" "n \<longrightarrow> c_connected (x_conn x) \<longrightarrow> c_messages (x_conn x) = []"
  shows "ok (setup_ping_or_inactive_timeout e x)"
proof -
  have "idle (until t x)"
    "n \<longrightarrow> c_connected (x_conn (until t x)) \<longrightarrow> c_messages (x_conn (until t x)) = []" for t
    using assms by (simp_all add: idle_until) (simp add: until_def)
  then show ?thesis
    by - (rule setup_ping_rule [of x ok], simp_all add: idle_timer base_cleanup base_out idle_write)
qed

lemma setup_inactive_ok:
  assumes "idle x" "n \<longrightarrow> c_connected (x_conn x) \<longrightarrow> c_messages (x_conn x) = []"
  shows "ok (setup_inactive_timeout e x)"
proof -
  have "setup_inactive_timeout e x =
      setup_ping_or_inactive_timeout e (until (e_clock e + int (cd_inactive_timeout (e_data e))) x)"
    by (simp add: setup_inactive_timeout_def until_def)
  moreover have "ok (setup_ping_or_inactive_timeout e (until t x))" for t
    using assms by (intro setup_ping_ok idle_until) (simp_all add: until_def)
  ultimately show ?thesis by simp
qed

lemma write_message_ok: "idle x \<Longrightarrow> ok (write_message e x)"
  by (rule write_message_rule [of idle])
    (simp_all add: idle_drop idle_message idle_stop idle_cancel setup_inactive_ok write_last_ok idle_cleanup)

lemma write_ping_ok:
  assumes "idle x" "n \<longrightarrow> c_connected (x_conn x) \<longrightarrow> c_messages (x_conn x) = []"
  shows "ok (write_ping_message e x)"
proof -
  let ?x1 = "assertion (\<not> c_disable_ping (x_conn x)) x"
  have x1: "x_conn ?x1 = x_conn x" by (simp add: assertion_def)
  have start: "on_conn (\<lambda>c. send_out out h (c\<lparr>c_writing_message := True\<rparr>)) y = start_write h out y" for out h y
    by (simp add: start_write_def)
  have "ok (start_write W_ping out ?x1)" for out
    by (simp add: idle_write idle_assertion assms(1))
  moreover have "ok (setup_ping_or_inactive_timeout e (on_conn (\<lambda>c. c\<lparr>c_disable_ping := True\<rparr>) ?x1))"
    using assms by (intro setup_ping_ok idle_disable idle_assertion) (simp_all add: x1)
  ultimately show ?thesis
    by (simp add: write_ping_message_def Let_def start split: prod.splits)
qed

lemmas write_oks = write_last_ok inactive_ok setup_ping_ok write_message_ok write_ping_ok idle_cleanup

end

section \<open>The two phases\<close>

text \<open>A connection is \<open>waiting\<close> while it reads the request, or while the request is with the worker
  threads: exactly one thing is outstanding and nothing is written or registered. From then on it
  is \<open>served\<close>, and never reads a request again.\<close>

definition early :: "conn \<Rightarrow> bool" where
  "early c \<longleftrightarrow> Io_handshake \<in> set (c_pending c) \<or> Io_read_request \<in> set (c_pending c)"

definition asked :: "ctx \<Rightarrow> nat" where
  "asked x = length (filter (\<lambda>p. snd p = c_id (x_conn x)) (tq_items (x_queue x)))"

definition served :: "ctx \<Rightarrow> bool" where
  "served x \<longleftrightarrow> \<not> early (x_conn x) \<and> asked x = 0"

section \<open>One write at a time\<close>

fun is_write :: "io_op \<Rightarrow> bool" where
  "is_write (Io_write _ _) = True"
| "is_write _ = False"

definition writes :: "conn \<Rightarrow> io_op list" where
  "writes c = filter is_write (c_pending c)"

definition header_write :: "conn \<Rightarrow> bool" where
  "header_write c \<longleftrightarrow> (\<exists>w. Io_write w W_headers \<in> set (c_pending c))"

definition aborted :: "conn \<Rightarrow> bool" where
  "aborted c \<longleftrightarrow> (\<forall>p\<in>set (c_ready c). snd p)"

definition write_base :: "conn \<Rightarrow> bool" where
  "write_base c \<longleftrightarrow> aborted c \<and> length (writes c) \<le> 1 \<and> (header_write c \<longrightarrow> \<not> c_writing_message c)"

definition write_idle :: "conn \<Rightarrow> bool" where
  "write_idle c \<longleftrightarrow> aborted c \<and> writes c = [] \<and>
     (c_connected c \<longrightarrow> \<not> c_writing_message c \<and> Io_read_some \<in> set (c_pending c))"

definition write_ok :: "conn \<Rightarrow> bool" where
  "write_ok c \<longleftrightarrow> write_base c \<and>
     (c_connected c \<longrightarrow> Io_read_some \<in> set (c_pending c) \<and> (c_writing_message c \<longleftrightarrow> writes c \<noteq> [])) \<and>
     (c_connected c \<and> c_messages c \<noteq> [] \<longrightarrow> c_writing_message c) \<and>
     (c_timer c \<in> {Some T_ping, Some T_inactive} \<longrightarrow> writes c = [])"

section \<open>Registered while managed\<close>

definition accepts :: "manager \<Rightarrow> bool" where
  "accepts m \<longleftrightarrow> cm_queues m \<noteq> None \<or> (\<forall>l\<in>set (cm_listeners m). \<forall>to cid. ul_opened l to cid = Inr ())"

definition registry_ok :: "ctx \<Rightarrow> bool" where
  "registry_ok x \<longleftrightarrow>
     cm_failed (x_man x) \<or>
     accepts (x_man x) \<and>
     (cm_finished (x_man x) \<or> (registered (c_id (x_conn x)) (x_man x) \<longleftrightarrow> c_managed (x_conn x))) \<and>
     (c_connected (x_conn x) \<longrightarrow> c_managed (x_conn x) \<and> c_socket_open (x_conn x)) \<and>
     (c_managed (x_conn x) \<longrightarrow> cb_name (c_base (x_conn x)) \<noteq> []) \<and>
     (header_write (x_conn x) \<longrightarrow> c_managed (x_conn x) \<or> \<not> c_socket_open (x_conn x))"

text \<open>The invariant: \<open>n\<close> says whether timers run without delay, \<open>a\<close> whether listeners accept.\<close>

definition inv_base :: "bool \<Rightarrow> bool \<Rightarrow> ctx \<Rightarrow> bool" where
  "inv_base n a x \<longleftrightarrow> served x \<and> (n \<longrightarrow> write_base (x_conn x)) \<and> (a \<longrightarrow> registry_ok x)"

definition inv_idle :: "bool \<Rightarrow> bool \<Rightarrow> ctx \<Rightarrow> bool" where
  "inv_idle n a x \<longleftrightarrow> served x \<and> (n \<longrightarrow> write_idle (x_conn x)) \<and> (a \<longrightarrow> registry_ok x)"

definition inv_ok :: "bool \<Rightarrow> bool \<Rightarrow> ctx \<Rightarrow> bool" where
  "inv_ok n a x \<longleftrightarrow> served x \<and> (n \<longrightarrow> write_ok (x_conn x)) \<and> (a \<longrightarrow> registry_ok x)"

section \<open>The laws of the primitive steps\<close>

lemma remove_connection_keeps:
  "accepts (remove_connection crc32 cid cb m) \<longleftrightarrow> accepts m"
  "cm_failed m \<Longrightarrow> cm_failed (remove_connection crc32 cid cb m)"
  by (auto simp: accepts_def remove_connection_def manager_fire_defs split: option.splits sum.splits prod.splits)

lemmas conn_state_defs = served_def asked_def early_def writes_def header_write_def aborted_def

lemmas step_defs = until_def drop_message_def start_write_def assertion_def

lemma registry_cleanup: "registry_ok x \<Longrightarrow> registry_ok (cleanup e x)"
  by (auto simp: registry_ok_def Let_def header_write_def remove_connection_keeps remove_connection_outcome)

lemma write_cleanup: "write_base (x_conn x) \<Longrightarrow> write_ok (x_conn (cleanup e x))"
  by (auto simp: write_base_def write_ok_def writes_def header_write_def aborted_def cleanup_def timer_cancel_def
      Let_def split: option.splits)

lemma aborted_cancel [simp]: "aborted (timer_cancel c) \<longleftrightarrow> aborted c"
  by (auto simp: aborted_def timer_cancel_def split: option.splits)

lemma no_headers: "writes c = [] \<Longrightarrow> \<not> header_write c"
  by (auto simp: writes_def header_write_def filter_empty_conv)

lemma inv_drop:
  "inv_idle n a x \<Longrightarrow> cb_name cb = cb_name (c_base (x_conn x)) \<Longrightarrow> inv_idle n a (drop_message cb x)"
  by (auto simp: inv_idle_def served_def asked_def early_def writes_def header_write_def
      write_idle_def registry_ok_def drop_message_def Let_def aborted_def timer_cancel_def split: option.splits)

lemma inv_write: "inv_idle n a x \<Longrightarrow> h \<noteq> W_headers \<Longrightarrow> inv_ok n a (start_write h out x)"
  by (auto simp: inv_idle_def inv_ok_def served_def asked_def early_def writes_def header_write_def
      write_idle_def write_base_def write_ok_def registry_ok_def start_write_def Let_def aborted_def
      timer_cancel_def filter_empty_conv split: option.splits)

interpretation wr: write_rules n "inv_base n a" "inv_idle n a" "inv_ok n a"
proof
  fix x :: ctx and cb :: connection_base and h :: write_handler and th :: timer_handler
    and t :: int and out :: string and b :: bool
  show "inv_idle n a x \<Longrightarrow> inv_base n a x"
    by (auto simp: inv_idle_def inv_base_def write_idle_def write_base_def no_headers)
  show "inv_base n a x \<Longrightarrow> inv_ok n a (cleanup e x)" for e
    using write_cleanup [of x e] registry_cleanup [of x e]
    by (simp add: inv_base_def inv_ok_def served_def asked_def early_def)
  show "inv_ok n a x" if "inv_idle n a x" "\<not> c_connected (x_conn x)"
    using that by (auto simp: inv_idle_def inv_ok_def write_idle_def write_base_def write_ok_def no_headers)
  show "inv_idle n a x \<Longrightarrow> inv_idle n a (until t x)"
    by (auto simp: inv_idle_def conn_state_defs write_idle_def registry_ok_def until_def)
  show "inv_idle n a x \<Longrightarrow> inv_idle n a (on_conn timer_cancel x)"
    by (auto simp: inv_idle_def served_def asked_def early_def writes_def write_idle_def registry_ok_def header_write_def Let_def)
  show "inv_idle n a x \<Longrightarrow> inv_base n a (on_conn (\<lambda>c. c\<lparr>c_out := out\<rparr>) x)"
    by (auto simp: inv_idle_def inv_base_def conn_state_defs write_idle_def write_base_def registry_ok_def filter_empty_conv)
  show "inv_idle n a x \<Longrightarrow> inv_idle n a (on_conn (\<lambda>c. c\<lparr>c_disable_ping := True\<rparr>) x)"
    by (auto simp: inv_idle_def conn_state_defs write_idle_def registry_ok_def)
  show "inv_idle n a x \<Longrightarrow> inv_idle n a (assertion b x)"
    by (auto simp: inv_idle_def conn_state_defs write_idle_def registry_ok_def assertion_def)
  show "inv_idle n a (drop_message cb x)" if "inv_idle n a x" "print_message msg (c_base (x_conn x)) = Inr ((out, False), cb)" for msg
    using that by (intro inv_drop print_message_name)
  show "inv_ok n a (start_write W_message out (drop_message cb x))"
    if "inv_idle n a x" "print_message msg (c_base (x_conn x)) = Inr ((out, True), cb)" for msg
    using that by (intro inv_write inv_drop print_message_name) simp_all
  show "inv_ok n a (start_write h out x)" if "inv_idle n a x" "h = W_ping \<or> h = W_cleanup"
    using that by (intro inv_write) auto
  show "inv_ok n a (on_conn (timer_start th) x)"
    if "inv_idle n a x" "n \<longrightarrow> c_connected (x_conn x) \<longrightarrow> c_messages (x_conn x) = []" "th \<noteq> T_timeout"
    using that by (auto simp: inv_idle_def inv_ok_def served_def asked_def early_def writes_def header_write_def
        write_idle_def write_base_def write_ok_def registry_ok_def Let_def aborted_def
        timer_cancel_def filter_empty_conv split: option.splits)
qed

end
