(* ===== verification/Connection_Safety.thy ===== *)
theory Connection_Safety
  imports Connection_Phase
begin

text \<open>
  Every event keeps the discipline of a connection, from which follow the properties of all runs:
  one write at a time, messages that are never stuck, and a registry that agrees with the
  connections.
\<close>

section \<open>Answering a request\<close>

definition quiet :: "bool \<Rightarrow> bool \<Rightarrow> ctx \<Rightarrow> bool" where
  "quiet n a x \<longleftrightarrow> \<not> c_connected (x_conn x) \<and> \<not> c_managed (x_conn x) \<and> \<not> c_writing_message (x_conn x) \<and>
     c_timer (x_conn x) \<in> {None, Some T_timeout} \<and> (\<forall>p\<in>set (c_ready (x_conn x)). fst p = T_timeout) \<and>
     (n \<longrightarrow> aborted (x_conn x)) \<and>
     (a \<longrightarrow> cm_failed (x_man x) \<or>
        accepts (x_man x) \<and> (cm_finished (x_man x) \<or> \<not> registered (c_id (x_conn x)) (x_man x)))"

definition waiting :: "bool \<Rightarrow> bool \<Rightarrow> ctx \<Rightarrow> bool" where
  "waiting n a x \<longleftrightarrow> quiet n a x \<and>
     (asked x = 0 \<and> c_pending (x_conn x) \<in> {[Io_handshake], [Io_read_request]} \<or>
      asked x = 1 \<and> c_pending (x_conn x) = [])"

definition fresh :: "bool \<Rightarrow> bool \<Rightarrow> ctx \<Rightarrow> bool" where
  "fresh n a x \<longleftrightarrow> quiet n a x \<and> asked x = 0 \<and> c_pending (x_conn x) = []"

lemma listener_opened_accepts:
  assumes "accepts m" "listener_opened crc32 to cid m = (Inl err, m')"
  shows "cm_failed m'"
proof (cases "cm_queues m")
  case None
  have loop: "\<exists>evs. opened_loop to cid k ls = ((k + length ls, None), evs)"
    if "\<forall>l\<in>set ls. \<forall>to i. ul_opened l to i = Inr ()" for k ls
    using that
  proof (induction ls arbitrary: k)
    case (Cons l ls)
    from Cons.IH [of "Suc k"] Cons.prems obtain evs where
      "opened_loop to cid (Suc k) ls = ((Suc k + length ls, None), evs)" by auto
    with Cons.prems show ?case by simp
  qed simp
  from None assms(1) loop [of "cm_listeners m" 0] obtain evs where
    "opened_loop to cid 0 (cm_listeners m) = ((length (cm_listeners m), None), evs)"
    by (auto simp: accepts_def)
  with None assms(2) show ?thesis by (simp add: listener_opened_def notify_connection_opened_def)
qed (use assms(2) in \<open>auto simp: listener_opened_def split: sum.splits\<close>)

lemma insert_connection_accepts:
  assumes "insert_connection crc32 cid cb m = (r, m')"
  shows "cm_failed m \<Longrightarrow> cm_failed m'" "accepts m' \<longleftrightarrow> accepts m"
    "accepts m \<Longrightarrow> \<not> registered cid m \<Longrightarrow> r = Inl err \<Longrightarrow> cm_failed m'"
    "r = Inl err \<Longrightarrow> \<not> cm_finished m"
proof -
  show "cm_failed m \<Longrightarrow> cm_failed m'" "accepts m' \<longleftrightarrow> accepts m" "r = Inl err \<Longrightarrow> \<not> cm_finished m"
    using assms by (auto simp: insert_connection_def accepts_def manager_fire_defs
        split: if_splits option.splits sum.splits prod.splits)
  assume a: "accepts m" "\<not> registered cid m" "r = Inl err"
  let ?m1 = "m\<lparr>cm_connections := cm_connections m @ [(cid, cb_name cb)]\<rparr>"
  from a assms have fire: "fire_connection_opened crc32 cid cb ?m1 = (Inl err, m')"
    by (auto simp: insert_connection_def registered_def split: if_splits sum.splits prod.splits)
  have acc: "accepts ?m1" using a(1) by (simp add: accepts_def)
  obtain r2 m2 where st: "manager_stat True cb ?m1 = (r2, m2)" by fastforce
  have "accepts m2" "r2 \<noteq> Inr () \<longrightarrow> cm_failed m2"
    using st acc by (auto simp: manager_stat_def accepts_def split: option.splits sum.splits)
  with st fire show "cm_failed m'"
    using listener_opened_accepts [of m2] by (auto simp: fire_connection_opened_def split: sum.splits)
qed

lemma quiet_conn:
  "quiet n a x \<Longrightarrow> quiet n a (on_conn timer_cancel x)"
  "quiet n a x \<Longrightarrow> quiet n a (answering base s d x)"
  "quiet n a x \<Longrightarrow> quiet n a (on_conn (\<lambda>c. c\<lparr>c_base := base\<rparr>) x)"
  "quiet n a x \<Longrightarrow> quiet n a (on_conn (\<lambda>c. c\<lparr>c_is_policy := s\<rparr>) x)"
  by (auto simp: quiet_def answering_def aborted_def timer_cancel_def split: option.splits)

lemma fresh_conn:
  "fresh n a x \<Longrightarrow> fresh n a (on_conn timer_cancel x)"
  "fresh n a x \<Longrightarrow> fresh n a (answering base s d x)"
  "fresh n a x \<Longrightarrow> fresh n a (on_conn (\<lambda>c. c\<lparr>c_base := base\<rparr>) x)"
  "fresh n a x \<Longrightarrow> fresh n a (on_conn (\<lambda>c. c\<lparr>c_is_policy := s\<rparr>) x)"
  using quiet_conn [of n a x] by (simp_all add: fresh_def asked_def)

lemma fresh_name:
  assumes "fresh n a x"
  shows "fresh n a (on_conn (\<lambda>c. c\<lparr>c_base := set_name receiver (c_base c)\<rparr>) x)"
  using fresh_conn(3) [OF assms, of "set_name receiver (c_base (x_conn x))"] by (simp add: on_conn_def)

lemma fresh_idle: "fresh n a x \<Longrightarrow> inv_idle n a x"
  by (auto simp: fresh_def quiet_def inv_idle_def served_def early_def write_idle_def writes_def
      registry_ok_def header_write_def)

lemma idle_send:
  assumes "inv_idle n a x" "\<not> c_connected (x_conn x)"
    and "h = W_headers \<longrightarrow> \<not> c_writing_message (x_conn x) \<and> c_managed (x_conn x)"
  shows "inv_ok n a (on_conn (send_out out h) x)"
  using assms by (auto simp: inv_idle_def inv_ok_def served_def asked_def early_def writes_def header_write_def
      write_idle_def write_base_def write_ok_def registry_ok_def aborted_def timer_cancel_def
      filter_empty_conv split: option.splits)

lemma closesI:
  "inv_idle n a x \<Longrightarrow> \<not> c_connected (x_conn x) \<Longrightarrow> closes (inv_ok n a) e x"
  by (simp add: closes_def wr.idle_cleanup wr.idle_write idle_send)

lemma fresh_closes: "fresh n a x \<Longrightarrow> closes (inv_ok n a) e x"
  by (rule closesI) (simp_all add: fresh_idle, simp add: fresh_def quiet_def)

lemma inserted_ok:
  assumes "fresh n a x" "insert_connection (e_crc32 e) (c_id (x_conn x)) base (x_man x) = (Inr True, m)"
    and y: "y = on_conn (\<lambda>c. c\<lparr>c_managed := True\<rparr>) ((answering base s d x)\<lparr>x_man := m\<rparr>)"
    and "cb_name base \<noteq> []"
  shows "closes (inv_ok n a) e y \<and> (\<forall>out. inv_ok n a (on_conn (send_out out W_headers) y))"
proof
  note ins = insert_connection_outcome [OF assms(2)] insert_connection_accepts [OF assms(2)]
  have c: "\<not> c_connected (x_conn y)" using assms(1) by (simp add: y fresh_def quiet_def)
  have "inv_idle n a y"
    using assms(1,4) ins fresh_conn(2) [OF assms(1), of base s d]
    by (auto simp: y fresh_def quiet_def inv_idle_def served_def asked_def early_def write_idle_def writes_def
      registry_ok_def header_write_def aborted_def)
  with c show "closes (inv_ok n a) e y" by (intro closesI)
  show "\<forall>out. inv_ok n a (on_conn (send_out out W_headers) y)"
    using assms(1) by (intro allI idle_send \<open>inv_idle n a y\<close> c) (simp add: y fresh_def quiet_def)
qed

lemma handled_ok:
  assumes "fresh n a x"
  shows "inv_ok n a (handled e req resp x)"
proof (rule handled_rule [of x "inv_ok n a"])
  fix base s d m err y
  show "closes (inv_ok n a) e (answering base s d x)"
    by (intro fresh_closes fresh_conn assms)
  assume name: "cb_name base \<noteq> []"
  { assume ins: "insert_connection (e_crc32 e) (c_id (x_conn x)) base (x_man x) = (Inl err, m)"
    then have "fresh n a ((answering base s d x)\<lparr>x_man := m\<rparr>)"
      using insert_connection_accepts [OF ins] fresh_conn(2) [OF assms, of base s d] assms
      by (auto simp: fresh_def quiet_def asked_def)
    then show "closes (inv_ok n a) e ((answering base s d x)\<lparr>x_man := m\<rparr>)" by (rule fresh_closes) }
  { assume ins: "insert_connection (e_crc32 e) (c_id (x_conn x)) base (x_man x) = (Inr False, m)"
    then have "m = x_man x" using insert_connection_outcome by blast
    then have "(answering base s d x)\<lparr>x_man := m\<rparr> = answering base s d x" by (simp add: answering_def on_conn_def)
    then show "closes (inv_ok n a) e ((answering base s d x)\<lparr>x_man := m\<rparr>)"
      by (simp add: fresh_closes fresh_conn assms) }
  { assume "insert_connection (e_crc32 e) (c_id (x_conn x)) base (x_man x) = (Inr True, m)"
      "y = on_conn (\<lambda>c. c\<lparr>c_managed := True\<rparr>) ((answering base s d x)\<lparr>x_man := m\<rparr>)"
    then show "closes (inv_ok n a) e y \<and> (\<forall>out. inv_ok n a (on_conn (send_out out W_headers) y))"
      using name by (intro inserted_ok [OF assms]) }
qed

lemma handled_errors_ok: "fresh n a x \<Longrightarrow> inv_ok n a (handled_errors e code msg x)"
  by (rule handled_errors_rule) (intro fresh_closes fresh_conn)

section \<open>The events of the first phase\<close>

definition conn_inv :: "bool \<Rightarrow> bool \<Rightarrow> ctx \<Rightarrow> bool" where
  "conn_inv n a x \<longleftrightarrow> inv_ok n a x \<or> waiting n a x"

lemma invoke_ok:
  assumes "fresh n a x" "invoke e req resp x = (r, x')"
  shows "(\<exists>err. r = Inl err) \<and> fresh n a x' \<or> r = Inr () \<and> conn_inv n a x'"
proof (cases "rh_threaded (e_handler e)")
  case True
  obtain r' q where tq: "threaded_invoke_handler (e_handler e) (c_id (x_conn x)) req resp (x_queue x) = (r', q)"
    by fastforce
  then have "(\<exists>err. r' = Inl err) \<and> q = x_queue x \<or>
      r' = Inr () \<and> (\<exists>h. q = (x_queue x)\<lparr>tq_items := tq_items (x_queue x) @ [(h, c_id (x_conn x))]\<rparr>)"
    by (auto simp: threaded_invoke_handler_def queue_push_def split: sum.splits bool.splits prod.splits if_splits)
  then have q: "(\<exists>err. r' = Inl err) \<and> q = x_queue x \<or>
      r' = Inr () \<and> asked (x\<lparr>x_queue := q\<rparr>) = Suc (asked x)"
    by (auto simp: asked_def)
  have quiet: "quiet n a (x\<lparr>x_queue := q\<rparr>) = quiet n a x" by (simp add: quiet_def)
  have x': "r = r'" "x' = x\<lparr>x_queue := q\<rparr>"
    using True tq assms(2) by (simp_all add: invoke_def)
  from q show ?thesis
  proof
    assume "(\<exists>err. r' = Inl err) \<and> q = x_queue x"
    with assms(1) x' show ?thesis by simp
  next
    assume "r' = Inr () \<and> asked (x\<lparr>x_queue := q\<rparr>) = Suc (asked x)"
    with assms(1) x' quiet show ?thesis by (simp add: fresh_def conn_inv_def waiting_def)
  qed
next
  case False
  let ?x1 = "\<lambda>receiver. on_conn (\<lambda>c. c\<lparr>c_base := set_name receiver (c_base c)\<rparr>) x"
  have f: "fresh n a (?x1 receiver)" for receiver
    using fresh_name [OF assms(1)] .
  have h: "conn_inv n a (handled e req resp' (?x1 receiver))" for receiver resp'
    by (simp only: conn_inv_def handled_ok [OF f] simp_thms)
  show ?thesis
    using False assms f h unfolding invoke_def invoke_handler_def Let_def
    by (auto split: sum.splits bool.splits)
qed

lemma fresh_ok:
  assumes "fresh n a x"
  shows "conn_inv n a (cleanup e x)" "conn_inv n a (dispatch_error e err x)"
    "conn_inv n a (write_http_error e code x)" "conn_inv n a (write_policy_data e x)"
    "conn_inv n a (parse_failed e err x)"
proof -
  note c = fresh_closes [OF assms, of e]
  show "conn_inv n a (cleanup e x)" using c by (simp add: conn_inv_def closes_def)
  show "conn_inv n a (dispatch_error e err x)" using closes_dispatch [OF c] by (simp add: conn_inv_def)
  have http: "conn_inv n a (write_http_error e code x)" for code
    using closes_http [OF c] by (simp add: conn_inv_def)
  then show "conn_inv n a (write_http_error e code x)" "conn_inv n a (parse_failed e err x)"
    by (simp_all add: parse_failed_def split: xiva_error.splits)
  show "conn_inv n a (write_policy_data e x)"
    by (rule write_policy_data_rule [of "conn_inv n a"])
      (use c in \<open>auto simp: conn_inv_def closes_def\<close>)
qed

lemma read_request_ok: "fresh n a x \<Longrightarrow> conn_inv n a (read_request e x)"
  by (auto simp: fresh_def quiet_def conn_inv_def waiting_def read_request_def asked_def setup_timeout_def
      aborted_def timer_cancel_def split: option.splits)

lemma handle_read_request_ok:
  assumes "fresh n a x"
  shows "conn_inv n a (handle_read_request e code x)"
proof -
  let ?x1 = "on_conn timer_cancel x"
  have f: "fresh n a ?x1" by (intro fresh_conn assms)
  have policy: "conn_inv n a (write_policy_data e (on_conn (\<lambda>c. c\<lparr>c_is_policy := True\<rparr>) ?x1))"
    by (intro fresh_ok fresh_conn f)
  have run: "conn_inv n a (case invoke e req resp (on_conn (\<lambda>c. c\<lparr>c_base := base\<rparr>) ?x1) of
      (Inl err, x2) \<Rightarrow> dispatch_error e err x2 | (Inr _, x2) \<Rightarrow> x2)" for req resp base
  proof -
    obtain r x2 where i: "invoke e req resp (on_conn (\<lambda>c. c\<lparr>c_base := base\<rparr>) ?x1) = (r, x2)" by fastforce
    from invoke_ok [OF fresh_conn(3) [OF f] i] show ?thesis by (auto simp: i fresh_ok)
  qed
  have parse: "conn_inv n a (parse_failed e err (on_conn (\<lambda>c. c\<lparr>c_base := base\<rparr>) ?x1))" for err base
    by (intro fresh_ok fresh_conn f)
  show ?thesis
    unfolding handle_read_request_def Let_def handle_error_def handle_exception_def
    using f policy run parse by (simp add: fresh_ok split: sum.splits prod.splits)
qed

lemma run_answer_ok:
  assumes "fresh n a x"
  shows "conn_inv n a (run_answer e h x)"
proof -
  obtain h' name where p: "process_request exception_what (e_handler e) h = (h', name)" by fastforce
  define x1 where "x1 = (case name of None \<Rightarrow> x
    | Some receiver \<Rightarrow> on_conn (\<lambda>c. c\<lparr>c_base := set_name receiver (c_base c)\<rparr>) x)"
  have "fresh n a x1" using assms fresh_name [OF assms] by (simp add: x1_def split: option.splits)
  then have "inv_ok n a (handled e req resp x1)" "inv_ok n a (handled_errors e code msg x1)" for req resp code msg
    by (rule handled_ok handled_errors_ok)+
  then show ?thesis
    unfolding run_answer_def p prod.case Let_def x1_def [symmetric] conn_inv_def
    by (simp only: simp_thms split: answer.split)
qed

lemma asked_cleanup [simp]: "asked (cleanup e x) = asked x"
  by (simp add: asked_def)

lemma quiet_cleanup: "quiet n a x \<Longrightarrow> quiet n a (cleanup e x)"
  by (auto simp: quiet_def aborted_def timer_cancel_def split: option.splits)

lemma waiting_cleanup: "waiting n a x \<Longrightarrow> waiting n a (cleanup e x)"
  by (simp add: waiting_def quiet_cleanup)

text \<open>Changes of a waiting connection that leave its operation and its place in the queue alone.\<close>

lemma waiting_step:
  assumes "waiting n a x" "quiet n a x'" "x_queue x' = x_queue x" "c_id (x_conn x') = c_id (x_conn x)"
    "c_pending (x_conn x') = c_pending (x_conn x)"
  shows "waiting n a x'"
  using assms by (simp add: waiting_def asked_def)

text \<open>What is left when the outstanding operation of a waiting connection has completed.\<close>

lemma waiting_completes:
  assumes "waiting n a x" "Io_handshake \<in> set (c_pending (x_conn x)) \<or> Io_read_request \<in> set (c_pending (x_conn x))"
    "op \<in> set (c_pending (x_conn x))"
  shows "fresh n a (on_conn (\<lambda>c. c\<lparr>c_pending := remove1 op (c_pending c), c_in := s\<rparr>) x)"
  using assms by (auto simp: waiting_def fresh_def quiet_def asked_def aborted_def)

lemma waiting_answer:
  assumes "waiting n a x" "tq_items (x_queue x) = (h, c_id (x_conn x)) # q"
  shows "fresh n a (x\<lparr>x_queue := (x_queue x)\<lparr>tq_items := q\<rparr>\<rparr>)"
  using assms by (auto simp: waiting_def fresh_def quiet_def asked_def)

section \<open>The events of the second phase\<close>

text \<open>The state in which the completion of a write finds the connection.\<close>

definition completed :: "nat \<Rightarrow> string \<Rightarrow> ctx \<Rightarrow> ctx" where
  "completed k out x = on_conn (\<lambda>c. c\<lparr>c_pending := take k (c_pending c) @ drop (Suc k) (c_pending c), c_out := out\<rparr>) x"

lemma writes_completed:
  assumes "k < length (c_pending c)" "c_pending c ! k = Io_write w h"
  shows "length (filter is_write (c_pending c)) =
      Suc (length (filter is_write (take k (c_pending c) @ drop (Suc k) (c_pending c))))"
    "set (c_pending c) = insert (Io_write w h) (set (take k (c_pending c) @ drop (Suc k) (c_pending c)))"
proof -
  from assms have "c_pending c = take k (c_pending c) @ Io_write w h # drop (Suc k) (c_pending c)"
    by (metis id_take_nth_drop)
  then obtain us vs where ps: "c_pending c = us @ Io_write w h # vs" "take k (c_pending c) = us"
    "drop (Suc k) (c_pending c) = vs" by blast
  show "length (filter is_write (c_pending c)) =
      Suc (length (filter is_write (take k (c_pending c) @ drop (Suc k) (c_pending c))))"
    unfolding ps(2,3) by (simp add: ps(1))
  show "set (c_pending c) = insert (Io_write w h) (set (take k (c_pending c) @ drop (Suc k) (c_pending c)))"
    unfolding ps(2,3) by (simp add: ps(1))
qed

lemma completed_base:
  assumes "inv_ok n a x" "k < length (c_pending (x_conn x))" "c_pending (x_conn x) ! k = Io_write w h"
  shows "inv_base n a (completed k out x)"
    and "h \<in> {W_message, W_ping} \<Longrightarrow>
      inv_idle n a (on_conn (\<lambda>c. (timer_cancel c)\<lparr>c_writing_message := False\<rparr>) (completed k out x))"
    and "h = W_headers \<Longrightarrow> c_socket_open (x_conn x) \<Longrightarrow>
      inv_idle n a (read_some e (on_conn (\<lambda>c. c\<lparr>c_connected := True\<rparr>) (on_conn timer_cancel (completed k out x))))"
    and "h = W_headers \<Longrightarrow> \<not> c_socket_open (x_conn x) \<Longrightarrow> inv_ok n a (on_conn timer_cancel (completed k out x))"
proof -
  note w = writes_completed [OF assms(2,3)]
  have served: "served (completed k out x)"
    using assms(1) w(2) by (auto simp: inv_ok_def served_def early_def asked_def completed_def)
  have reg: "a \<longrightarrow> registry_ok (completed k out x)"
    using assms(1) w(2) by (auto simp: inv_ok_def registry_ok_def header_write_def completed_def)
  have one: "n \<longrightarrow> writes (x_conn (completed k out x)) = [] \<and> aborted (x_conn (completed k out x))"
    using assms(1) w(1) by (auto simp: inv_ok_def write_ok_def write_base_def writes_def completed_def aborted_def)
  then show "inv_base n a (completed k out x)"
    using served reg by (auto simp: inv_base_def write_base_def no_headers)
  have some: "n \<longrightarrow> c_connected (x_conn x) \<longrightarrow> Io_read_some \<in> set (c_pending (x_conn (completed k out x)))"
    using assms(1) w(2) by (auto simp: inv_ok_def write_ok_def completed_def)
  have conn: "c_connected (x_conn (completed k out x)) = c_connected (x_conn x)" by (simp add: completed_def)
  have headers: "h = W_headers \<Longrightarrow> a \<longrightarrow> cm_failed (x_man x) \<or> c_managed (x_conn x) \<or> \<not> c_socket_open (x_conn x)"
    using assms(1) w(2) by (auto simp: inv_ok_def registry_ok_def header_write_def)
  have hw: "h = W_headers \<Longrightarrow> n \<longrightarrow> \<not> c_writing_message (x_conn x)"
    using assms(1) w(2) by (auto simp: inv_ok_def write_ok_def write_base_def header_write_def)
  have hc: "h = W_headers \<Longrightarrow> n \<longrightarrow> \<not> c_connected (x_conn x)"
    using assms(1) w hw by (auto simp: inv_ok_def write_ok_def writes_def)
  have fields: "c_writing_message (x_conn (completed k out x)) = c_writing_message (x_conn x)"
    "c_managed (x_conn (completed k out x)) = c_managed (x_conn x)"
    "c_socket_open (x_conn (completed k out x)) = c_socket_open (x_conn x)"
    "x_man (completed k out x) = x_man x" "x_queue (completed k out x) = x_queue x"
    by (simp_all add: completed_def)
  let ?y = "completed k out x"
  show "inv_idle n a (on_conn (\<lambda>c. (timer_cancel c)\<lparr>c_writing_message := False\<rparr>) ?y)"
    using served reg one some conn
    by (auto simp: inv_idle_def served_def early_def asked_def write_idle_def writes_def registry_ok_def
        header_write_def aborted_def timer_cancel_def split: option.splits)
  show "inv_idle n a (read_some e (on_conn (\<lambda>c. c\<lparr>c_connected := True\<rparr>) (on_conn timer_cancel ?y)))"
    if "h = W_headers" "c_socket_open (x_conn x)"
    using served reg one headers [OF that(1)] hw [OF that(1)] that(2) fields
    by (auto simp: inv_idle_def served_def early_def asked_def write_idle_def writes_def registry_ok_def
        header_write_def aborted_def timer_cancel_def read_some_def async_op_def split: option.splits)
  show "inv_ok n a (on_conn timer_cancel ?y)" if "h = W_headers" "\<not> c_socket_open (x_conn x)"
    using served reg one hc [OF that(1)] hw [OF that(1)] conn fields
    by (auto simp: inv_ok_def served_def early_def asked_def write_ok_def write_base_def writes_def registry_ok_def
        header_write_def aborted_def timer_cancel_def filter_empty_conv split: option.splits)
qed

lemma base_cancel: "inv_base n a x \<Longrightarrow> inv_base n a (on_conn timer_cancel x)"
  by (auto simp: inv_base_def served_def early_def asked_def write_base_def writes_def registry_ok_def header_write_def)

lemma ok_base: "inv_ok n a x \<Longrightarrow> inv_base n a x"
  by (simp add: inv_ok_def inv_base_def write_ok_def)

lemma written_ok:
  assumes "inv_ok n a x" "k < length (c_pending (x_conn x))" "c_pending (x_conn x) ! k = Io_write w h"
  shows "inv_ok n a (run_write_handler e h code (completed k out x))"
proof -
  let ?y = "completed k out x"
  let ?x1 = "on_conn (\<lambda>c. (timer_cancel c)\<lparr>c_writing_message := False\<rparr>) ?y"
  note base = completed_base(1) [OF assms, of out]
  note idle = completed_base(2) [OF assms, of out]
  note open_sock = completed_base(3) [OF assms] and closed_sock = completed_base(4) [OF assms]
  show ?thesis
  proof (cases h)
    case W_headers
    have "c_socket_open (x_conn (on_conn timer_cancel ?y)) = c_socket_open (x_conn x)"
      by (simp add: completed_def)
    with W_headers show ?thesis
      using wr.base_cleanup [OF base_cancel [OF base]] wr.write_message_ok [OF open_sock] closed_sock
      by (simp add: run_write_handler_def handle_write_headers_def Let_def handle_error_def)
  next
    case W_message
    then have "inv_idle n a ?x1" using idle by simp
    with W_message show ?thesis
      by (simp add: run_write_handler_def handle_write_message_def Let_def handle_error_def wr.write_oks)
  next
    case W_ping
    then have i: "inv_idle n a (assertion b ?x1)" "inv_idle n a ?x1" for b
      using idle wr.idle_assertion by simp_all
    with W_ping show ?thesis
      by (simp add: run_write_handler_def handle_write_ping_message_def Let_def handle_error_def wr.write_oks)
  next
    case W_cleanup
    with base show ?thesis by (simp add: run_write_handler_def handle_cleanup_def wr.base_cleanup)
  qed
qed

lemma read_some_ok:
  assumes "inv_ok n a x" "Io_read_some \<in> set (c_pending (x_conn x))"
  shows "inv_ok n a (handle_read_some e code
    (on_conn (\<lambda>c. c\<lparr>c_pending := remove1 Io_read_some (c_pending c), c_in := s\<rparr>) x))"
proof -
  let ?y = "on_conn (\<lambda>c. c\<lparr>c_pending := remove1 Io_read_some (c_pending c), c_in := s\<rparr>) x"
  have f: "filter is_write (remove1 Io_read_some ps) = filter is_write ps"
    and m: "op \<noteq> Io_read_some \<Longrightarrow> op \<in> set (remove1 Io_read_some ps) \<longleftrightarrow> op \<in> set ps" for ps op
    by (induction ps) auto
  have "inv_base n a ?y"
    using ok_base [OF assms(1)]
    by (simp add: inv_base_def served_def early_def asked_def write_base_def writes_def registry_ok_def
        header_write_def aborted_def f m)
  then have base: "inv_base n a (on_conn timer_cancel ?y)" by (rule base_cancel)
  let ?z = "read_some e (on_conn timer_cancel ?y)"
  have z: "c_pending (x_conn ?z) = remove1 Io_read_some (c_pending (x_conn x)) @ [Io_read_some]"
    "c_ready (x_conn ?z) = c_ready (timer_cancel (x_conn x))" "c_timer (x_conn ?z) = None"
    "c_id (x_conn ?z) = c_id (x_conn x)" "x_queue ?z = x_queue x" "x_man ?z = x_man x"
    "c_connected (x_conn ?z) = c_connected (x_conn x)" "c_managed (x_conn ?z) = c_managed (x_conn x)"
    "c_writing_message (x_conn ?z) = c_writing_message (x_conn x)" "c_messages (x_conn ?z) = c_messages (x_conn x)"
    "c_base (x_conn ?z) = c_base (x_conn x)" "c_socket_open (x_conn ?z) = c_socket_open (x_conn x)"
    by (simp_all add: read_some_def async_op_def timer_cancel_def)
  have "writes (x_conn ?z) = writes (x_conn x)" "header_write (x_conn ?z) = header_write (x_conn x)"
    "aborted (x_conn ?z) = aborted (timer_cancel (x_conn x))" "served ?z = served x"
    by (simp_all add: writes_def header_write_def aborted_def served_def early_def asked_def z f m)
  with assms(1) have "inv_ok n a ?z"
    by (auto simp: inv_ok_def write_ok_def write_base_def registry_ok_def z)
  with wr.base_cleanup [OF base, of e] show ?thesis
    by (auto simp: handle_read_some_def Let_def handle_error_def)
qed

lemma timer_ok:
  assumes "inv_ok n a x" "c_timer (x_conn x) = Some h"
  shows "inv_ok n a (run_timer_handler e h False (on_conn (\<lambda>c. c\<lparr>c_timer := None\<rparr>) x))"
    "inv_ok False a (on_conn (\<lambda>c. c\<lparr>c_timer := None, c_ready := c_ready c @ [(h, False)]\<rparr>) x)"
proof -
  let ?y = "on_conn (\<lambda>c. c\<lparr>c_timer := None\<rparr>) x"
  have base: "inv_base n a ?y"
    using assms(1) by (auto simp: inv_ok_def inv_base_def served_def early_def asked_def write_base_def write_ok_def
        writes_def registry_ok_def header_write_def aborted_def)
  have idle: "inv_idle n a ?y \<and> (n \<longrightarrow> c_connected (x_conn ?y) \<longrightarrow> c_messages (x_conn ?y) = [])"
    if "h \<noteq> T_timeout"
    using assms that by (cases h) (auto simp: inv_ok_def inv_idle_def served_def early_def asked_def write_idle_def
        write_base_def write_ok_def writes_def registry_ok_def header_write_def aborted_def)
  show "inv_ok False a (on_conn (\<lambda>c. c\<lparr>c_timer := None, c_ready := c_ready c @ [(h, False)]\<rparr>) x)"
    using assms(1) by (auto simp: inv_ok_def served_def early_def asked_def registry_ok_def header_write_def)
  show "inv_ok n a (run_timer_handler e h False ?y)"
  proof (cases h)
    case T_timeout
    with base show ?thesis by (simp add: run_timer_handler_def handle_timeout_def wr.base_cleanup)
  next
    case T_ping
    let ?z = "assertion (\<not> c_disable_ping (x_conn ?y)) ?y"
    have "x_conn ?z = x_conn ?y" by (simp add: assertion_def)
    with idle T_ping have "inv_ok n a (write_ping_message e ?z)"
      by (intro wr.write_ping_ok wr.idle_assertion) simp_all
    with T_ping show ?thesis by (simp add: run_timer_handler_def handle_ping_def)
  next
    case T_inactive
    with idle show ?thesis
      by (simp add: run_timer_handler_def handle_inactive_timeout_def wr.write_oks)
  qed
qed

text \<open>The handler of a timer that has been cancelled, or, when timers are late, has expired.\<close>

lemma ready_ok:
  assumes "inv_ok n a x" "c_ready (x_conn x) = (h, code) # hs"
  shows "inv_ok n a (run_timer_handler e h code (on_conn (\<lambda>c. c\<lparr>c_ready := hs\<rparr>) x))"
proof -
  let ?y = "on_conn (\<lambda>c. c\<lparr>c_ready := hs\<rparr>) x"
  have y: "inv_ok n a ?y"
    using assms by (auto simp: inv_ok_def served_def early_def asked_def write_base_def write_ok_def writes_def
        registry_ok_def header_write_def aborted_def)
  have asrt: "inv_ok n a (assertion b ?y)" for b
    using y by (auto simp: assertion_def inv_ok_def served_def early_def asked_def registry_ok_def)
  show ?thesis
  proof (cases code)
    case True
    with y asrt show ?thesis
      by (simp add: run_timer_handler_def handle_timeout_def handle_ping_def handle_inactive_timeout_def
          split: timer_handler.splits)
  next
    case False
    then have n: "\<not> n" using assms by (auto simp: inv_ok_def write_ok_def write_base_def aborted_def)
    then have idle: "inv_idle n a ?y" "inv_idle n a (assertion b ?y)" for b
      using y asrt [of b] by (simp_all add: inv_ok_def inv_idle_def)
    with False n show ?thesis
      by (simp add: run_timer_handler_def handle_timeout_def handle_ping_def handle_inactive_timeout_def
          wr.write_oks split: timer_handler.splits)
  qed
qed

lemma append_ok:
  assumes "inv_ok n a x"
  shows "inv_ok n a (send e m x)"
proof -
  let ?x1 = "on_conn (\<lambda>c. c\<lparr>c_messages := c_messages c @ [m]\<rparr>) x"
  show ?thesis
  proof (cases "\<not> c_writing_message (x_conn ?x1) \<and> c_connected (x_conn ?x1)")
    case True
    with assms have "inv_idle n a ?x1"
      by (auto simp: inv_ok_def inv_idle_def served_def early_def asked_def write_idle_def write_base_def
          write_ok_def writes_def registry_ok_def header_write_def aborted_def)
    with True show ?thesis by (simp add: send_def wr.write_message_ok)
  next
    case False
    with assms have "inv_ok n a ?x1"
      by (auto simp: inv_ok_def served_def early_def asked_def write_base_def write_ok_def writes_def
          registry_ok_def header_write_def aborted_def)
    with False show ?thesis by (auto simp: send_def Let_def)
  qed
qed

text \<open>At the finish of the manager the registry is gone.\<close>

lemma finished_ok:
  assumes "inv_ok n a x"
  shows "inv_ok n a (x\<lparr>x_man := (x_man x)\<lparr>cm_finished := True, cm_connections := []\<rparr>\<rparr>)"
  using assms by (auto simp: inv_ok_def served_def early_def asked_def registry_ok_def accepts_def)

lemma others_ok:
  assumes "inv_ok n a x" "registered (c_id (x_conn x)) m' \<longleftrightarrow> registered (c_id (x_conn x)) (x_man x)"
    "cm_finished m' = cm_finished (x_man x)" "accepts m' \<longleftrightarrow> accepts (x_man x)" "\<not> cm_failed (x_man x)"
  shows "inv_ok n a (x\<lparr>x_man := m'\<rparr>)"
  using assms by (auto simp: inv_ok_def served_def early_def asked_def registry_ok_def)

lemma served_keeps:
  assumes ok: "inv_ok n a x" and ev: "n \<longrightarrow> ev \<noteq> Ce_expires" and step: "conn_step e ev x = Some x'"
  shows "inv_ok n a x'"
proof -
  have nf: "\<not> cm_failed (x_man x)" using step by (auto simp: conn_step_def Let_def)
  have served: "\<not> early (x_conn x)" "asked x = 0" using ok by (simp_all add: inv_ok_def served_def)
  show ?thesis
  proof (cases ev)
    case (Ce_handshake code)
    with step served nf show ?thesis by (simp add: conn_step_def Let_def early_def)
  next
    case (Ce_request code data)
    with step served nf show ?thesis by (simp add: conn_step_def Let_def early_def)
  next
    case (Ce_some code data)
    with step nf read_some_ok [OF ok, of e code "c_in (x_conn x) @ data"] show ?thesis
      by (auto simp: conn_step_def Let_def on_conn_def split: if_splits)
  next
    case (Ce_written k code)
    with step nf obtain w h where k: "k < length (c_pending (x_conn x))" "c_pending (x_conn x) ! k = Io_write w h"
      "x' = run_write_handler e h code (completed k
        (if code then c_out (x_conn x) else drop (length w) (c_out (x_conn x))) x)"
      by (auto simp: conn_step_def Let_def completed_def on_conn_def split: if_splits io_op.splits)
    then show ?thesis using written_ok [OF ok k(1,2)] by simp
  next
    case Ce_timer
    with step nf timer_ok(1) [OF ok] show ?thesis by (auto simp: conn_step_def Let_def split: option.splits)
  next
    case Ce_expires
    with step nf ev timer_ok(2) [OF ok] show ?thesis by (auto simp: conn_step_def Let_def split: option.splits)
  next
    case Ce_ready
    with step nf obtain h code hs where r: "c_ready (x_conn x) = (h, code) # hs"
      "x' = run_timer_handler e h code (on_conn (\<lambda>c. c\<lparr>c_ready := hs\<rparr>) x)"
      by (auto simp: conn_step_def Let_def split: list.splits prod.splits)
    show ?thesis using ready_ok [OF ok r(1)] r(2) by simp
  next
    case (Ce_send m)
    with step nf append_ok [OF ok] show ?thesis by (auto simp: conn_step_def Let_def split: if_splits)
  next
    case Ce_close
    with step nf wr.base_cleanup [OF ok_base [OF ok], of e] show ?thesis
      by (auto simp: conn_step_def Let_def close_connection_def split: if_splits)
  next
    case Ce_shutdown
    note f = finished_ok [OF ok]
    from Ce_shutdown step nf f wr.base_cleanup [OF ok_base [OF append_ok [OF f]], of e] show ?thesis
      by (auto simp: conn_step_def Let_def close_connection_def finish_def split: if_splits)
  next
    case Ce_answer
    with step nf served(2) show ?thesis
      by (auto simp: conn_step_def Let_def asked_def split: list.splits if_splits)
  next
    case (Ce_others m')
    let ?m = "m'\<lparr>cm_listeners := cm_listeners (x_man x)\<rparr>"
    from Ce_others step nf have "x' = x\<lparr>x_man := ?m\<rparr>" "accepts ?m = accepts (x_man x)"
      "registered (c_id (x_conn x)) ?m = registered (c_id (x_conn x)) (x_man x)"
      "cm_finished ?m = cm_finished (x_man x)"
      by (auto simp: conn_step_def Let_def accepts_def registered_def split: if_splits)
    with nf others_ok [OF ok, of ?m] show ?thesis by simp
  qed
qed

lemma served_step:
  "inv_ok n a x \<Longrightarrow> n \<longrightarrow> ev \<noteq> Ce_expires \<Longrightarrow> conn_step e ev x = Some x' \<Longrightarrow> conn_inv n a x'"
  using served_keeps by (simp add: conn_inv_def)

section \<open>All runs\<close>

lemma waiting_quiet: "waiting n a x \<Longrightarrow> quiet n a x"
  by (simp add: waiting_def)

lemma waiting_conn: "waiting n a x \<Longrightarrow> \<not> c_connected (x_conn x)"
  by (simp add: waiting_def quiet_def)

lemma waiting_append:
  assumes "waiting n a x"
  shows "waiting n a (send e m x)"
proof -
  have "send e m x = on_conn (\<lambda>c. c\<lparr>c_messages := c_messages c @ [m]\<rparr>) x"
    using waiting_conn [OF assms] by (simp add: send_def)
  moreover have "quiet n a (on_conn (\<lambda>c. c\<lparr>c_messages := c_messages c @ [m]\<rparr>) x)"
    using waiting_quiet [OF assms] by (simp add: quiet_def aborted_def)
  ultimately show ?thesis using waiting_step [OF assms] by simp
qed

lemma waiting_timer:
  assumes "waiting n a x" "c_timer (x_conn x) = Some h"
  shows "h = T_timeout" "waiting n a (on_conn (\<lambda>c. c\<lparr>c_timer := None\<rparr>) x)"
    "waiting False a (on_conn (\<lambda>c. c\<lparr>c_timer := None, c_ready := c_ready c @ [(h, False)]\<rparr>) x)"
proof -
  show h: "h = T_timeout" using waiting_quiet [OF assms(1)] assms(2) by (auto simp: quiet_def)
  have "quiet n a (on_conn (\<lambda>c. c\<lparr>c_timer := None\<rparr>) x)"
    using waiting_quiet [OF assms(1)] by (simp add: quiet_def aborted_def)
  then show "waiting n a (on_conn (\<lambda>c. c\<lparr>c_timer := None\<rparr>) x)" by (rule waiting_step [OF assms(1)]) simp_all
  have f: "waiting False a x" using assms(1) by (simp add: waiting_def quiet_def)
  have "quiet False a (on_conn (\<lambda>c. c\<lparr>c_timer := None, c_ready := c_ready c @ [(h, False)]\<rparr>) x)"
    using waiting_quiet [OF f] h by (simp add: quiet_def)
  then show "waiting False a (on_conn (\<lambda>c. c\<lparr>c_timer := None, c_ready := c_ready c @ [(h, False)]\<rparr>) x)"
    by (rule waiting_step [OF f]) simp_all
qed

lemma waiting_ready:
  assumes "waiting n a x" "c_ready (x_conn x) = (h, code) # hs"
  shows "h = T_timeout" "waiting n a (on_conn (\<lambda>c. c\<lparr>c_ready := hs\<rparr>) x)"
proof -
  show "h = T_timeout" using waiting_quiet [OF assms(1)] assms(2) by (simp add: quiet_def)
  have "quiet n a (on_conn (\<lambda>c. c\<lparr>c_ready := hs\<rparr>) x)"
    using waiting_quiet [OF assms(1)] assms(2) by (simp add: quiet_def aborted_def)
  then show "waiting n a (on_conn (\<lambda>c. c\<lparr>c_ready := hs\<rparr>) x)" by (rule waiting_step [OF assms(1)]) simp_all
qed

lemma waiting_man:
  assumes "waiting n a x" "a \<longrightarrow> cm_failed m \<or> accepts m \<and> (cm_finished m \<or> \<not> registered (c_id (x_conn x)) m)"
  shows "waiting n a (x\<lparr>x_man := m\<rparr>)"
proof -
  have "quiet n a (x\<lparr>x_man := m\<rparr>)" using waiting_quiet [OF assms(1)] assms(2) by (simp add: quiet_def)
  then show ?thesis by (rule waiting_step [OF assms(1)]) simp_all
qed

lemma waiting_step_inv:
  assumes w: "waiting n a x" and ev: "n \<longrightarrow> ev \<noteq> Ce_expires" and step: "conn_step e ev x = Some x'"
  shows "conn_inv n a x'"
proof -
  have nf: "\<not> cm_failed (x_man x)" using step by (auto simp: conn_step_def Let_def)
  have ops: "set (c_pending (x_conn x)) \<subseteq> {Io_handshake, Io_read_request}"
    using w by (auto simp: waiting_def)
  have man: "a \<longrightarrow> accepts (x_man x) \<and> (cm_finished (x_man x) \<or> \<not> registered (c_id (x_conn x)) (x_man x))"
    using waiting_quiet [OF w] nf by (auto simp: quiet_def)
  show ?thesis
  proof (cases ev)
    case (Ce_handshake code)
    let ?y = "on_conn (\<lambda>c. c\<lparr>c_pending := remove1 Io_handshake (c_pending c)\<rparr>) x"
    from Ce_handshake step nf have h: "Io_handshake \<in> set (c_pending (x_conn x))" "x' = handle_handshake e code ?y"
      by (auto simp: conn_step_def Let_def split: if_splits)
    have "fresh n a ?y"
      using waiting_completes [OF w _ h(1), of "c_in (x_conn x)"] h(1) by (simp add: on_conn_def)
    then have f: "fresh n a (on_conn timer_cancel ?y)" by (rule fresh_conn)
    show ?thesis
      unfolding h(2) handle_handshake_def Let_def handle_error_def
      using fresh_ok(1) [OF f] read_request_ok [OF f] by simp
  next
    case (Ce_request code data)
    let ?y = "on_conn (\<lambda>c. c\<lparr>c_pending := remove1 Io_read_request (c_pending c), c_in := c_in c @ data\<rparr>) x"
    from Ce_request step nf have h: "Io_read_request \<in> set (c_pending (x_conn x))" "x' = handle_read_request e code ?y"
      by (auto simp: conn_step_def Let_def split: if_splits)
    have "fresh n a ?y"
      using waiting_completes [OF w _ h(1), of "c_in (x_conn x) @ data"] h(1) by (simp add: on_conn_def)
    then show ?thesis unfolding h(2) by (rule handle_read_request_ok)
  next
    case (Ce_some code data)
    with step nf ops show ?thesis by (auto simp: conn_step_def Let_def split: if_splits)
  next
    case (Ce_written k code)
    with step nf obtain v h where k: "k < length (c_pending (x_conn x))" "c_pending (x_conn x) ! k = Io_write v h"
      by (auto simp: conn_step_def Let_def split: if_splits io_op.splits)
    from nth_mem [OF k(1)] k(2) ops show ?thesis by auto
  next
    case Ce_timer
    with step nf obtain h where h: "c_timer (x_conn x) = Some h"
      "x' = run_timer_handler e h False (on_conn (\<lambda>c. c\<lparr>c_timer := None\<rparr>) x)"
      by (auto simp: conn_step_def Let_def split: option.splits)
    show ?thesis using waiting_cleanup [OF waiting_timer(2) [OF w h(1)]]
      by (simp add: h(2) waiting_timer(1) [OF w h(1)] run_timer_handler_def handle_timeout_def conn_inv_def)
  next
    case Ce_expires
    with step nf ev waiting_timer(3) [OF w] show ?thesis
      by (auto simp: conn_step_def Let_def conn_inv_def split: option.splits)
  next
    case Ce_ready
    with step nf obtain h code hs where r: "c_ready (x_conn x) = (h, code) # hs"
      "x' = run_timer_handler e h code (on_conn (\<lambda>c. c\<lparr>c_ready := hs\<rparr>) x)"
      by (auto simp: conn_step_def Let_def split: list.splits prod.splits)
    show ?thesis using waiting_ready [OF w r(1)] waiting_cleanup
      by (simp add: r(2) run_timer_handler_def handle_timeout_def conn_inv_def)
  next
    case (Ce_send m)
    with step nf waiting_append [OF w] show ?thesis
      by (auto simp: conn_step_def Let_def conn_inv_def split: if_splits)
  next
    case Ce_close
    with step nf waiting_cleanup [OF w] show ?thesis
      by (auto simp: conn_step_def Let_def close_connection_def conn_inv_def split: if_splits)
  next
    case Ce_shutdown
    let ?m = "(x_man x)\<lparr>cm_finished := True, cm_connections := []\<rparr>"
    have "a \<longrightarrow> cm_failed ?m \<or> accepts ?m \<and> (cm_finished ?m \<or> \<not> registered (c_id (x_conn x)) ?m)"
      using man by (simp add: accepts_def)
    then have f: "waiting n a (x\<lparr>x_man := ?m\<rparr>)" by (rule waiting_man [OF w])
    from Ce_shutdown step nf f waiting_cleanup [OF waiting_append [OF f]] show ?thesis
      by (auto simp: conn_step_def Let_def close_connection_def finish_def conn_inv_def split: if_splits)
  next
    case Ce_answer
    with step nf obtain h q where q: "tq_items (x_queue x) = (h, c_id (x_conn x)) # q"
      "x' = run_answer e h (x\<lparr>x_queue := (x_queue x)\<lparr>tq_items := q\<rparr>\<rparr>)"
      by (auto simp: conn_step_def Let_def split: list.splits prod.splits if_splits)
    show ?thesis unfolding q(2) by (rule run_answer_ok [OF waiting_answer [OF w q(1)]])
  next
    case (Ce_others m')
    let ?m = "m'\<lparr>cm_listeners := cm_listeners (x_man x)\<rparr>"
    from Ce_others step nf have m: "registered (c_id (x_conn x)) ?m = registered (c_id (x_conn x)) (x_man x)"
      "cm_finished ?m = cm_finished (x_man x)" "accepts ?m = accepts (x_man x)" "x' = x\<lparr>x_man := ?m\<rparr>"
      by (auto simp: conn_step_def Let_def accepts_def registered_def split: if_splits)
    have "waiting n a (x\<lparr>x_man := ?m\<rparr>)" using man by (intro waiting_man [OF w]) (simp add: m)
    with m show ?thesis by (simp add: conn_inv_def)
  qed
qed

end
