(* ===== verification/Connection_Frame.thy ===== *)
theory Connection_Frame
  imports Connection_Safety
begin

text \<open>
  Facts about a connection that its later events cannot change. The locale \<open>event_rules\<close> extends the
  laws of \<open>write_rules\<close> with one more, that a property does not look at what reading, writing and
  waiting change, and derives that every event of the second phase keeps it. It is interpreted
  twice: for connections that are in the registry without knowing it, and for everything that
  belongs to the other connections.
\<close>

section \<open>Rules for events\<close>

definition same_side :: "ctx \<Rightarrow> ctx \<Rightarrow> bool" where
  "same_side x x' \<longleftrightarrow> c_id (x_conn x') = c_id (x_conn x) \<and> x_queue x' = x_queue x \<and> x_man x' = x_man x \<and>
     early (x_conn x') = early (x_conn x) \<and> c_managed (x_conn x') = c_managed (x_conn x)"

locale event_rules = write_rules False K K K for K :: "ctx \<Rightarrow> bool" +
  assumes K_side: "K x \<Longrightarrow> same_side x x' \<Longrightarrow> K x'"
begin

lemma K_conn:
  "K x \<Longrightarrow> c_id (f (x_conn x)) = c_id (x_conn x) \<Longrightarrow> early (f (x_conn x)) = early (x_conn x) \<Longrightarrow>
   c_managed (f (x_conn x)) = c_managed (x_conn x) \<Longrightarrow> K (on_conn f x)"
  by (erule K_side) (simp add: same_side_def)

lemma K_timer: "K x \<Longrightarrow> K (run_timer_handler e h code x)"
  by (cases h) (auto simp: run_timer_handler_def handle_timeout_def handle_ping_def Let_def
      handle_inactive_timeout_def write_oks idle_assertion)

lemma K_cancel: "K x \<Longrightarrow> K (on_conn timer_cancel x)"
  by (erule K_conn) (simp_all add: early_def)

lemma K_read_some: "K x \<Longrightarrow> K (read_some e x)"
  unfolding read_some_def by (erule K_conn) (simp_all add: early_def)

lemma K_writing:
  assumes "K x"
  shows "K (run_write_handler e h code x)"
proof -
  have "K (on_conn (\<lambda>c. (timer_cancel c)\<lparr>c_writing_message := False\<rparr>) x)"
    by (rule K_conn [OF assms]) (simp_all add: early_def)
  moreover have "K (on_conn (\<lambda>c. c\<lparr>c_connected := True\<rparr>) y)" if "K y" for y
    by (rule K_conn [OF that]) (simp_all add: early_def)
  ultimately show ?thesis
    by (cases h) (simp_all add: run_write_handler_def handle_write_headers_def handle_write_message_def
      handle_write_ping_message_def handle_cleanup_def handle_error_def Let_def write_oks idle_assertion
      K_cancel K_read_some assms)
qed

lemma K_send:
  assumes "K x"
  shows "K (send e m x)"
proof -
  have "K (on_conn (\<lambda>c. c\<lparr>c_messages := c_messages c @ [m]\<rparr>) x)"
    by (rule K_conn [OF assms]) (simp_all add: early_def)
  then show ?thesis by (simp add: send_def Let_def write_oks)
qed

lemma K_event:
  assumes K: "K x" and step: "conn_step e ev x = Some x'"
    and late: "(case ev of Ce_handshake _ \<Rightarrow> False | Ce_request _ _ \<Rightarrow> False | Ce_answer \<Rightarrow> False
      | Ce_shutdown \<Rightarrow> False | Ce_others _ \<Rightarrow> False | _ \<Rightarrow> True)"
  shows "K x'"
proof -
  have nf: "\<not> cm_failed (x_man x)" using step by (auto simp: conn_step_def Let_def)
  show ?thesis
  proof (cases ev)
    case (Ce_some code data)
    have "K (on_conn (\<lambda>c. c\<lparr>c_pending := remove1 Io_read_some (c_pending c), c_in := c_in c @ data\<rparr>) x)"
      by (rule K_conn [OF K]) (simp_all add: early_def)
    with Ce_some step nf show ?thesis
      by (auto simp: conn_step_def Let_def handle_read_some_def handle_error_def write_oks K_cancel K_read_some
          split: if_splits)
  next
    case (Ce_written k code)
    with step nf obtain w h where k: "k < length (c_pending (x_conn x))" "c_pending (x_conn x) ! k = Io_write w h"
      "x' = run_write_handler e h code (completed k
        (if code then c_out (x_conn x) else drop (length w) (c_out (x_conn x))) x)"
      by (auto simp: conn_step_def Let_def completed_def on_conn_def split: if_splits io_op.splits)
    have "K (completed k out x)" for out
      using writes_completed(2) [OF k(1,2)]
      unfolding completed_def by (intro K_conn [OF K]) (auto simp: early_def)
    with k(3) K_writing show ?thesis by simp
  next
    case Ce_timer
    have "K (on_conn (\<lambda>c. c\<lparr>c_timer := None\<rparr>) x)"
      by (rule K_conn [OF K]) (simp_all add: early_def)
    with Ce_timer step nf K_timer show ?thesis by (auto simp: conn_step_def Let_def split: option.splits)
  next
    case Ce_expires
    have "K (on_conn (\<lambda>c. c\<lparr>c_timer := None, c_ready := r\<rparr>) x)" for r
      by (rule K_conn [OF K]) (simp_all add: early_def)
    with Ce_expires step nf show ?thesis
      by (auto simp: conn_step_def Let_def on_conn_def split: option.splits)
  next
    case Ce_ready
    have "K (on_conn (\<lambda>c. c\<lparr>c_ready := hs\<rparr>) x)" for hs
      by (rule K_conn [OF K]) (simp_all add: early_def)
    with Ce_ready step nf K_timer show ?thesis by (auto simp: conn_step_def Let_def split: list.splits prod.splits)
  next
    case (Ce_send m)
    with step nf K_send [OF K] show ?thesis by (auto simp: conn_step_def Let_def split: if_splits)
  next
    case Ce_close
    with step nf idle_cleanup [OF K] show ?thesis
      by (auto simp: conn_step_def Let_def close_connection_def split: if_splits)
  qed (use late in simp_all)
qed

end

section \<open>Refused connections\<close>

text \<open>A connection that the registry has, but that does not know it.\<close>

definition orphan :: "ctx \<Rightarrow> bool" where
  "orphan x \<longleftrightarrow> served x \<and> \<not> c_managed (x_conn x) \<and>
     (cm_finished (x_man x) \<or> registered (c_id (x_conn x)) (x_man x))"

interpretation orp: event_rules orphan
  by unfold_locales
    (auto simp: orphan_def served_def early_def asked_def registered_def step_defs same_side_def)

lemma registered_listeners: "registered i (m\<lparr>cm_listeners := ls\<rparr>) = registered i m"
  by (simp add: registered_def)

lemma orphan_step:
  assumes o: "orphan x" and step: "conn_step e ev x = Some x'"
  shows "orphan x'"
proof -
  have nf: "\<not> cm_failed (x_man x)" using step by (auto simp: conn_step_def Let_def)
  have served: "\<not> early (x_conn x)" "asked x = 0" using o by (simp_all add: orphan_def served_def)
  have "orphan (x\<lparr>x_man := (x_man x)\<lparr>cm_finished := True, cm_connections := []\<rparr>\<rparr>)"
    using o by (simp add: orphan_def served_def asked_def)
  then have "orphan x'" if "ev = Ce_shutdown"
    using that step nf orp.idle_cleanup orp.K_send
    by (auto simp: conn_step_def Let_def close_connection_def finish_def split: if_splits)
  moreover have "orphan x'" if "ev = Ce_others m'" for m'
    using that step nf o
    by (auto simp: conn_step_def Let_def orphan_def served_def asked_def registered_listeners split: if_splits)
  moreover have "ev \<noteq> Ce_handshake code" "ev \<noteq> Ce_request code data" "ev \<noteq> Ce_answer" for code data
    using step nf served by (auto simp: conn_step_def Let_def early_def asked_def split: list.splits if_splits)
  ultimately show ?thesis using orp.K_event [OF o step] by (cases ev) auto
qed

section \<open>What belongs to the others\<close>

text \<open>Compared with \<open>x0\<close>, nothing of the connection \<open>i\<close> has changed in the manager and the queue.\<close>

definition others :: "nat \<Rightarrow> ctx \<Rightarrow> ctx \<Rightarrow> bool" where
  "others i x0 x \<longleftrightarrow> i \<noteq> c_id (x_conn x) \<and> c_id (x_conn x) = c_id (x_conn x0) \<and>
     (cm_failed (x_man x0) \<longrightarrow> cm_failed (x_man x)) \<and>
     registered i (x_man x) = registered i (x_man x0) \<and> cm_finished (x_man x) = cm_finished (x_man x0) \<and>
     accepts (x_man x) = accepts (x_man x0) \<and>
     filter (\<lambda>p. snd p = i) (tq_items (x_queue x)) = filter (\<lambda>p. snd p = i) (tq_items (x_queue x0))"

lemma others_side:
  "others i x0 x \<Longrightarrow> c_id (x_conn x') = c_id (x_conn x) \<Longrightarrow> x_queue x' = x_queue x \<Longrightarrow> x_man x' = x_man x \<Longrightarrow>
   others i x0 x'"
  by (simp add: others_def)

interpretation oth: event_rules "others i x0"
proof
  fix x x' :: ctx and cb :: connection_base and h :: write_handler and th :: timer_handler
    and t :: int and out :: string and b :: bool
  show "others i x0 x \<Longrightarrow> others i x0 (cleanup e x)" for e
    by (auto simp: others_def remove_connection_keeps remove_connection_outcome)
  show "others i x0 x \<Longrightarrow> others i x0 (assertion b x)"
    by (auto simp: others_def assertion_def registered_def accepts_def)
qed (erule others_side; simp add: step_defs same_side_def)+

lemma others_closes: "others i x0 y \<Longrightarrow> closes (others i x0) e y"
  unfolding closes_def using oth.idle_cleanup [of i x0 y e]
  by (auto intro: others_side simp: start_write_def)

lemma others_insert:
  assumes "others i x0 y" "insert_connection crc32 (c_id (x_conn y)) cb (x_man y) = (r, m)"
  shows "others i x0 (y\<lparr>x_man := m\<rparr>)"
  using assms insert_connection_outcome(3,4) [OF assms(2)] insert_connection_accepts(1,2) [OF assms(2)]
  by (auto simp: others_def)

lemma others_handled:
  assumes o: "others i x0 x"
  shows "others i x0 (handled e req resp x)"
proof (rule handled_rule [of x "others i x0"])
  fix base s d m err y
  have a: "others i x0 (answering base s d x)" by (rule others_side [OF o]) simp_all
  then show "closes (others i x0) e (answering base s d x)" by (rule others_closes)
  have ins: "others i x0 ((answering base s d x)\<lparr>x_man := m\<rparr>)"
    if "insert_connection (e_crc32 e) (c_id (x_conn x)) base (x_man x) = (r, m)" for r
    using others_insert [OF a] that by simp
  then show "insert_connection (e_crc32 e) (c_id (x_conn x)) base (x_man x) = (Inl err, m) \<Longrightarrow>
      closes (others i x0) e ((answering base s d x)\<lparr>x_man := m\<rparr>)"
    "insert_connection (e_crc32 e) (c_id (x_conn x)) base (x_man x) = (Inr False, m) \<Longrightarrow>
      closes (others i x0) e ((answering base s d x)\<lparr>x_man := m\<rparr>)"
    by (simp_all add: others_closes)
  assume i: "insert_connection (e_crc32 e) (c_id (x_conn x)) base (x_man x) = (Inr True, m)"
    "y = on_conn (\<lambda>c. c\<lparr>c_managed := True\<rparr>) ((answering base s d x)\<lparr>x_man := m\<rparr>)"
  have "others i x0 y" unfolding i(2) by (rule others_side [OF ins [OF i(1)]]) simp_all
  then show "closes (others i x0) e y \<and> (\<forall>out. others i x0 (on_conn (send_out out W_headers) y))"
    by (auto intro: others_closes others_side)
qed

lemma others_errors: "others i x0 x \<Longrightarrow> others i x0 (handled_errors e code msg x)"
  by (rule handled_errors_rule) (intro others_closes oth.K_cancel)

lemma others_invoke:
  assumes o: "others i x0 x" and inv: "invoke e req resp x = (r, x')"
  shows "others i x0 x'"
proof (cases "rh_threaded (e_handler e)")
  case True
  obtain r' q where tq: "threaded_invoke_handler (e_handler e) (c_id (x_conn x)) req resp (x_queue x) = (r', q)"
    by fastforce
  then have "q = x_queue x \<or> (\<exists>h. tq_items q = tq_items (x_queue x) @ [(h, c_id (x_conn x))])"
    by (auto simp: threaded_invoke_handler_def queue_push_def split: sum.splits bool.splits prod.splits if_splits)
  then have "others i x0 (x\<lparr>x_queue := q\<rparr>)" using o by (auto simp: others_def)
  with True tq inv show ?thesis by (simp add: invoke_def)
next
  case False
  have n: "others i x0 (on_conn (\<lambda>c. c\<lparr>c_base := set_name receiver (c_base c)\<rparr>) x)" for receiver
    by (rule others_side [OF o]) simp_all
  show ?thesis
    using inv False o n others_handled [OF n] unfolding invoke_def invoke_handler_def Let_def
    by (auto split: sum.splits bool.splits)
qed

lemma others_read_request:
  assumes o: "others i x0 x"
  shows "others i x0 (handle_read_request e code x)"
proof -
  let ?x1 = "on_conn timer_cancel x"
  have f: "others i x0 ?x1" by (rule oth.K_cancel [OF o])
  have conn: "others i x0 (on_conn g ?x1)" if "c_id (g (x_conn ?x1)) = c_id (x_conn ?x1)" for g
    by (rule others_side [OF f]) (use that in simp_all)
  have closed: "others i x0 (cleanup e y)" "others i x0 (dispatch_error e err y)"
      "others i x0 (write_http_error e hc y)" "others i x0 (parse_failed e err y)" "others i x0 (write_policy_data e y)"
    if "others i x0 y" for y err hc
    using others_closes [OF that] closes_http [OF others_closes [OF that]] closes_dispatch [OF others_closes [OF that]]
      write_policy_data_rule [of "others i x0" e y]
    by (auto simp: closes_def parse_failed_def split: xiva_error.splits)
  have run: "others i x0 (case invoke e req resp (on_conn (\<lambda>c. c\<lparr>c_base := base\<rparr>) ?x1) of
      (Inl err, x2) \<Rightarrow> dispatch_error e err x2 | (Inr _, x2) \<Rightarrow> x2)" for req resp base
  proof -
    obtain r x2 where i: "invoke e req resp (on_conn (\<lambda>c. c\<lparr>c_base := base\<rparr>) ?x1) = (r, x2)" by fastforce
    with others_invoke [OF conn i] show ?thesis by (auto simp: closed split: sum.splits)
  qed
  have "others i x0 (parse_failed e err (on_conn (\<lambda>c. c\<lparr>c_base := base\<rparr>) ?x1))"
    "others i x0 (write_policy_data e (on_conn (\<lambda>c. c\<lparr>c_is_policy := True\<rparr>) ?x1))" for err base
    by (intro closed conn; simp)+
  with f closed [OF f] run show ?thesis
    unfolding handle_read_request_def Let_def handle_error_def handle_exception_def
    by (simp split: sum.splits prod.splits)
qed

lemma others_answer:
  assumes o: "others i x0 x"
  shows "others i x0 (run_answer e h x)"
proof -
  obtain h' name where p: "process_request exception_what (e_handler e) h = (h', name)" by fastforce
  define x1 where "x1 = (case name of None \<Rightarrow> x
    | Some receiver \<Rightarrow> on_conn (\<lambda>c. c\<lparr>c_base := set_name receiver (c_base c)\<rparr>) x)"
  have "others i x0 x1"
    by (rule others_side [OF o]) (simp_all add: x1_def split: option.splits)
  then have "others i x0 (handled e req resp x1)" "others i x0 (handled_errors e code msg x1)" for req resp code msg
    by (rule others_handled others_errors)+
  then show ?thesis
    unfolding run_answer_def p prod.case Let_def x1_def [symmetric]
    by (simp only: simp_thms split: answer.split)
qed

lemma others_step:
  assumes step: "conn_step e ev x = Some x'" and i: "i \<noteq> c_id (x_conn x)"
    and ev: "ev \<noteq> Ce_shutdown" "\<And>m. ev \<noteq> Ce_others m"
  shows "others i x x'"
proof -
  have nf: "\<not> cm_failed (x_man x)" using step by (auto simp: conn_step_def Let_def)
  have o: "others i x x" using i by (simp add: others_def)
  have conn: "others i x (on_conn g x)" if "c_id (g (x_conn x)) = c_id (x_conn x)" for g
    by (rule others_side [OF o]) (use that in simp_all)
  show ?thesis
  proof (cases ev)
    case (Ce_handshake code)
    let ?y = "on_conn (\<lambda>c. c\<lparr>c_pending := remove1 Io_handshake (c_pending c)\<rparr>) x"
    have y: "others i x (on_conn timer_cancel ?y)" by (intro oth.K_cancel conn) simp
    then have "others i x (read_request e (on_conn timer_cancel ?y))"
      by (rule others_side) (simp_all add: read_request_def setup_timeout_def)
    with y Ce_handshake step nf show ?thesis
      by (auto simp: conn_step_def Let_def handle_handshake_def handle_error_def oth.write_oks split: if_splits)
  next
    case (Ce_request code data)
    have "others i x (on_conn (\<lambda>c. c\<lparr>c_pending := remove1 Io_read_request (c_pending c), c_in := c_in c @ data\<rparr>) x)"
      by (rule conn) simp
    with Ce_request step nf others_read_request show ?thesis
      by (auto simp: conn_step_def Let_def split: if_splits)
  next
    case Ce_answer
    with step nf obtain h q where q: "tq_items (x_queue x) = (h, c_id (x_conn x)) # q"
      "x' = run_answer e h (x\<lparr>x_queue := (x_queue x)\<lparr>tq_items := q\<rparr>\<rparr>)"
      by (auto simp: conn_step_def Let_def split: list.splits prod.splits if_splits)
    have "others i x (x\<lparr>x_queue := (x_queue x)\<lparr>tq_items := q\<rparr>\<rparr>)" using i q(1) by (simp add: others_def)
    then show ?thesis unfolding q(2) by (rule others_answer)
  qed (use ev oth.K_event [OF o step] in simp_all)
qed

end
