(* ===== verification/Connection_Runs.thy ===== *)
theory Connection_Runs
  imports Connection_Frame
begin

text \<open>
  What holds in every run of a connection, and two runs that show where the code goes wrong: a
  timer that is late, and a listener that refuses.
\<close>

section \<open>The invariant along a run\<close>

text \<open>A run in which the handler of every timer runs at once when the timer expires.\<close>

definition timely :: "(env \<times> conn_event) list \<Rightarrow> bool" where
  "timely evs \<longleftrightarrow> Ce_expires \<notin> snd ` set evs"

lemma conn_inv_run:
  "conn_run evs x = Some x' \<Longrightarrow> conn_inv n a x \<Longrightarrow> n \<longrightarrow> timely evs \<Longrightarrow> conn_inv n a x'"
proof (induction evs arbitrary: x)
  case (Cons p evs)
  obtain e ev where p: "p = (e, ev)" by (cases p)
  from Cons.prems obtain y where y: "conn_step e ev x = Some y" "conn_run evs y = Some x'"
    by (auto simp: p split: Option.bind_splits)
  have ev: "n \<longrightarrow> ev \<noteq> Ce_expires" "n \<longrightarrow> timely evs" using Cons.prems(3) by (auto simp: timely_def p)
  have "conn_inv n a y"
    using Cons.prems(2) served_step [OF _ ev(1) y(1)] waiting_step_inv [OF _ ev(1) y(1)]
    by (auto simp: conn_inv_def)
  with Cons.IH y(2) ev(2) show ?case by blast
qed simp

lemma conn_inv_start:
  assumes f: "fresh n a x"
  shows "conn_inv n a (start e addr x)"
proof -
  have fa: "fresh n a (on_conn (\<lambda>c. c\<lparr>c_addr := s\<rparr>) x)" for s
    using f by (simp add: fresh_def quiet_def asked_def aborted_def)
  have "conn_inv n a (handshake e x)" if "fresh n a x" for x
  proof (cases "e_secure e")
    case True
    with that show ?thesis
      by (auto simp: fresh_def quiet_def conn_inv_def waiting_def handshake_def asked_def setup_timeout_def
          aborted_def timer_cancel_def split: option.splits)
  next
    case False
    with read_request_ok [OF that] show ?thesis by (simp add: handshake_def)
  qed
  with fresh_ok(1) [OF f] fa show ?thesis
    by (simp add: start_def handle_exception_def split: option.splits)
qed

lemma conn_inv_accepted:
  assumes "a \<longrightarrow> accepts m \<and> \<not> registered cid m"
  shows "conn_inv n a (accepted e cid addr m)"
  unfolding accepted_def using assms
  by (intro conn_inv_start) (simp add: fresh_def quiet_def asked_def aborted_def conn_init_def queue_init_def)

lemmas accepted_run = conn_inv_run [OF _ conn_inv_accepted]

lemma conn_inv_writes:
  "conn_inv True False x \<Longrightarrow> length (writes (x_conn x)) \<le> 1 \<and>
     (c_connected (x_conn x) \<longrightarrow> (c_writing_message (x_conn x) \<longleftrightarrow> writes (x_conn x) \<noteq> []) \<and>
       (c_messages (x_conn x) \<noteq> [] \<longrightarrow> writes (x_conn x) \<noteq> []) \<and>
       Io_read_some \<in> set (c_pending (x_conn x)))"
  by (auto simp: conn_inv_def inv_ok_def write_ok_def write_base_def waiting_def quiet_def writes_def)

section \<open>A sample connection\<close>

definition sample_data :: connection_data where
  "sample_data = \<lparr>cd_fmt_factory = [], cd_ping_message = ''ping'', cd_ping_message_for_single = [],
     cd_policy_data = [], cd_read_timeout = 1000, cd_write_timeout = 1000, cd_inactive_timeout = 5000,
     cd_ping_interval = 1000, cd_max_request_size = 1024, cd_stopping = False\<rparr>"

definition sample_env :: env where
  "sample_env = \<lparr>e_crypto = sample_crypto, e_crc32 = (\<lambda>s. 0), e_package = ''xiva'', e_secure = False,
     e_data = sample_data, e_handler = url_response_handler,
     e_now = \<lparr>pt_weekday = 1, pt_day = 29, pt_month = 11, pt_year = 2010, pt_hours = 12,
       pt_minutes = 5, pt_seconds = 9\<rparr>, e_clock = 0\<rparr>"

definition sample_get :: string where
  "sample_get = ''GET /swan HTTP/1.1'' @ crlf @ ''Host: a'' @ crlf @ crlf"

definition sample_events :: "conn_event list \<Rightarrow> (env \<times> conn_event) list" where
  "sample_events evs = map (Pair sample_env) evs"

definition sample_accepted :: ctx where
  "sample_accepted = accepted sample_env 1 (Some ''h'') (manager_init None)"

section \<open>Properties\<close>

text \<open>C2. One write at a time: whatever happens to a connection, in whatever order and with
  whatever results, as long as the handlers of expired timers run at once, never more than one
  write is outstanding on its socket; while it is connected the flag \<open>writing_message_\<close> tells
  exactly whether one is.\<close>

theorem one_write_at_a_time:
  assumes "conn_run evs (accepted e cid addr m) = Some x" "timely evs"
  shows "length (writes (x_conn x)) \<le> 1 \<and>
     (c_connected (x_conn x) \<longrightarrow> (c_writing_message (x_conn x) \<longleftrightarrow> writes (x_conn x) \<noteq> []))"
  using conn_inv_writes [OF accepted_run [OF assms(1), of False True]] assms(2) by simp

theorem one_write_at_a_time_witness:
  "\<exists>x. conn_run (sample_events [Ce_request False sample_get, Ce_written 0 False, Ce_send (message_init ''a''),
      Ce_send (message_init ''b'')]) sample_accepted = Some x \<and> length (writes (x_conn x)) \<le> 1"
proof -
  let ?evs = "[Ce_request False sample_get, Ce_written 0 False, Ce_send (message_init ''a''), Ce_send (message_init ''b'')]"
  have "conn_run (sample_events ?evs) sample_accepted \<noteq> None" by code_simp
  then obtain x where x: "conn_run (sample_events ?evs) sample_accepted = Some x" by blast
  have "timely (sample_events ?evs)" by (simp add: timely_def sample_events_def)
  with one_write_at_a_time x show ?thesis unfolding sample_accepted_def by blast
qed



text \<open>C8. The registry agrees with the connections, for every order of events and also when timers
  are late: when the listeners accept every connection, then until the manager has finished a
  connection is registered exactly while it considers itself managed, and a connected one is
  registered and its socket is open.\<close>

theorem registry_agrees:
  assumes "conn_run evs (accepted e cid addr m) = Some x" "accepts m" "\<not> registered cid m"
    "\<not> cm_finished (x_man x)" "\<not> cm_failed (x_man x)"
  shows "(registered (c_id (x_conn x)) (x_man x) \<longleftrightarrow> c_managed (x_conn x)) \<and>
     (c_connected (x_conn x) \<longrightarrow> registered (c_id (x_conn x)) (x_man x) \<and> c_socket_open (x_conn x))"
proof -
  have "conn_inv False True x" using accepted_run [OF assms(1), of True False] assms(2,3) by simp
  with assms(4,5) show ?thesis
    by (auto simp: conn_inv_def inv_ok_def registry_ok_def waiting_def quiet_def)
qed

theorem registry_agrees_witness:
  "\<exists>x. conn_run (sample_events [Ce_request False sample_get, Ce_written 0 False]) sample_accepted = Some x \<and>
     registered (c_id (x_conn x)) (x_man x)"
proof -
  let ?evs = "[Ce_request False sample_get, Ce_written 0 False]"
  have eval: "map_option (\<lambda>x. (c_connected (x_conn x), cm_finished (x_man x), cm_failed (x_man x)))
      (conn_run (sample_events ?evs) sample_accepted) = Some (True, False, False)" by code_simp
  then obtain x where x: "conn_run (sample_events ?evs) sample_accepted = Some x" "c_connected (x_conn x)"
    "\<not> cm_finished (x_man x)" "\<not> cm_failed (x_man x)" by auto
  have "accepts (manager_init None)" "\<not> registered 1 (manager_init None)"
    by (simp_all add: accepts_def registered_def manager_init_def)
  with registry_agrees [OF x(1) [unfolded sample_accepted_def]] x show ?thesis by blast
qed

text \<open>The request is read and answered once: while the handshake or the request is outstanding
  or the worker threads have the request, exactly one of these is the case, no write is
  outstanding, and the connection is neither connected nor managed.\<close>

theorem request_phase_exclusive:
  assumes "conn_run evs (accepted e cid addr m) = Some x" "early (x_conn x) \<or> asked x \<noteq> 0"
  shows "length (c_pending (x_conn x)) + asked x = 1 \<and> writes (x_conn x) = [] \<and>
     \<not> c_connected (x_conn x) \<and> \<not> c_managed (x_conn x)"
  using accepted_run [OF assms(1), of False False] assms(2)
  by (auto simp: conn_inv_def inv_ok_def served_def waiting_def quiet_def writes_def)

theorem request_phase_exclusive_witness:
  "length (c_pending (x_conn sample_accepted)) + asked sample_accepted = 1"
proof -
  have "conn_run [] sample_accepted = Some sample_accepted" by simp
  moreover have "early (x_conn sample_accepted)" by code_simp
  ultimately show ?thesis using request_phase_exclusive unfolding sample_accepted_def by blast
qed

text \<open>C40. Late timers break the discipline: when the ping timer of a connected connection expires
  and a message is sent before its handler runs, the handler starts a second write while the
  first is outstanding. (Cancelling the timer does not stop a handler that is already queued, and
  \<open>handle_ping\<close> looks only at its error code.)\<close>

theorem late_ping_writes_twice:
  "\<exists>x. conn_run (sample_events [Ce_request False sample_get, Ce_ready, Ce_written 0 False, Ce_ready,
      Ce_expires, Ce_send (message_init ''a''), Ce_ready]) sample_accepted = Some x \<and>
     c_connected (x_conn x) \<and> length (writes (x_conn x)) = 2"
proof -
  have "map_option (\<lambda>x. (c_connected (x_conn x), length (writes (x_conn x))))
      (conn_run (sample_events [Ce_request False sample_get, Ce_ready, Ce_written 0 False, Ce_ready,
      Ce_expires, Ce_send (message_init ''a''), Ce_ready]) sample_accepted) = Some (True, 2)" by code_simp
  then show ?thesis by auto
qed

section \<open>Refused connections\<close>

lemma orphan_run: "conn_run evs x = Some x' \<Longrightarrow> orphan x \<Longrightarrow> orphan x'"
proof (induction evs arbitrary: x)
  case (Cons p evs)
  obtain e ev where p: "p = (e, ev)" by (cases p)
  with Cons orphan_step show ?case by (auto split: Option.bind_splits)
qed simp

text \<open>A connection that has been registered without becoming managed, which is what happens
  when a listener refuses it, is never taken out of the registry again: whatever happens to it,
  even when it is closed, it stays registered until the manager finishes.\<close>

theorem refused_stays_registered:
  assumes "conn_run evs x = Some x'" "\<not> early (x_conn x)" "asked x = 0"
    "\<not> c_managed (x_conn x)" "registered (c_id (x_conn x)) (x_man x)"
  shows "cm_finished (x_man x') \<or> registered (c_id (x_conn x')) (x_man x')"
  using orphan_run [OF assms(1)] assms(2-5) by (simp add: orphan_def served_def)

definition refusing_listener :: user_listener where
  "refusing_listener = \<lparr>ul_opened = (\<lambda>to cid. Inl (Runtime_error ''no'')), ul_closed = (\<lambda>to cid. Inr ()),
     ul_disconnected = (\<lambda>to. Inr ())\<rparr>"

theorem refused_stays_registered_witness:
  "\<exists>x. conn_run (sample_events [Ce_request False sample_get, Ce_ready])
      (accepted sample_env 1 (Some ''h'') (manager_add_listener refusing_listener (manager_init None))) = Some x \<and>
    \<not> c_socket_open (x_conn x) \<and> \<not> c_managed (x_conn x) \<and> registered (c_id (x_conn x)) (x_man x)"
proof -
  let ?x0 = "accepted sample_env 1 (Some ''h'') (manager_add_listener refusing_listener (manager_init None))"
  let ?e1 = "sample_events [Ce_request False sample_get]" and ?e2 = "sample_events [Ce_ready]"
  have "map_option (\<lambda>x. (early (x_conn x), asked x, c_managed (x_conn x), registered (c_id (x_conn x)) (x_man x)))
      (conn_run ?e1 ?x0) = Some (False, 0, False, True)" by code_simp
  then obtain x where x: "conn_run ?e1 ?x0 = Some x" "\<not> early (x_conn x)" "asked x = 0"
    "\<not> c_managed (x_conn x)" "registered (c_id (x_conn x)) (x_man x)" by auto
  have "map_option (\<lambda>x. (cm_finished (x_man x), c_socket_open (x_conn x), c_managed (x_conn x)))
      (conn_run (sample_events [Ce_request False sample_get, Ce_ready]) ?x0) = Some (False, False, False)" by code_simp
  then obtain y where y: "conn_run (sample_events [Ce_request False sample_get, Ce_ready]) ?x0 = Some y"
    "\<not> cm_finished (x_man y)" "\<not> c_socket_open (x_conn y)" "\<not> c_managed (x_conn y)" by auto
  with x(1) have "conn_run ?e2 x = Some y"
    by (auto simp: sample_events_def split: Option.bind_splits)
  from refused_stays_registered [OF this x(2-5)] y show ?thesis by blast
qed

end
