(* ===== verification/World.thy ===== *)
theory World
  imports Connection_Runs
begin

text \<open>
  The server's connections together: one manager, one queue of the threaded invoker, any number of
  connections, and the operations of \<open>connection_manager\<close> that go through several of them
  (\<open>send\<close>, \<open>notify_connection_opened_failed\<close>, \<open>finish\<close>). A connection is known by its identifier.
  The strand runs one operation at a time, so the operations are the steps of the world.
\<close>

section \<open>The state\<close>

record world =
  wd_man :: manager
  wd_conns :: "nat \<Rightarrow> conn option"
  wd_queue :: holder_queue

definition ctx_at :: "world \<Rightarrow> conn \<Rightarrow> ctx" where
  "ctx_at w c = \<lparr>x_conn = c, x_man = wd_man w, x_queue = wd_queue w\<rparr>"

definition put_ctx :: "nat \<Rightarrow> ctx \<Rightarrow> world \<Rightarrow> world" where
  "put_ctx i x w = w\<lparr>wd_man := x_man x, wd_queue := x_queue x, wd_conns := (wd_conns w)(i \<mapsto> x_conn x)\<rparr>"

text \<open>An operation on the connection \<open>i\<close>.\<close>

definition at_conn :: "nat \<Rightarrow> (ctx \<Rightarrow> ctx) \<Rightarrow> world \<Rightarrow> world" where
  "at_conn i f w = (case wd_conns w i of None \<Rightarrow> w | Some c \<Rightarrow> put_ctx i (f (ctx_at w c)) w)"

section \<open>Sending\<close>

text \<open>The first loop of \<open>send\<close> asks every connection whether it takes the message; the filter may
  throw.\<close>

fun allowed_loop :: "message \<Rightarrow> world \<Rightarrow> nat list \<Rightarrow> nat list result" where
  "allowed_loop msg w [] = Inr []"
| "allowed_loop msg w (i # ids) =
     bind_result (case wd_conns w i of None \<Rightarrow> Inr False
       | Some c \<Rightarrow> allow_message msg (cm_filter (wd_man w)) (c_base c)) (\<lambda>ok.
     bind_result (allowed_loop msg w ids) (\<lambda>rest. Inr (if ok then i # rest else rest)))"

definition send_each :: "env \<Rightarrow> message \<Rightarrow> nat list \<Rightarrow> world \<Rightarrow> world" where
  "send_each e msg conns w = fold (\<lambda>i. at_conn i (send e (Some msg))) conns w"

definition send_by_name :: "env \<Rightarrow> string \<Rightarrow> message \<Rightarrow> world \<Rightarrow> unit result \<times> world" where
  "send_by_name e to msg w =
     (if cm_finished (wd_man w) then (Inr (), w)
      else case map fst (filter (\<lambda>p. snd p = to) (cm_connections (wd_man w))) of
        [] \<Rightarrow> (case fire_disconnected (e_crc32 e) to (wd_man w) of (r, m) \<Rightarrow> (r, w\<lparr>wd_man := m\<rparr>))
      | i # ids \<Rightarrow>
          (case allowed_loop msg w (i # ids) of
             Inl err \<Rightarrow> (Inl err, w)
           | Inr conns \<Rightarrow> (Inr (), send_each e msg conns w)))"

definition send_by_id :: "env \<Rightarrow> nat \<Rightarrow> message \<Rightarrow> world \<Rightarrow> unit result \<times> world" where
  "send_by_id e to msg w =
     (if cm_finished (wd_man w) then (Inr (), w)
      else case map fst (filter (\<lambda>p. fst p = to) (cm_connections (wd_man w))) of
        [] \<Rightarrow> (Inr (), w)
      | i # ids \<Rightarrow>
          (case allowed_loop msg w (i # ids) of
             Inl err \<Rightarrow> (Inl err, w)
           | Inr conns \<Rightarrow> (Inr (), send_each e msg conns w)))"

definition notify_opened_failed :: "env \<Rightarrow> string \<Rightarrow> nat \<Rightarrow> world \<Rightarrow> world" where
  "notify_opened_failed e to i w =
     (if cm_finished (wd_man w) then w
      else if registered i (wd_man w) \<and> (case wd_conns w i of None \<Rightarrow> False | Some c \<Rightarrow> cb_name (c_base c) = to)
      then at_conn i (close_connection e) w
      else w)"

text \<open>\<open>finish\<close> goes through the connections in the order of the hashed container, which is an
  argument.\<close>

definition manager_finish :: "env \<Rightarrow> nat list \<Rightarrow> world \<Rightarrow> world" where
  "manager_finish e order w =
     (if cm_finished (wd_man w) then w
      else fold (\<lambda>i. at_conn i (\<lambda>x. close_connection e (finish e x))) order
        (w\<lparr>wd_man := (wd_man w)\<lparr>cm_finished := True, cm_connections := []\<rparr>\<rparr>))"

text \<open>\<open>wait_for_complete\<close> returns when \<open>finished_\<close> is set; otherwise it waits.\<close>

definition manager_wait :: "world \<Rightarrow> world option" where
  "manager_wait w = (if cm_finished (wd_man w) then Some w else None)"

section \<open>Steps of the world\<close>

datatype world_event =
    We_accept nat "string option"
  | We_conn nat conn_event
  | We_send string message
  | We_send_id nat message
  | We_opened_failed string nat
  | We_finish "nat list"

definition conn_event_alone :: "conn_event \<Rightarrow> bool" where
  "conn_event_alone ev = (case ev of Ce_shutdown \<Rightarrow> False | Ce_others _ \<Rightarrow> False | _ \<Rightarrow> True)"

definition world_step :: "env \<Rightarrow> world_event \<Rightarrow> world \<Rightarrow> world option" where
  "world_step e ev w =
     (if cm_failed (wd_man w) then None
      else case ev of
        We_accept i addr \<Rightarrow>
          if wd_conns w i = None then Some (put_ctx i (start e addr (ctx_at w (conn_init i))) w) else None
      | We_conn i ev \<Rightarrow>
          (case wd_conns w i of
             None \<Rightarrow> None
           | Some c \<Rightarrow>
               if conn_event_alone ev
               then map_option (\<lambda>x. put_ctx i x w) (conn_step e ev (ctx_at w c)) else None)
      | We_send to msg \<Rightarrow> Some (snd (send_by_name e to msg w))
      | We_send_id i msg \<Rightarrow> Some (snd (send_by_id e i msg w))
      | We_opened_failed to i \<Rightarrow> Some (notify_opened_failed e to i w)
      | We_finish order \<Rightarrow>
          if set order = fst ` set (cm_connections (wd_man w)) \<and> distinct order
          then Some (manager_finish e order w) else None)"

fun world_run :: "(env \<times> world_event) list \<Rightarrow> world \<Rightarrow> world option" where
  "world_run [] w = Some w"
| "world_run ((e, ev) # evs) w = Option.bind (world_step e ev w) (world_run evs)"

definition world_init :: "manager \<Rightarrow> world" where
  "world_init m = \<lparr>wd_man = m, wd_conns = (\<lambda>_. None), wd_queue = queue_init\<rparr>"

section \<open>Sending reaches exactly the allowed connections\<close>

text \<open>What sending does to a connection does not depend on the manager or the queue.\<close>

definition sent :: "env \<Rightarrow> message option \<Rightarrow> conn \<Rightarrow> conn" where
  "sent e m c = x_conn (send e m \<lparr>x_conn = c, x_man = manager_init None, x_queue = queue_init\<rparr>)"

lemma cleanup_blind: "x_conn x = x_conn y \<Longrightarrow> x_conn (cleanup e x) = x_conn (cleanup e y)"
  by (simp add: cleanup_def Let_def on_conn_def)

lemma write_last_blind: "x_conn x = x_conn y \<Longrightarrow> x_conn (write_last_message e x) = x_conn (write_last_message e y)"
  by (auto simp: write_last_message_def intro!: cleanup_blind split: prod.splits)

lemma setup_ping_blind:
  "x_conn x = x_conn y \<Longrightarrow> x_conn (setup_ping_or_inactive_timeout e x) = x_conn (setup_ping_or_inactive_timeout e y)"
  unfolding setup_ping_or_inactive_timeout_def Let_def handle_inactive_timeout_def
  by (auto intro!: write_last_blind)

lemma setup_inactive_blind:
  "x_conn x = x_conn y \<Longrightarrow> x_conn (setup_inactive_timeout e x) = x_conn (setup_inactive_timeout e y)"
  by (auto simp: setup_inactive_timeout_def intro!: setup_ping_blind)

lemma write_message_blind:
  "x_conn x = x_conn y \<Longrightarrow> x_conn (write_message e x) = x_conn (write_message e y)"
proof (induction "length (c_messages (x_conn x))" arbitrary: x y rule: less_induct)
  case less
  let ?x1 = "on_conn timer_cancel x" and ?y1 = "on_conn timer_cancel y"
  have eq: "x_conn ?x1 = x_conn ?y1" using less.prems by simp
  show ?case
  proof (cases "c_connected (x_conn y)")
    case True
    consider (Nil) "c_messages (x_conn y) = []"
      | (None) rest where "c_messages (x_conn y) = None # rest"
      | (Some) msg rest where "c_messages (x_conn y) = Some msg # rest"
      by (metis list.exhaust option.exhaust)
    then show ?thesis
    proof cases
      case Nil
      with True less.prems setup_inactive_blind [OF eq] show ?thesis by (simp add: write_message.simps)
    next
      case None
      with True less.prems write_last_blind [OF eq] show ?thesis by (simp add: write_message.simps)
    next
      case m: (Some msg rest)
      show ?thesis
      proof (cases "print_message msg (c_base (x_conn y))")
        case (Inl err)
        with m True less.prems cleanup_blind [OF eq] show ?thesis
          by (simp add: write_message.simps handle_exception_def)
      next
        case (Inr r)
        obtain out printed base where r: "r = ((out, printed), base)" by (metis prod.exhaust)
        let ?f = "on_conn (\<lambda>c. c\<lparr>c_base := base, c_messages := rest\<rparr>)"
        have "x_conn (write_message e (?f ?x1)) = x_conn (write_message e (?f ?y1))"
          using m less.prems by (intro less.hyps) simp_all
        with m True Inr r less.prems show ?thesis
          by (cases printed) (subst (1 2) write_message.simps, simp)+
      qed
    qed
  next
    case False
    with less.prems show ?thesis by (simp add: write_message.simps)
  qed
qed

lemma sent_send: "x_conn (send e m x) = sent e m (x_conn x)"
proof -
  have "x_conn (send e m x) = x_conn (send e m y)" if "x_conn x = x_conn y" for y
  proof -
    let ?f = "on_conn (\<lambda>c. c\<lparr>c_messages := c_messages c @ [m]\<rparr>)"
    have "x_conn (?f x) = x_conn (?f y)" using that by simp
    then have "x_conn (write_message e (?f x)) = x_conn (write_message e (?f y))" by (rule write_message_blind)
    with that show ?thesis by (simp add: send_def Let_def)
  qed
  from this [of "\<lparr>x_conn = x_conn x, x_man = manager_init None, x_queue = queue_init\<rparr>"]
  show ?thesis by (simp add: sent_def)
qed

lemma send_each_conns:
  assumes "distinct conns"
  shows "wd_conns (send_each e msg conns w) =
    (\<lambda>i. if i \<in> set conns then map_option (sent e (Some msg)) (wd_conns w i) else wd_conns w i)"
  using assms
proof (induction conns arbitrary: w)
  case (Cons i ids)
  have "wd_conns (at_conn i (send e (Some msg)) w) = (\<lambda>j. if j = i then map_option (sent e (Some msg)) (wd_conns w j) else wd_conns w j)"
    by (auto simp: at_conn_def put_ctx_def ctx_at_def sent_send fun_eq_iff split: option.splits)
  with Cons show ?case by (auto simp: send_each_def fun_eq_iff)
qed (simp add: send_each_def)

text \<open>Whether a connection takes a message.\<close>

definition takes :: "message \<Rightarrow> world \<Rightarrow> nat \<Rightarrow> bool result" where
  "takes msg w i = (case wd_conns w i of None \<Rightarrow> Inr False
     | Some c \<Rightarrow> allow_message msg (cm_filter (wd_man w)) (c_base c))"

lemma allowed_loop_outcome:
  "(\<forall>i\<in>set ids. \<exists>b. takes msg w i = Inr b) \<Longrightarrow>
     allowed_loop msg w ids = Inr (filter (\<lambda>i. takes msg w i = Inr True) ids)"
  "i \<in> set ids \<Longrightarrow> takes msg w i = Inl err \<Longrightarrow> \<exists>err'. allowed_loop msg w ids = Inl err'"
  by (induction ids) (fastforce simp: takes_def bind_result_def split: sum.splits)+


definition sample_world :: world where
  "sample_world = (world_init ((manager_init None)\<lparr>cm_connections := [(1, ''swan''), (2, ''duck'')]\<rparr>))
     \<lparr>wd_conns := [1 \<mapsto> conn_init 1, 2 \<mapsto> conn_init 2]\<rparr>"


section \<open>The discipline of all connections\<close>

definition world_inv :: "bool \<Rightarrow> bool \<Rightarrow> world \<Rightarrow> bool" where
  "world_inv n a w \<longleftrightarrow>
     (a \<longrightarrow> cm_failed (wd_man w) \<or> accepts (wd_man w)) \<and>
     (\<forall>i c. wd_conns w i = Some c \<longrightarrow> c_id c = i \<and> conn_inv n a (ctx_at w c)) \<and>
     (\<forall>i. wd_conns w i = None \<longrightarrow> \<not> registered i (wd_man w) \<and> i \<notin> snd ` set (tq_items (wd_queue w)))"

text \<open>What a connection promises and looks at is not touched when only things of the others change.\<close>

lemma conn_inv_others:
  assumes inv: "conn_inv n a \<lparr>x_conn = c, x_man = x_man x0, x_queue = x_queue x0\<rparr>"
    and o: "others (c_id c) x0 x"
  shows "conn_inv n a \<lparr>x_conn = c, x_man = x_man x, x_queue = x_queue x\<rparr>"
proof -
  let ?z = "\<lparr>x_conn = c, x_man = x_man x0, x_queue = x_queue x0\<rparr>"
  let ?y = "\<lparr>x_conn = c, x_man = x_man x, x_queue = x_queue x\<rparr>"
  have asked: "asked ?y = asked ?z" using o by (simp add: asked_def others_def)
  have "registry_ok ?z \<Longrightarrow> registry_ok ?y" using o by (auto simp: registry_ok_def others_def)
  then have ok: "inv_ok n a ?z \<Longrightarrow> inv_ok n a ?y" using asked by (simp add: inv_ok_def served_def)
  have "quiet n a ?z \<Longrightarrow> quiet n a ?y" using o by (auto simp: quiet_def others_def)
  then have "waiting n a ?z \<Longrightarrow> waiting n a ?y" using asked by (simp add: waiting_def)
  with ok inv show ?thesis unfolding conn_inv_def by blast
qed

lemma put_inv:
  assumes w: "world_inv n a w" and x0: "x_man x0 = wd_man w" "x_queue x0 = wd_queue w" "c_id (x_conn x0) = i"
    and x: "conn_inv n a x" "c_id (x_conn x) = i" "\<And>j. j \<noteq> i \<Longrightarrow> others j x0 x"
    and acc: "accepts (x_man x) = accepts (wd_man w)" "cm_failed (wd_man w) \<Longrightarrow> cm_failed (x_man x)"
  shows "world_inv n a (put_ctx i x w)"
  unfolding world_inv_def
proof (intro conjI allI impI)
  show "a \<Longrightarrow> cm_failed (wd_man (put_ctx i x w)) \<or> accepts (wd_man (put_ctx i x w))"
    using w acc by (auto simp: put_ctx_def world_inv_def)
  fix j c
  assume c: "wd_conns (put_ctx i x w) j = Some c"
  show "c_id c = j" using c w x by (auto simp: put_ctx_def world_inv_def split: if_splits)
  show "conn_inv n a (ctx_at (put_ctx i x w) c)"
  proof (cases "j = i")
    case True
    with c have "ctx_at (put_ctx i x w) c = x" by (simp add: put_ctx_def ctx_at_def)
    with x(1) show ?thesis by simp
  next
    case False
    with c have cj: "wd_conns w j = Some c" by (simp add: put_ctx_def)
    with w have "c_id c = j" "conn_inv n a (ctx_at w c)" by (auto simp: world_inv_def)
    with conn_inv_others [of n a c x0 x] x(3) [OF False] show ?thesis by (simp add: ctx_at_def put_ctx_def x0)
  qed
next
  fix j
  assume "wd_conns (put_ctx i x w) j = None"
  then have j: "j \<noteq> i" "wd_conns w j = None" by (auto simp: put_ctx_def split: if_splits)
  with w x(3) [OF j(1)] show "\<not> registered j (wd_man (put_ctx i x w))"
    by (auto simp: world_inv_def put_ctx_def others_def x0)
  have "filter (\<lambda>p. snd p = j) (tq_items (wd_queue w)) = []"
    using w j(2) by (auto simp: world_inv_def filter_empty_conv)
  with x(3) [OF j(1)] have "filter (\<lambda>p. snd p = j) (tq_items (x_queue x)) = []"
    by (simp add: others_def x0)
  then show "j \<notin> snd ` set (tq_items (wd_queue (put_ctx i x w)))"
    by (auto simp: put_ctx_def filter_empty_conv)
qed

lemma at_conn_inv:
  assumes w: "world_inv n a w"
    and f: "\<And>x. conn_inv n a x \<Longrightarrow> conn_inv n a (f x)" "\<And>x. c_id (x_conn (f x)) = c_id (x_conn x)"
      "\<And>x j. j \<noteq> c_id (x_conn x) \<Longrightarrow> others j x (f x)"
  shows "world_inv n a (at_conn i f w)"
proof (cases "wd_conns w i")
  case (Some c)
  let ?x = "ctx_at w c"
  from w Some have c: "c_id c = i" "conn_inv n a ?x" by (auto simp: world_inv_def)
  have "others (Suc i) ?x (f ?x)" by (rule f(3)) (simp add: ctx_at_def c)
  then have acc: "accepts (x_man (f ?x)) = accepts (wd_man w)" "cm_failed (wd_man w) \<Longrightarrow> cm_failed (x_man (f ?x))"
    by (simp_all add: others_def ctx_at_def)
  have "world_inv n a (put_ctx i (f ?x) w)"
    by (rule put_inv [OF w, of ?x]) (use c f acc in \<open>simp_all add: ctx_at_def\<close>)
  with Some show ?thesis by (simp add: at_conn_def)
qed (use w in \<open>simp add: at_conn_def\<close>)

lemma conn_inv_send: "conn_inv n a x \<Longrightarrow> conn_inv n a (send e m x)"
  using append_ok waiting_append by (auto simp: conn_inv_def)

lemma conn_inv_close: "conn_inv n a x \<Longrightarrow> conn_inv n a (close_connection e x)"
  using wr.base_cleanup [OF ok_base] waiting_cleanup by (auto simp: conn_inv_def close_connection_def)

lemma close_others:
  "c_id (x_conn (close_connection e x)) = c_id (x_conn x)"
  "others i x0 x \<Longrightarrow> others i x0 (close_connection e x)"
  by (simp_all add: close_connection_def oth.idle_cleanup)

lemma others_refl: "j \<noteq> c_id (x_conn x) \<Longrightarrow> others j x x"
  by (simp add: others_def)

lemma send_id: "c_id (x_conn (send e m x)) = c_id (x_conn x)"
  using oth.K_send [OF others_refl [of "Suc (c_id (x_conn x))" x], of e m] by (simp add: others_def)

lemma fold_at_conn_inv:
  assumes "world_inv n a w"
    and f: "\<And>x. conn_inv n a x \<Longrightarrow> conn_inv n a (f x)" "\<And>x. c_id (x_conn (f x)) = c_id (x_conn x)"
      "\<And>x j. j \<noteq> c_id (x_conn x) \<Longrightarrow> others j x (f x)"
  shows "world_inv n a (fold (\<lambda>i. at_conn i f) conns w)"
  using assms(1) by (induction conns arbitrary: w) (simp_all add: at_conn_inv [OF _ f])

lemma send_each_inv: "world_inv n a w \<Longrightarrow> world_inv n a (send_each e msg conns w)"
  unfolding send_each_def
  by (rule fold_at_conn_inv) (simp_all add: conn_inv_send send_id oth.K_send others_refl)

lemma fire_disconnected_keeps:
  assumes "fire_disconnected crc32 to m = (r, m')"
  shows "cm_connections m' = cm_connections m" "cm_finished m' = cm_finished m" "accepts m' = accepts m"
    "cm_failed m \<Longrightarrow> cm_failed m'"
  using assms by (auto simp: fire_disconnected_def accepts_def split: option.splits sum.splits prod.splits)

lemma man_inv:
  assumes w: "world_inv n a w" and m: "accepts m = accepts (wd_man w)" "cm_failed (wd_man w) \<Longrightarrow> cm_failed m"
    "cm_finished m = cm_finished (wd_man w)" "cm_connections m = cm_connections (wd_man w)"
  shows "world_inv n a (w\<lparr>wd_man := m\<rparr>)"
proof -
  have "conn_inv n a \<lparr>x_conn = c, x_man = m, x_queue = wd_queue w\<rparr>"
    if "conn_inv n a \<lparr>x_conn = c, x_man = wd_man w, x_queue = wd_queue w\<rparr>" for c
  proof -
    let ?b = "conn_init (Suc (c_id c))"
    have "others (c_id c) \<lparr>x_conn = ?b, x_man = wd_man w, x_queue = wd_queue w\<rparr>
        \<lparr>x_conn = ?b, x_man = m, x_queue = wd_queue w\<rparr>"
      using m by (simp add: others_def registered_def conn_init_def)
    from conn_inv_others [OF _ this, of n a] that show ?thesis by simp
  qed
  with w m show ?thesis by (auto simp: world_inv_def ctx_at_def registered_def)
qed

lemma send_by_name_inv: "world_inv n a w \<Longrightarrow> world_inv n a (snd (send_by_name e to msg w))"
  using send_each_inv fire_disconnected_keeps man_inv
  by (fastforce simp: send_by_name_def split: list.splits sum.splits prod.splits)

lemma send_by_id_inv: "world_inv n a w \<Longrightarrow> world_inv n a (snd (send_by_id e to msg w))"
  by (auto simp: send_by_id_def send_each_inv split: list.splits sum.splits)

lemma opened_failed_inv: "world_inv n a w \<Longrightarrow> world_inv n a (notify_opened_failed e to i w)"
  unfolding notify_opened_failed_def
  by (auto intro!: at_conn_inv simp: conn_inv_close close_others others_refl)

text \<open>At the finish the registry is emptied first; a connection that is waiting for its request is
  not told.\<close>

lemma finish_inv:
  assumes w: "world_inv n a w"
  shows "world_inv n a (manager_finish e order w)"
proof -
  let ?m = "(wd_man w)\<lparr>cm_finished := True, cm_connections := []\<rparr>"
  have "conn_inv n a \<lparr>x_conn = c, x_man = ?m, x_queue = wd_queue w\<rparr>"
    if c: "conn_inv n a \<lparr>x_conn = c, x_man = wd_man w, x_queue = wd_queue w\<rparr>" for c
  proof -
    let ?x = "\<lparr>x_conn = c, x_man = wd_man w, x_queue = wd_queue w\<rparr>"
    have "inv_ok n a ?x \<Longrightarrow> inv_ok n a (?x\<lparr>x_man := ?m\<rparr>)" using finished_ok [of n a ?x] by simp
    moreover have "waiting n a ?x \<Longrightarrow> waiting n a (?x\<lparr>x_man := ?m\<rparr>)"
      by (rule waiting_man) (auto simp: waiting_def quiet_def accepts_def)
    ultimately show ?thesis using c by (auto simp: conn_inv_def)
  qed
  with w have "world_inv n a (w\<lparr>wd_man := ?m\<rparr>)"
    by (auto simp: world_inv_def ctx_at_def registered_def accepts_def)
  then have "world_inv n a (fold (\<lambda>i. at_conn i (\<lambda>x. close_connection e (finish e x))) order (w\<lparr>wd_man := ?m\<rparr>))"
    by (rule fold_at_conn_inv)
      (simp_all add: conn_inv_send conn_inv_close finish_def close_others send_id oth.K_send others_refl)
  with w show ?thesis by (simp add: manager_finish_def)
qed

lemma start_others:
  assumes "j \<noteq> c_id (x_conn x)"
  shows "others j x (start e addr x)"
proof -
  have j: "others j x x" by (rule others_refl [OF assms])
  have "others j x (on_conn f x)" if "c_id (f (x_conn x)) = c_id (x_conn x)" for f
    by (rule others_side [OF j]) (use that in simp_all)
  moreover have "others j x (handshake e y)" if "others j x y" for y
    by (rule others_side [OF that]) (simp_all add: handshake_def read_request_def setup_timeout_def)
  ultimately show ?thesis
    using oth.idle_cleanup [OF j] by (simp add: start_def handle_exception_def split: option.splits)
qed

lemma accept_inv:
  assumes w: "world_inv n a w" and i: "wd_conns w i = None"
  shows "world_inv n a (put_ctx i (start e addr (ctx_at w (conn_init i))) w)"
proof -
  let ?x = "ctx_at w (conn_init i)"
  from w i have reg: "\<not> registered i (wd_man w)" "i \<notin> snd ` set (tq_items (wd_queue w))"
    by (auto simp: world_inv_def)
  have "filter (\<lambda>p. snd p = i) (tq_items (wd_queue w)) = []"
    using reg(2) by (auto simp: filter_empty_conv)
  with w reg(1) have "fresh n a ?x"
    by (auto simp: fresh_def quiet_def ctx_at_def conn_init_def asked_def aborted_def world_inv_def)
  then have inv: "conn_inv n a (start e addr ?x)" by (rule conn_inv_start)
  have o: "others j ?x (start e addr ?x)" if "j \<noteq> i" for j
    by (rule start_others) (use that in \<open>simp add: ctx_at_def conn_init_def\<close>)
  from o [of "Suc i"] have acc: "accepts (x_man (start e addr ?x)) = accepts (wd_man w)"
    "cm_failed (wd_man w) \<Longrightarrow> cm_failed (x_man (start e addr ?x))"
    "c_id (x_conn (start e addr ?x)) = i"
    by (simp_all add: others_def ctx_at_def conn_init_def)
  show ?thesis
    by (rule put_inv [OF w, of ?x]) (use inv o acc in \<open>simp_all add: ctx_at_def conn_init_def\<close>)
qed

lemma conn_event_inv:
  assumes w: "world_inv n a w" and c: "wd_conns w i = Some c" and ev: "conn_event_alone ev" "n \<longrightarrow> ev \<noteq> Ce_expires"
    and step: "conn_step e ev (ctx_at w c) = Some x"
  shows "world_inv n a (put_ctx i x w)"
proof -
  from w c have id: "c_id c = i" "conn_inv n a (ctx_at w c)" by (auto simp: world_inv_def)
  have inv: "conn_inv n a x"
    using id(2) served_step [OF _ ev(2) step] waiting_step_inv [OF _ ev(2) step] by (auto simp: conn_inv_def)
  have o: "others j (ctx_at w c) x" if "j \<noteq> i" for j
    by (rule others_step [OF step]) (use that id ev(1) in \<open>auto simp: ctx_at_def conn_event_alone_def\<close>)
  from o [of "Suc i"] have acc: "accepts (x_man x) = accepts (wd_man w)"
    "cm_failed (wd_man w) \<Longrightarrow> cm_failed (x_man x)" "c_id (x_conn x) = i"
    by (simp_all add: others_def ctx_at_def id)
  show ?thesis
    by (rule put_inv [OF w, of "ctx_at w c"]) (use inv o acc id in \<open>simp_all add: ctx_at_def\<close>)
qed

lemma world_step_inv:
  assumes w: "world_inv n a w" and ev: "n \<longrightarrow> (\<forall>i. ev \<noteq> We_conn i Ce_expires)" and step: "world_step e ev w = Some w'"
  shows "world_inv n a w'"
proof (cases ev)
  case (We_accept i addr)
  with step accept_inv [OF w] show ?thesis by (auto simp: world_step_def split: if_splits)
next
  case (We_conn i cev)
  with step ev conn_event_inv [OF w, of i _ cev] show ?thesis
    by (auto simp: world_step_def split: if_splits option.splits)
next
  case (We_finish order)
  with step finish_inv [OF w] show ?thesis by (auto simp: world_step_def split: if_splits)
qed (use step w in \<open>auto simp: world_step_def send_by_name_inv send_by_id_inv opened_failed_inv split: if_splits\<close>)

definition world_timely :: "(env \<times> world_event) list \<Rightarrow> bool" where
  "world_timely evs \<longleftrightarrow> (\<forall>p\<in>set evs. case snd p of We_conn _ Ce_expires \<Rightarrow> False | _ \<Rightarrow> True)"

lemma world_run_inv:
  "world_run evs w = Some w' \<Longrightarrow> world_inv n a w \<Longrightarrow> n \<longrightarrow> world_timely evs \<Longrightarrow> world_inv n a w'"
proof (induction evs arbitrary: w)
  case (Cons p evs)
  obtain e ev where p: "p = (e, ev)" by (cases p)
  from Cons.prems obtain y where y: "world_step e ev w = Some y" "world_run evs y = Some w'"
    by (auto simp: p split: Option.bind_splits)
  have "n \<longrightarrow> (\<forall>i. ev \<noteq> We_conn i Ce_expires)" "n \<longrightarrow> world_timely evs"
    using Cons.prems(3) by (auto simp: world_timely_def p)
  with Cons.IH y world_step_inv [OF Cons.prems(2) _ y(1)] show ?case by blast
qed simp

lemma world_init_inv: "a \<longrightarrow> accepts m \<Longrightarrow> cm_connections m = [] \<Longrightarrow> world_inv n a (world_init m)"
  by (auto simp: world_inv_def world_init_def registered_def queue_init_def)



section \<open>The end\<close>

definition forgotten :: "ctx \<Rightarrow> bool" where
  "forgotten x \<longleftrightarrow> cm_finished (x_man x) \<and> cm_connections (x_man x) = []"

interpretation fgt: event_rules forgotten
  by unfold_locales (auto simp: forgotten_def step_defs same_side_def remove_connection_def)

lemma finish_each_conns:
  assumes "distinct order"
  shows "wd_conns (fold (\<lambda>i. at_conn i (\<lambda>x. close_connection e (finish e x))) order w) i = Some c \<Longrightarrow>
    if i \<in> set order then \<not> c_connected c \<and> \<not> c_socket_open c else wd_conns w i = Some c"
  using assms
proof (induction order arbitrary: w)
  case (Cons j order)
  have "wd_conns (at_conn j (\<lambda>x. close_connection e (finish e x)) w) i = Some c \<Longrightarrow>
      if i = j then \<not> c_connected c \<and> \<not> c_socket_open c else wd_conns w i = Some c"
    by (auto simp: at_conn_def put_ctx_def close_connection_def split: option.splits if_splits)
  with Cons show ?case by (auto split: if_splits)
qed simp

lemma finish_each_forgotten:
  "cm_finished (wd_man w) \<and> cm_connections (wd_man w) = [] \<Longrightarrow>
   cm_finished (wd_man (fold (\<lambda>i. at_conn i (\<lambda>x. close_connection e (finish e x))) order w)) \<and>
   cm_connections (wd_man (fold (\<lambda>i. at_conn i (\<lambda>x. close_connection e (finish e x))) order w)) = []"
proof (induction order arbitrary: w)
  case (Cons i order)
  have "forgotten (close_connection e (finish e x))" if "forgotten x" for x
    unfolding close_connection_def finish_def by (intro fgt.idle_cleanup fgt.K_send that)
  with Cons.prems have "cm_finished (wd_man (at_conn i (\<lambda>x. close_connection e (finish e x)) w)) \<and>
      cm_connections (wd_man (at_conn i (\<lambda>x. close_connection e (finish e x)) w)) = []"
    by (auto simp: at_conn_def put_ctx_def forgotten_def ctx_at_def split: option.splits)
  from Cons.IH [OF this] show ?case by simp
qed simp

lemma manager_finish_outcome:
  assumes "\<not> cm_finished (wd_man w)" "distinct order" "set order = fst ` set (cm_connections (wd_man w))"
    "w' = manager_finish e order w"
  shows "(\<forall>i c. wd_conns w' i = Some c \<longrightarrow>
        (if registered i (wd_man w) then \<not> c_connected c \<and> \<not> c_socket_open c else wd_conns w i = Some c)) \<and>
     cm_connections (wd_man w') = [] \<and> manager_wait w = None \<and> manager_wait w' = Some w' \<and>
     manager_finish e order' w' = w'"
proof -
  let ?w1 = "w\<lparr>wd_man := (wd_man w)\<lparr>cm_finished := True, cm_connections := []\<rparr>\<rparr>"
  have w': "w' = fold (\<lambda>i. at_conn i (\<lambda>x. close_connection e (finish e x))) order ?w1"
    using assms(1,4) by (simp add: manager_finish_def)
  have gone: "cm_finished (wd_man w') \<and> cm_connections (wd_man w') = []"
    unfolding w' by (rule finish_each_forgotten) simp
  have "if i \<in> set order then \<not> c_connected c \<and> \<not> c_socket_open c else wd_conns w i = Some c"
    if "wd_conns w' i = Some c" for i c
    using finish_each_conns [OF assms(2) that [unfolded w']] by (auto split: if_splits)
  with gone assms(1,3) show ?thesis by (auto simp: manager_wait_def manager_finish_def registered_def)
qed

text \<open>C18. The finish of the manager closes every registered connection and forgets them all, lets
  the others alone, and happens only once; only then does waiting for completion return.\<close>

theorem manager_finish_closes:
  assumes "\<not> cm_finished (wd_man w)" "distinct order" "set order = fst ` set (cm_connections (wd_man w))"
    "w' = manager_finish e order w"
  shows "(\<forall>i c. wd_conns w' i = Some c \<longrightarrow>
        (if registered i (wd_man w) then \<not> c_connected c \<and> \<not> c_socket_open c else wd_conns w i = Some c)) \<and>
     cm_connections (wd_man w') = [] \<and> manager_wait w = None \<and> manager_wait w' = Some w' \<and>
     manager_finish e order' w' = w'"
  using assms by (rule manager_finish_outcome)

theorem manager_finish_closes_witness:
  "(\<exists>c. wd_conns (manager_finish sample_env [2, 1] sample_world) 1 = Some c \<and> \<not> c_socket_open c) \<and>
   cm_connections (wd_man (manager_finish sample_env [2, 1] sample_world)) = []"
proof -
  have w: "\<not> cm_finished (wd_man sample_world)" "distinct [2::nat, 1]"
    "set [2, 1] = fst ` set (cm_connections (wd_man sample_world))" "registered 1 (wd_man sample_world)"
    by (auto simp: sample_world_def world_init_def manager_init_def registered_def)
  have "wd_conns (manager_finish sample_env [2, 1] sample_world) 1 \<noteq> None" by code_simp
  then obtain c where "wd_conns (manager_finish sample_env [2, 1] sample_world) 1 = Some c" by blast
  with manager_finish_closes [OF w(1-3) refl] w(4) show ?thesis by metis
qed

end
