(* ===== verification/Settings.thy ===== *)
theory Settings
  imports Handlers
begin

text \<open>
  Configuration: the variables of the daemon (\<open>daemon/variable_map.cpp\<close>), its command line, the
  settings read from an XML file (\<open>daemon/xml_settings.cpp\<close>, \<open>daemon/xml_enumeration.hpp\<close>), and the
  lines of the standard input that become messages (\<open>stdext/stdin_reader.cpp\<close>).

  The parsed document is a parameter: libxml2 answers an XPath expression with the nodes it selects
  (the text of each, if it has one), or with something that is no node set. The cast of a string to
  an unsigned number with a given maximum is Boost's \<open>lexical_cast\<close>, a parameter as well, and so is
  the package name, which the build generates.
\<close>

section \<open>Variables\<close>

text \<open>The message of \<open>xiva::error\<close> is cut off at its buffer of 128 bytes.\<close>

definition xiva_error_of :: "string \<Rightarrow> string \<Rightarrow> xiva_error" where
  "xiva_error_of fmt arg = Xiva_error (take 127 (fmt @ takeWhile (\<lambda>c. c \<noteq> CHR 0x00) arg))"

fun find_begin :: "string \<Rightarrow> nat option" where
  "find_begin (a # b # s) =
     (if a = CHR ''$'' \<and> b = CHR 0x7B then Some 0 else map_option Suc (find_begin (b # s)))"
| "find_begin _ = None"

definition size_t :: "int \<Rightarrow> nat" where
  "size_t i = nat (i mod 2 ^ 64)"

definition substr :: "string \<Rightarrow> nat \<Rightarrow> nat \<Rightarrow> string" where
  "substr s pos n = take n (drop pos s)"

definition str_replace :: "nat \<Rightarrow> nat \<Rightarrow> string \<Rightarrow> string \<Rightarrow> string" where
  "str_replace pos n v s = take pos s @ v @ drop n (drop pos s)"

lemma find_begin_length: "find_begin s = Some b \<Longrightarrow> b + 2 \<le> length s"
  by (induction s arbitrary: b rule: find_begin.induct) (auto split: if_splits)

type_synonym variables = "(string \<times> string) list"

text \<open>\<open>substitute\<close>: the text between the first \<open>${\<close> and the last \<open>}\<close> is substituted first, then it is
  looked up. The positions are unsigned.\<close>

function substitute :: "string \<Rightarrow> variables \<Rightarrow> string result" where
  "substitute str vars =
     (case find_begin str of
        None \<Rightarrow> Inr str
      | Some begn \<Rightarrow>
          (case rfind (CHR 0x7D) str of
             None \<Rightarrow> Inl (xiva_error_of ''bad variable syntax: '' str)
           | Some endp \<Rightarrow>
               bind_result (substitute (substr str (begn + 2) (size_t (int endp - 1 - int (begn + 2) + 1))) vars) (\<lambda>name.
               (case om_find string_less vars name of
                  None \<Rightarrow> Inl (xiva_error_of ''nonexistent variable: '' name)
                | Some v \<Rightarrow> Inr (str_replace begn (size_t (int endp - int begn + 1)) v str)))))"
  by pat_completeness auto
termination
  by (relation "measure (\<lambda>(str, vars). length str)")
    (auto simp: substr_def dest!: find_begin_length)

declare substitute.simps [simp del]

definition add_variable :: "string \<Rightarrow> string \<Rightarrow> variables \<Rightarrow> variables result" where
  "add_variable name v vars =
     (case om_find string_less vars name of
        Some _ \<Rightarrow> Inl (xiva_error_of ''duplicate variable '' name)
      | None \<Rightarrow> Inr (om_assign string_less name v vars))"

definition find_variable :: "string \<Rightarrow> variables \<Rightarrow> string result" where
  "find_variable name vars =
     (case om_find string_less vars name of
        None \<Rightarrow> Inl (xiva_error_of ''nonexistent variable '' name)
      | Some v \<Rightarrow> Inr v)"

section \<open>The command line\<close>

record command_line =
  cl_help_mode :: bool
  cl_config_file :: string
  cl_dump_variable :: string

definition has_prefix :: "string \<Rightarrow> string \<Rightarrow> bool" where
  "has_prefix p s \<longleftrightarrow> take (length p) s = p"

text \<open>The arguments after the name of the program; \<open>--help\<close> ends the loop.\<close>

fun command_line_loop :: "string list \<Rightarrow> command_line \<Rightarrow> command_line" where
  "command_line_loop [] cl = cl"
| "command_line_loop (arg # args) cl =
     (if arg = ''--help'' then cl\<lparr>cl_help_mode := True\<rparr>
      else if has_prefix ''--config='' arg
      then command_line_loop args (cl\<lparr>cl_config_file := drop (length ''--config='') arg\<rparr>)
      else if has_prefix ''--dump-variable='' arg
      then command_line_loop args (cl\<lparr>cl_dump_variable := drop (length ''--dump-variable='') arg\<rparr>)
      else command_line_loop args cl)"

definition command_line_init :: "string list \<Rightarrow> command_line" where
  "command_line_init args = command_line_loop args \<lparr>cl_help_mode = False, cl_config_file = [], cl_dump_variable = []\<rparr>"

definition is_dump_mode :: "command_line \<Rightarrow> bool" where
  "is_dump_mode cl \<longleftrightarrow> cl_dump_variable cl \<noteq> []"

definition is_config_file_set :: "command_line \<Rightarrow> bool" where
  "is_config_file_set cl \<longleftrightarrow> cl_config_file cl \<noteq> []"

section \<open>The XML settings\<close>

record xml_doc =
  xd_root :: bool
  xd_included :: bool
  xd_eval :: "string \<Rightarrow> string option list option result"
  xd_variables :: "(string option \<times> string option) list option result"

record xml_settings =
  xs_doc :: xml_doc
  xs_vars :: variables
  xs_package :: string
  xs_cast :: "nat \<Rightarrow> string \<Rightarrow> nat option"

fun find_variables_loop :: "(string option \<times> string option) list \<Rightarrow> variables \<Rightarrow> variables result" where
  "find_variables_loop [] vars = Inr vars"
| "find_variables_loop ((val, name) # nodes) vars =
     (case (name, val) of
        (Some n, Some v) \<Rightarrow> bind_result (add_variable n v vars) (find_variables_loop nodes)
      | _ \<Rightarrow> Inl (xiva_error_of ''bad variable definition'' []))"

definition find_variables :: "xml_doc \<Rightarrow> variables result" where
  "find_variables doc = bind_result (xd_variables doc)
     (\<lambda>ns. case ns of None \<Rightarrow> Inr [] | Some nodes \<Rightarrow> find_variables_loop nodes [])"

text \<open>\<open>init\<close>; the document is \<open>None\<close> when the file cannot be parsed.\<close>

definition xml_init :: "string \<Rightarrow> string \<Rightarrow> (nat \<Rightarrow> string \<Rightarrow> nat option) \<Rightarrow> string \<Rightarrow> xml_doc option \<Rightarrow>
    xml_settings result" where
  "xml_init xml_error package cast name parsed =
     (case parsed of
        None \<Rightarrow> Inl (xiva_error_of [] xml_error)
      | Some doc \<Rightarrow>
          if \<not> xd_root doc then Inl (xiva_error_of ''empty config '' name)
          else if \<not> xd_included doc then Inl (xiva_error_of [] xml_error)
          else bind_result (find_variables doc) (\<lambda>vars.
            Inr \<lparr>xs_doc = doc, xs_vars = vars, xs_package = package, xs_cast = cast\<rparr>))"

definition xml_value :: "xml_settings \<Rightarrow> string \<Rightarrow> string result" where
  "xml_value s name = bind_result (xd_eval (xs_doc s) name)
     (\<lambda>ns. case ns of
        Some (t # _) \<Rightarrow> substitute (case t of Some v \<Rightarrow> v | None \<Rightarrow> []) (xs_vars s)
      | _ \<Rightarrow> Inl (xiva_error_of ''nonexistent config param: '' name))"

definition xml_as :: "nat \<Rightarrow> xml_settings \<Rightarrow> string \<Rightarrow> nat result" where
  "xml_as mx s name = bind_result (xml_value s name)
     (\<lambda>v. case xs_cast s mx v of Some n \<Rightarrow> Inr n | None \<Rightarrow> Inl Bad_lexical_cast)"

abbreviation max_ushort :: nat where "max_ushort \<equiv> 65535"

abbreviation max_uint :: nat where "max_uint \<equiv> 4294967295"

definition xml_path :: "xml_settings \<Rightarrow> string \<Rightarrow> string" where
  "xml_path s rest = ''/'' @ xs_package s @ rest"

text \<open>Catching \<open>xiva::error\<close> only: a failed cast is not one.\<close>

definition or_default :: "'a \<Rightarrow> 'a result \<Rightarrow> 'a result" where
  "or_default d r = (case r of Inl (Xiva_error _) \<Rightarrow> Inr d | _ \<Rightarrow> r)"

definition xml_address :: "xml_settings \<Rightarrow> string result" where
  "xml_address s = xml_value s (xml_path s ''/endpoint/address'')"

definition xml_port :: "xml_settings \<Rightarrow> nat result" where
  "xml_port s = xml_as max_ushort s (xml_path s ''/endpoint/port'')"

definition xml_backlog :: "xml_settings \<Rightarrow> nat result" where
  "xml_backlog s = xml_as max_ushort s (xml_path s ''/endpoint/backlog'')"

definition xml_ssl_address :: "xml_settings \<Rightarrow> string result" where
  "xml_ssl_address s = xml_value s (xml_path s ''/ssl-endpoint/address'')"

definition xml_ssl_port :: "xml_settings \<Rightarrow> nat result" where
  "xml_ssl_port s = or_default 0 (xml_as max_ushort s (xml_path s ''/ssl-endpoint/port''))"

definition xml_ssl_backlog :: "xml_settings \<Rightarrow> nat result" where
  "xml_ssl_backlog s = xml_as max_ushort s (xml_path s ''/ssl-endpoint/backlog'')"

definition xml_ssl_cert_file_name :: "xml_settings \<Rightarrow> string result" where
  "xml_ssl_cert_file_name s = or_default [] (xml_value s (xml_path s ''/ssl-endpoint/cert-file-name''))"

definition xml_ssl_cacert_file_name :: "xml_settings \<Rightarrow> string result" where
  "xml_ssl_cacert_file_name s = or_default [] (xml_value s (xml_path s ''/ssl-endpoint/cacert-file-name''))"

definition xml_read_timeout :: "xml_settings \<Rightarrow> nat result" where
  "xml_read_timeout s = xml_as max_ushort s (xml_path s ''/read-timeout'')"

definition xml_write_timeout :: "xml_settings \<Rightarrow> nat result" where
  "xml_write_timeout s = xml_as max_ushort s (xml_path s ''/write-timeout'')"

definition xml_inactive_timeout :: "xml_settings \<Rightarrow> nat result" where
  "xml_inactive_timeout s = xml_as max_uint s (xml_path s ''/inactive-timeout'')"

definition xml_ping_interval :: "xml_settings \<Rightarrow> nat result" where
  "xml_ping_interval s = xml_as max_uint s (xml_path s ''/ping-interval'')"

text \<open>The value of the parameter is handed to the overload of \<open>as\<close> that takes a name.\<close>

definition xml_handler_threads :: "xml_settings \<Rightarrow> nat result" where
  "xml_handler_threads s = bind_result (xml_value s (xml_path s ''/handler-threads'')) (xml_as max_ushort s)"

definition xml_listener_threads :: "xml_settings \<Rightarrow> nat result" where
  "xml_listener_threads s = xml_as max_ushort s (xml_path s ''/listener-threads'')"

definition xml_policy_file_name :: "xml_settings \<Rightarrow> string result" where
  "xml_policy_file_name s = xml_value s (xml_path s ''/policy-file-name'')"

text \<open>What the constructor of the daemon does with its arguments: the usage (and the exit code), one
  value, or the settings.\<close>

datatype start_up = Usage nat | Dumped string | Configured xml_settings

definition xml_settings_init :: "(string \<Rightarrow> xml_settings result) \<Rightarrow> string list \<Rightarrow> start_up result" where
  "xml_settings_init load args =
     (let cl = command_line_init args in
      if cl_help_mode cl then Inr (Usage 0)
      else if \<not> is_config_file_set cl then Inr (Usage 1)
      else bind_result (load (cl_config_file cl)) (\<lambda>s.
        if is_dump_mode cl
        then bind_result (xml_value s (cl_dump_variable cl))
          (\<lambda>v. Inr (Dumped (cl_dump_variable cl @ '':'' @ v)))
        else Inr (Configured s)))"

text \<open>A list of values: the nodes and the position. A node without a text is a null pointer that a
  string is made of.\<close>

record xml_enumeration =
  xe_nodes :: "string option list option"
  xe_count :: nat

definition xml_enumeration_init :: "xml_settings \<Rightarrow> string \<Rightarrow> xml_enumeration result" where
  "xml_enumeration_init s name = bind_result (xd_eval (xs_doc s) name)
     (\<lambda>ns. Inr \<lparr>xe_nodes = ns, xe_count = 0\<rparr>)"

definition xml_enumeration_empty :: "xml_enumeration \<Rightarrow> bool" where
  "xml_enumeration_empty en \<longleftrightarrow> (case xe_nodes en of None \<Rightarrow> True | Some ns \<Rightarrow> xe_count en = length ns)"

definition xml_enumeration_next :: "variables \<Rightarrow> xml_enumeration \<Rightarrow> string result \<times> xml_enumeration" where
  "xml_enumeration_next vars en =
     (case xe_nodes en of
        None \<Rightarrow> (Inl Assertion_failed, en)
      | Some ns \<Rightarrow>
          ((if xe_count en < length ns
            then (case ns ! xe_count en of None \<Rightarrow> Inl Undefined_behaviour | Some v \<Rightarrow> substitute v vars)
            else Inl Undefined_behaviour),
           en\<lparr>xe_count := Suc (xe_count en)\<rparr>))"

section \<open>Messages from the standard input\<close>

definition stdin_line :: "string \<Rightarrow> (string \<times> string) option" where
  "stdin_line line =
     (if CHR '':'' \<in> set line
      then Some (trim (takeWhile (\<lambda>c. c \<noteq> CHR '':'') line), trim (tl (dropWhile (\<lambda>c. c \<noteq> CHR '':'') line)))
      else None)"

text \<open>The loop over the lines, for any sender: it ends with the input or when the sender is no longer
  active. An exception of \<open>send\<close> is dropped.\<close>

fun process_stdin_messages :: "('s \<Rightarrow> bool) \<Rightarrow> (string \<Rightarrow> string \<Rightarrow> 's \<Rightarrow> 's) \<Rightarrow> string list \<Rightarrow> 's \<Rightarrow> 's" where
  "process_stdin_messages active send [] st = st"
| "process_stdin_messages active send (line # lines) st =
     (if active st
      then process_stdin_messages active send lines (case stdin_line line of None \<Rightarrow> st | Some (to, cont) \<Rightarrow> send to cont st)
      else st)"

section \<open>What substitution computes\<close>

text \<open>A reference: texts with one variable, whose name may contain a variable again.\<close>

datatype expr = Plain string | Var string expr string

fun render :: "expr \<Rightarrow> string" where
  "render (Plain s) = s"
| "render (Var pre inner post) = pre @ [CHR ''$'', CHR 0x7B] @ render inner @ [CHR 0x7D] @ post"

fun expr_wf :: "expr \<Rightarrow> bool" where
  "expr_wf (Plain s) \<longleftrightarrow> CHR ''$'' \<notin> set s"
| "expr_wf (Var pre inner post) \<longleftrightarrow> CHR ''$'' \<notin> set pre \<and> CHR 0x7D \<notin> set post \<and> expr_wf inner"

fun eval_expr :: "variables \<Rightarrow> expr \<Rightarrow> string result" where
  "eval_expr vars (Plain s) = Inr s"
| "eval_expr vars (Var pre inner post) = bind_result (eval_expr vars inner) (\<lambda>name.
     (case om_find string_less vars name of
        None \<Rightarrow> Inl (xiva_error_of ''nonexistent variable: '' name)
      | Some v \<Rightarrow> Inr (pre @ v @ post)))"

lemma find_begin_None: "CHR ''$'' \<notin> set s \<Longrightarrow> find_begin s = None"
  by (induction s rule: find_begin.induct) auto

lemma find_begin_first:
  "CHR ''$'' \<notin> set pre \<Longrightarrow> find_begin (pre @ CHR ''$'' # CHR 0x7B # s) = Some (length pre)"
proof (induction pre)
  case (Cons a pre)
  then show ?case by (cases pre) auto
qed simp

lemma size_t_nat: "n < 2 ^ 64 \<Longrightarrow> size_t (int n) = n"
  by (simp add: size_t_def)

lemma substitute_step:
  assumes "CHR ''$'' \<notin> set pre" "CHR 0x7D \<notin> set post"
    "length (pre @ [CHR ''$'', CHR 0x7B] @ inner @ [CHR 0x7D] @ post) < 2 ^ 64"
  shows "substitute (pre @ [CHR ''$'', CHR 0x7B] @ inner @ [CHR 0x7D] @ post) vars =
    bind_result (substitute inner vars) (\<lambda>name.
      (case om_find string_less vars name of
         None \<Rightarrow> Inl (xiva_error_of ''nonexistent variable: '' name)
       | Some v \<Rightarrow> Inr (pre @ v @ post)))"
proof -
  let ?str = "pre @ [CHR ''$'', CHR 0x7B] @ inner @ [CHR 0x7D] @ post"
  have b: "find_begin ?str = Some (length pre)" using find_begin_first [OF assms(1)] by simp
  have e: "rfind (CHR 0x7D) ?str = Some (length pre + 2 + length inner)"
    using rfind_last [OF assms(2), of "pre @ [CHR ''$'', CHR 0x7B] @ inner"] by simp
  have "int (length pre + 2 + length inner) - 1 - int (length pre + 2) + 1 = int (length inner)"
    "int (length pre + 2 + length inner) - int (length pre) + 1 = int (length inner + 3)" by simp_all
  moreover have "length inner + 3 < 2 ^ 64" using assms(3) by simp
  ultimately have n: "size_t (int (length pre + 2 + length inner) - 1 - int (length pre + 2) + 1) = length inner"
    "size_t (int (length pre + 2 + length inner) - int (length pre) + 1) = length inner + 3"
    by (simp_all only: size_t_nat)
  have i: "substr ?str (length pre + 2) (length inner) = inner" by (simp add: substr_def)
  have r: "str_replace (length pre) (length inner + 3) v ?str = pre @ v @ post" for v
    by (simp add: str_replace_def numeral_3_eq_3)
  show ?thesis
    unfolding substitute.simps [of ?str] b e option.case n i r ..
qed



text \<open>Two variables side by side are not substituted: everything from the first name to the
  last is taken for one name.\<close>

theorem substitute_two_variables:
  assumes "CHR ''$'' \<notin> set (a @ mid @ b)" "CHR 0x7D \<notin> set (mid @ b)" "mid \<noteq> []"
    "om_find string_less vars b = Some v" "length a + length mid + length b + 6 < 2 ^ 64"
    "om_find string_less vars (a @ [CHR 0x7D] @ mid @ v) = None"
  shows "substitute ([CHR ''$'', CHR 0x7B] @ a @ [CHR 0x7D] @ mid @ [CHR ''$'', CHR 0x7B] @ b @ [CHR 0x7D]) vars =
    Inl (xiva_error_of ''nonexistent variable: '' (a @ [CHR 0x7D] @ mid @ v))"
proof -
  let ?inner = "a @ [CHR 0x7D] @ mid @ [CHR ''$'', CHR 0x7B] @ b"
  let ?begn = "length a + 1 + length mid"
  have f: "find_begin ?inner = Some ?begn"
    using find_begin_first [of "a @ [CHR 0x7D] @ mid" b] assms(1) by simp
  have l: "rfind (CHR 0x7D) ?inner = Some (length a)"
    using rfind_last [of "CHR 0x7D" "mid @ [CHR ''$'', CHR 0x7B] @ b" a] assms(2) by simp
  have "int (length a) - 1 - int (?begn + 2) + 1 = - int (length mid + 3)"
    "int (length a) - int ?begn + 1 = - int (length mid)" by simp_all
  moreover have wrap: "size_t (- int k) = 2 ^ 64 - k" if "0 < k" "k < 2 ^ 64" for k
    using that by (simp add: size_t_def zmod_zminus1_eq_if nat_diff_distrib)
  moreover have "length mid + 3 < 2 ^ 64" "length mid < 2 ^ 64" using assms(5) by simp_all
  ultimately have n: "size_t (int (length a) - 1 - int (?begn + 2) + 1) = 2 ^ 64 - (length mid + 3)"
    "size_t (int (length a) - int ?begn + 1) = 2 ^ 64 - length mid"
    using assms(3) by (simp_all only: wrap length_greater_0_conv) (simp_all add: wrap)
  let ?p = "a @ [CHR 0x7D] @ mid @ [CHR ''$'', CHR 0x7B]"
  have "?p @ b = ?inner" by simp
  then have "drop (length ?p) ?inner = b" by (simp only: append_eq_conv_conj)
  then have d: "drop (?begn + 2) ?inner = b" by simp
  have b: "substr ?inner (?begn + 2) (2 ^ 64 - (length mid + 3)) = b"
    "str_replace ?begn (2 ^ 64 - length mid) v ?inner = a @ [CHR 0x7D] @ mid @ v"
    unfolding substr_def d using assms(5) by (simp_all add: str_replace_def)
  have "substitute b vars = Inr b"
    using assms(1) by (simp add: substitute.simps [of b] find_begin_None)
  then have "substitute ?inner vars = Inr (a @ [CHR 0x7D] @ mid @ v)"
    unfolding substitute.simps [of ?inner] f l option.case n b by (simp only: assms(4) bind_result_simps option.case b)
  with substitute_step [of "[]" "[]" ?inner vars] assms(5,6) show ?thesis by simp
qed

theorem substitute_two_variables_witness:
  "substitute ''${dir}/${file}'' [(''dir'', ''/etc''), (''file'', ''x'')] =
    Inl (Xiva_error ''nonexistent variable: dir}/x'')"
proof -
  have "om_find string_less [(''dir'', ''/etc''), (''file'', ''x'')] ''file'' = Some ''x''"
    "om_find string_less [(''dir'', ''/etc''), (''file'', ''x'')] (''dir'' @ [CHR 0x7D] @ ''/'' @ ''x'') = None"
    by code_simp+
  from substitute_two_variables [of "''dir''" "''/''" "''file''", OF _ _ _ this(1) _ this(2)]
  show ?thesis by (simp add: xiva_error_of_def)
qed

section \<open>The number of handler threads\<close>

text \<open>Reading the number of handler threads always fails: the configured number is taken for
  the name of a parameter, and a number is an XPath expression that selects no nodes.\<close>

theorem handler_threads_fail:
  assumes "\<And>n. xd_eval (xs_doc s) (show_nat n) = Inr None"
    "xml_value s (xml_path s ''/handler-threads'') = Inr (show_nat n)"
  shows "xml_handler_threads s = Inl (xiva_error_of ''nonexistent config param: '' (show_nat n))"
  using assms by (simp add: xml_handler_threads_def xml_as_def xml_value_def [of s "show_nat n"])

definition sample_doc :: xml_doc where
  "sample_doc = \<lparr>xd_root = True, xd_included = True,
     xd_eval = (\<lambda>name. Inr (if name = ''/xiva/handler-threads'' then Some [Some ''1''] else None)),
     xd_variables = Inr None\<rparr>"

definition sample_settings :: xml_settings where
  "sample_settings = \<lparr>xs_doc = sample_doc, xs_vars = [], xs_package = ''xiva'',
     xs_cast = (\<lambda>mx v. if v = ''1'' then Some 1 else None)\<rparr>"

lemma sample_no_number: "xd_eval (xs_doc sample_settings) (show_nat n) = Inr None"
proof -
  have "show_nat n \<noteq> ''/xiva/handler-threads''"
  proof
    assume "show_nat n = ''/xiva/handler-threads''"
    then have "CHR ''/'' \<in> set (show_nat n)" by simp
    from show_number_chars [OF _ this] show False by (simp add: uchar_def)
  qed
  then show ?thesis by (simp add: sample_settings_def sample_doc_def)
qed

theorem handler_threads_fail_witness:
  "xml_handler_threads sample_settings = Inl (xiva_error_of ''nonexistent config param: '' ''1'')"
proof -
  have one: "show_nat 1 = ''1''" by code_simp
  have "xml_value sample_settings (xml_path sample_settings ''/handler-threads'') = Inr (show_nat 1)"
    unfolding one by code_simp
  with sample_no_number have "xml_handler_threads sample_settings =
      Inl (xiva_error_of ''nonexistent config param: '' (show_nat 1))"
    by (rule handler_threads_fail)
  then show ?thesis unfolding one .
qed

end
