(* ===== verification/Server.thy ===== *)
theory Server
  imports World Settings
begin

text \<open>
  Accepting connections (\<open>include/details/acceptor.hpp\<close>), the data the connections share
  (\<open>library/connection_data.cpp\<close>), and the server that owns all components and takes them through
  their life: attaching, \<open>init\<close>, \<open>start\<close>, \<open>stop\<close> (\<open>library/server_impl.cpp\<close>, to which
  \<open>library/server.cpp\<close> forwards).
\<close>

section \<open>Accepting\<close>

datatype accept_handler = Accept_first | Accept_again

datatype accept_code = Accept_ok | No_descriptors | Accept_error

datatype accept_job = Job_process nat | Job_accept_again

text \<open>An acceptor: whether it is open and where it listens, the accept that is outstanding with the
  connection made for it, what it has posted to the strand, the second of the last error it logged,
  and how many errors it has logged.\<close>

record acceptor =
  ac_secure :: bool
  ac_open :: bool
  ac_endpoint :: "(string \<times> nat \<times> nat) option"
  ac_accepting :: "(accept_handler \<times> nat) option"
  ac_posted :: "accept_job list"
  ac_last_err_message_time :: int
  ac_logged :: nat

definition acceptor_init :: "bool \<Rightarrow> acceptor" where
  "acceptor_init secure = \<lparr>ac_secure = secure, ac_open = False, ac_endpoint = None, ac_accepting = None,
     ac_posted = [], ac_last_err_message_time = 0, ac_logged = 0\<rparr>"

text \<open>The new connection is \<open>None\<close> when making it, or starting the accept, throws.\<close>

definition accept_first :: "nat option \<Rightarrow> acceptor \<Rightarrow> acceptor" where
  "accept_first conn ac =
     (case conn of
        None \<Rightarrow> ac\<lparr>ac_logged := Suc (ac_logged ac)\<rparr>
      | Some i \<Rightarrow> ac\<lparr>ac_accepting := Some (Accept_first, i)\<rparr>)"

definition accept_again :: "nat option \<Rightarrow> acceptor \<Rightarrow> acceptor" where
  "accept_again conn ac =
     (case conn of
        None \<Rightarrow> ac\<lparr>ac_logged := Suc (ac_logged ac)\<rparr>
      | Some i \<Rightarrow> ac\<lparr>ac_accepting := Some (Accept_again, i)\<rparr>)"

definition handle_accept_ok :: "bool \<Rightarrow> nat option \<Rightarrow> nat \<Rightarrow> acceptor \<Rightarrow> acceptor" where
  "handle_accept_ok stopping next i ac =
     (if stopping then ac
      else accept_again next (ac\<lparr>ac_posted := ac_posted ac @ [Job_process i]\<rparr>))"

definition handle_accept_first :: "bool \<Rightarrow> nat option \<Rightarrow> nat \<Rightarrow> accept_code \<Rightarrow> acceptor \<Rightarrow> unit result \<times> acceptor" where
  "handle_accept_first stopping next i code ac =
     (if code \<noteq> Accept_ok
      then (Inl (Xiva_error ''network error occured while first accepting connection''), ac)
      else (Inr (), handle_accept_ok stopping next i ac))"

definition handle_accept_again :: "bool \<Rightarrow> int \<Rightarrow> nat option \<Rightarrow> nat \<Rightarrow> accept_code \<Rightarrow> acceptor \<Rightarrow> acceptor" where
  "handle_accept_again stopping now next i code ac =
     (if stopping then ac
      else if code \<noteq> Accept_ok then
        (let ac1 = (if now \<noteq> ac_last_err_message_time ac \<or> code \<noteq> No_descriptors
                    then ac\<lparr>ac_logged := Suc (ac_logged ac), ac_last_err_message_time := now\<rparr> else ac)
         in ac1\<lparr>ac_posted := ac_posted ac1 @ [Job_accept_again]\<rparr>)
      else handle_accept_ok stopping next i ac)"

text \<open>Binding asks the system, which may refuse the address before the socket is open, or the options,
  the address or the port after: it answers whether the socket is open, and the outcome.\<close>

definition acceptor_bind :: "(string \<Rightarrow> nat \<Rightarrow> nat \<Rightarrow> bool \<times> unit result) \<Rightarrow> string \<Rightarrow> nat \<Rightarrow> nat \<Rightarrow> acceptor \<Rightarrow> unit result \<times> acceptor" where
  "acceptor_bind system addr port backlog ac =
     (case system addr port backlog of
        (b, Inl e) \<Rightarrow> (Inl e, ac\<lparr>ac_open := ac_open ac \<or> b\<rparr>)
      | (_, Inr _) \<Rightarrow> (Inr (), ac\<lparr>ac_open := True, ac_endpoint := Some (addr, port, backlog)\<rparr>))"

definition acceptor_stop :: "acceptor \<Rightarrow> acceptor" where
  "acceptor_stop ac = ac\<lparr>ac_open := False\<rparr>"

text \<open>The acceptor at work: the outstanding accept completes, or the strand runs the first job; the
  connections that have been started are collected.\<close>

datatype accept_event = Ae_completes accept_code "nat option" int | Ae_job "nat option"

definition acceptor_step :: "bool \<Rightarrow> accept_event \<Rightarrow> acceptor \<Rightarrow> (unit result \<times> acceptor \<times> nat list) option" where
  "acceptor_step stopping ev ac =
     (case ev of
        Ae_completes code next now \<Rightarrow>
          (case ac_accepting ac of
             None \<Rightarrow> None
           | Some (Accept_first, i) \<Rightarrow>
               (case handle_accept_first stopping next i code (ac\<lparr>ac_accepting := None\<rparr>) of
                  (r, ac') \<Rightarrow> Some (r, ac', []))
           | Some (Accept_again, i) \<Rightarrow>
               Some (Inr (), handle_accept_again stopping now next i code (ac\<lparr>ac_accepting := None\<rparr>), []))
      | Ae_job next \<Rightarrow>
          (case ac_posted ac of
             [] \<Rightarrow> None
           | Job_process i # jobs \<Rightarrow> Some (Inr (), ac\<lparr>ac_posted := jobs\<rparr>, [i])
           | Job_accept_again # jobs \<Rightarrow> Some (Inr (), accept_again next (ac\<lparr>ac_posted := jobs\<rparr>), [])))"

fun acceptor_run :: "accept_event list \<Rightarrow> acceptor \<Rightarrow> (acceptor \<times> nat list) option" where
  "acceptor_run [] ac = Some (ac, [])"
| "acceptor_run (ev # evs) ac =
     (case acceptor_step False ev ac of
        Some (Inr _, ac', started) \<Rightarrow> map_option (\<lambda>(ac2, more). (ac2, started @ more)) (acceptor_run evs ac')
      | _ \<Rightarrow> None)"

text \<open>The connections made for successful accepts, in order.\<close>

fun accepted_ids :: "accept_event list \<Rightarrow> acceptor \<Rightarrow> nat list" where
  "accepted_ids [] ac = []"
| "accepted_ids (ev # evs) ac =
     (case acceptor_step False ev ac of
        Some (Inr _, ac', _) \<Rightarrow>
          (case (ev, ac_accepting ac) of (Ae_completes Accept_ok _ _, Some (_, i)) \<Rightarrow> [i] | _ \<Rightarrow> []) @ accepted_ids evs ac'
      | _ \<Rightarrow> [])"

definition processing :: "acceptor \<Rightarrow> nat list" where
  "processing ac = List.map_filter (\<lambda>j. case j of Job_process i \<Rightarrow> Some i | Job_accept_again \<Rightarrow> None) (ac_posted ac)"

definition outstanding :: "acceptor \<Rightarrow> nat" where
  "outstanding ac = (if ac_accepting ac = None then 0 else 1) + count_list (ac_posted ac) Job_accept_again"

definition makes_sockets :: "accept_event list \<Rightarrow> bool" where
  "makes_sockets evs \<longleftrightarrow> (\<forall>ev\<in>set evs. case ev of Ae_completes _ next _ \<Rightarrow> next \<noteq> None | Ae_job next \<Rightarrow> next \<noteq> None)"

lemma map_filter_app: "List.map_filter f (xs @ ys) = List.map_filter f xs @ List.map_filter f ys"
  by (simp add: List.map_filter_def)

lemma processing_simps [simp]:
  "processing (ac\<lparr>ac_accepting := x\<rparr>) = processing ac" "processing (ac\<lparr>ac_logged := n\<rparr>) = processing ac"
  "processing (ac\<lparr>ac_last_err_message_time := t\<rparr>) = processing ac"
  by (simp_all add: processing_def)

lemma acceptor_step_keeps:
  assumes "acceptor_step False ev ac = Some (Inr u, ac', started)"
  shows "processing ac @ (case (ev, ac_accepting ac) of (Ae_completes Accept_ok _ _, Some (_, i)) \<Rightarrow> [i] | _ \<Rightarrow> [])
      = started @ processing ac'"
    and "makes_sockets [ev] \<Longrightarrow> outstanding ac = 1 \<Longrightarrow> outstanding ac' = 1"
  using assms
  by (auto simp: acceptor_step_def handle_accept_first_def handle_accept_again_def handle_accept_ok_def
      accept_again_def processing_def outstanding_def makes_sockets_def map_filter_app map_filter_simps Let_def
      split: accept_event.splits option.splits accept_handler.splits list.splits accept_job.splits if_splits
        accept_code.splits)



section \<open>The data of the connections\<close>

text \<open>The settings as the library sees them; every one may throw.\<close>

record settings =
  st_address :: "string result"
  st_port :: "nat result"
  st_backlog :: "nat result"
  st_ssl_address :: "string result"
  st_ssl_port :: "nat result"
  st_ssl_backlog :: "nat result"
  st_ssl_cert_file_name :: "string result"
  st_ssl_cacert_file_name :: "string result"
  st_read_timeout :: "nat result"
  st_write_timeout :: "nat result"
  st_inactive_timeout :: "nat result"
  st_ping_interval :: "nat result"
  st_handler_threads :: "nat result"
  st_listener_threads :: "nat result"
  st_policy_file_name :: "string result"

definition settings_of_xml :: "xml_settings \<Rightarrow> settings" where
  "settings_of_xml s = \<lparr>st_address = xml_address s, st_port = xml_port s, st_backlog = xml_backlog s,
     st_ssl_address = xml_ssl_address s, st_ssl_port = xml_ssl_port s, st_ssl_backlog = xml_ssl_backlog s,
     st_ssl_cert_file_name = xml_ssl_cert_file_name s, st_ssl_cacert_file_name = xml_ssl_cacert_file_name s,
     st_read_timeout = xml_read_timeout s, st_write_timeout = xml_write_timeout s,
     st_inactive_timeout = xml_inactive_timeout s, st_ping_interval = xml_ping_interval s,
     st_handler_threads = xml_handler_threads s, st_listener_threads = xml_listener_threads s,
     st_policy_file_name = xml_policy_file_name s\<rparr>"

definition connection_data_new :: connection_data where
  "connection_data_new = \<lparr>cd_fmt_factory = [], cd_ping_message = [], cd_ping_message_for_single = [],
     cd_policy_data = [], cd_read_timeout = 0, cd_write_timeout = 0, cd_inactive_timeout = 0,
     cd_ping_interval = 0, cd_max_request_size = 16 * 1024, cd_stopping = False\<rparr>"

text \<open>The ping formatter gives two messages. A file is its content, or \<open>None\<close> when it cannot be
  opened. A policy file name that cannot be had counts as none.\<close>

definition connection_data_init :: "(string \<Rightarrow> string option) \<Rightarrow> settings \<Rightarrow> (string \<times> string) option \<Rightarrow>
    connection_data \<Rightarrow> connection_data result" where
  "connection_data_init file s ping d =
     bind_result (st_read_timeout s) (\<lambda>rt.
     bind_result (st_write_timeout s) (\<lambda>wt.
     bind_result (st_inactive_timeout s) (\<lambda>it.
     bind_result (st_ping_interval s) (\<lambda>pi.
       let d1 = d\<lparr>cd_read_timeout := rt, cd_write_timeout := wt, cd_inactive_timeout := it, cd_ping_interval := pi\<rparr>;
           d2 = (case ping of None \<Rightarrow> d1
                 | Some (m, single) \<Rightarrow> d1\<lparr>cd_ping_message := m, cd_ping_message_for_single := single\<rparr>);
           name = (case st_policy_file_name s of Inl _ \<Rightarrow> [] | Inr n \<Rightarrow> n)
       in if name = [] then Inr d2
          else case file name of
            None \<Rightarrow> Inl (Runtime_error (''can not open policy file: '' @ name))
          | Some data \<Rightarrow> Inr (d2\<lparr>cd_policy_data := data\<rparr>)))))"

definition connection_data_stop :: "connection_data \<Rightarrow> connection_data" where
  "connection_data_stop d = d\<lparr>cd_stopping := True\<rparr>"

section \<open>The server\<close>

text \<open>The world (the manager, the connections and the queue of the threaded invoker) exists from
  \<open>init_data\<close> on, like the acceptors. A provider is a function of the application, known by a
  number, with its number of threads; the list of running providers has one entry per thread.
  \<open>sv_dispatched\<close> says that \<open>stop\<close> has handed the finish of the manager to the strand.\<close>

record server =
  sv_data :: connection_data
  sv_handler :: "response_handler option"
  sv_ping_formatter :: "(string \<times> string) option"
  sv_message_filter :: "message_filter option"
  sv_listeners :: "user_listener list"
  sv_providers :: "(nat \<times> nat) list"
  sv_running :: "nat list"
  sv_logger :: bool
  sv_world :: "world option"
  sv_acceptor :: "acceptor option"
  sv_ssl_acceptor :: "acceptor option"
  sv_message_queue :: "message_queue option"
  sv_workers :: nat
  sv_started :: bool
  sv_stopped :: bool
  sv_dispatched :: bool
  sv_io_stopped :: bool

definition server_new :: server where
  "server_new = \<lparr>sv_data = connection_data_new, sv_handler = None, sv_ping_formatter = None,
     sv_message_filter = None, sv_listeners = [], sv_providers = [], sv_running = [], sv_logger = False,
     sv_world = None, sv_acceptor = None, sv_ssl_acceptor = None, sv_message_queue = None, sv_workers = 0,
     sv_started = False, sv_stopped = False, sv_dispatched = False, sv_io_stopped = False\<rparr>"

text \<open>Steps that may throw, one after the other.\<close>

definition and_then :: "unit result \<times> server \<Rightarrow> (server \<Rightarrow> unit result \<times> server) \<Rightarrow> unit result \<times> server" where
  "and_then p f = (case p of (Inl e, sv) \<Rightarrow> (Inl e, sv) | (Inr _, sv) \<Rightarrow> f sv)"

definition try_get :: "'a result \<Rightarrow> server \<Rightarrow> ('a \<Rightarrow> unit result \<times> server) \<Rightarrow> unit result \<times> server" where
  "try_get r sv f = (case r of Inl e \<Rightarrow> (Inl e, sv) | Inr v \<Rightarrow> f v)"

subsection \<open>Attaching\<close>

definition attach_logger :: "server \<Rightarrow> server" where
  "attach_logger sv = sv\<lparr>sv_logger := True\<rparr>"

definition server_attach_message_filter :: "message_filter \<Rightarrow> server \<Rightarrow> server" where
  "server_attach_message_filter f sv = sv\<lparr>sv_message_filter := Some f\<rparr>"

definition attach_response_handler :: "response_handler \<Rightarrow> server \<Rightarrow> server" where
  "attach_response_handler h sv = sv\<lparr>sv_handler := Some h\<rparr>"

definition attach_ping_formatter :: "string \<times> string \<Rightarrow> server \<Rightarrow> server" where
  "attach_ping_formatter f sv = sv\<lparr>sv_ping_formatter := Some f\<rparr>"

definition attach_formatter_creator :: "string \<Rightarrow> formatter_creator option \<Rightarrow> server \<Rightarrow> server" where
  "attach_formatter_creator fmt_id creator sv =
     sv\<lparr>sv_data := (sv_data sv)\<lparr>cd_fmt_factory := attach_creator fmt_id creator (cd_fmt_factory (sv_data sv))\<rparr>\<rparr>"

definition server_add_listener :: "user_listener \<Rightarrow> server \<Rightarrow> server" where
  "server_add_listener l sv = sv\<lparr>sv_listeners := add_connection_listener l (sv_listeners sv),
     sv_world := map_option (\<lambda>w. w\<lparr>wd_man := manager_add_listener l (wd_man w)\<rparr>) (sv_world sv)\<rparr>"

definition start_provider :: "nat \<Rightarrow> nat \<Rightarrow> server \<Rightarrow> server" where
  "start_provider nthreads f sv = sv\<lparr>sv_providers := sv_providers sv @ [(f, nthreads)]\<rparr>"

definition start_provider_thread :: "nat \<times> nat \<Rightarrow> server \<Rightarrow> server" where
  "start_provider_thread tp sv = sv\<lparr>sv_running := sv_running sv @ replicate (snd tp) (fst tp)\<rparr>"

subsection \<open>Initialisation\<close>

text \<open>What setting up TLS asks of OpenSSL (\<open>library/ssl_context.cpp\<close>), each of which may throw.\<close>

datatype tls_call = Load_verify_file string | Use_certificate_chain_file string | Use_private_key_file string

definition ssl_context_init :: "(tls_call \<Rightarrow> unit result) \<Rightarrow> settings \<Rightarrow> unit result" where
  "ssl_context_init tls s =
     bind_result (st_ssl_cacert_file_name s) (\<lambda>cacert.
     bind_result (if cacert \<noteq> [] then tls (Load_verify_file cacert) else Inr ()) (\<lambda>_.
     bind_result (st_ssl_cert_file_name s) (\<lambda>cert.
       if cert \<noteq> [] then bind_result (tls (Use_certificate_chain_file cert)) (\<lambda>_. tls (Use_private_key_file cert))
       else Inr ())))"

definition init_data :: "(settings \<Rightarrow> unit result) \<Rightarrow> settings \<Rightarrow> bool \<Rightarrow> server \<Rightarrow> unit result \<times> server" where
  "init_data ssl_init s ssl sv =
     (let m = (manager_init (Some []))\<lparr>cm_listeners := sv_listeners sv\<rparr>;
          sv1 = sv\<lparr>sv_world := Some (world_init m), sv_acceptor := Some (acceptor_init False)\<rparr>
      in if ssl then (ssl_init s, sv1\<lparr>sv_ssl_acceptor := Some (acceptor_init True)\<rparr>) else (Inr (), sv1))"

definition invoker_init_threads :: "settings \<Rightarrow> server \<Rightarrow> unit result \<times> server" where
  "invoker_init_threads s sv =
     (if (case sv_handler sv of None \<Rightarrow> False | Some h \<Rightarrow> rh_threaded h)
      then try_get (st_handler_threads s) sv (\<lambda>n. (Inr (), sv\<lparr>sv_workers := n\<rparr>))
      else (Inr (), sv))"

definition listener_init :: "settings \<Rightarrow> server \<Rightarrow> unit result \<times> server" where
  "listener_init s sv =
     (if sv_listeners sv = [] then (Inr (), sv)
      else try_get (st_listener_threads s) sv (\<lambda>n.
        (Inr (), sv\<lparr>sv_world := map_option (\<lambda>w. w\<lparr>wd_man := manager_start n (wd_man w)\<rparr>) (sv_world sv)\<rparr>)))"

definition bind_acceptor :: "(string \<Rightarrow> nat \<Rightarrow> nat \<Rightarrow> bool \<times> unit result) \<Rightarrow> settings \<Rightarrow> server \<Rightarrow> unit result \<times> server" where
  "bind_acceptor system s sv =
     (case sv_acceptor sv of
        None \<Rightarrow> (Inl Assertion_failed, sv)
      | Some ac \<Rightarrow> try_get (st_address s) sv (\<lambda>addr. try_get (st_port s) sv (\<lambda>port. try_get (st_backlog s) sv (\<lambda>bl.
          case acceptor_bind system addr port bl ac of (r, ac') \<Rightarrow> (r, sv\<lparr>sv_acceptor := Some ac'\<rparr>)))))"

definition bind_ssl_acceptor :: "(string \<Rightarrow> nat \<Rightarrow> nat \<Rightarrow> bool \<times> unit result) \<Rightarrow> settings \<Rightarrow> nat \<Rightarrow> server \<Rightarrow> unit result \<times> server" where
  "bind_ssl_acceptor system s ssl_port sv =
     (case sv_ssl_acceptor sv of
        None \<Rightarrow> (Inr (), sv)
      | Some ac \<Rightarrow> try_get (st_ssl_address s) sv (\<lambda>addr. try_get (st_ssl_backlog s) sv (\<lambda>bl.
          case acceptor_bind system addr ssl_port bl ac of (r, ac') \<Rightarrow> (r, sv\<lparr>sv_ssl_acceptor := Some ac'\<rparr>))))"

text \<open>The system that the initialisation uses: files, TLS set-up, binding, and the connections made
  for the first accepts.\<close>

record system =
  sy_file :: "string \<Rightarrow> string option"
  sy_tls :: "tls_call \<Rightarrow> unit result"
  sy_bind :: "string \<Rightarrow> nat \<Rightarrow> nat \<Rightarrow> bool \<times> unit result"
  sy_first :: "nat option"
  sy_ssl_first :: "nat option"

definition server_init :: "system \<Rightarrow> settings \<Rightarrow> server \<Rightarrow> unit result \<times> server" where
  "server_init sy s sv =
     (if sv_message_queue sv \<noteq> None then (Inl Assertion_failed, sv)
      else let sv1 = attach_logger sv in
      try_get (connection_data_init (sy_file sy) s (sv_ping_formatter sv1) (sv_data sv1)) sv1 (\<lambda>d.
      let sv2 = sv1\<lparr>sv_data := d, sv_handler := (case sv_handler sv1 of None \<Rightarrow> Some url_response_handler | h \<Rightarrow> h)\<rparr> in
      try_get (st_ssl_port s) sv2 (\<lambda>ssl_port.
      and_then (init_data (ssl_context_init (sy_tls sy)) s (ssl_port \<noteq> 0) sv2) (\<lambda>sv3.
      and_then (invoker_init_threads s sv3) (\<lambda>sv4.
      let sv5 = sv4\<lparr>sv_world := map_option (\<lambda>w. w\<lparr>wd_man := attach_message_filter (sv_message_filter sv4) (wd_man w)\<rparr>)
                      (sv_world sv4), sv_message_queue := Some message_queue_init\<rparr> in
      and_then (listener_init s sv5) (\<lambda>sv6.
      and_then (bind_acceptor (sy_bind sy) s sv6) (\<lambda>sv7.
      and_then (bind_ssl_acceptor (sy_bind sy) s ssl_port sv7) (\<lambda>sv8.
      let sv9 = fold start_provider_thread (sv_providers sv8) sv8 in
      (Inr (), sv9\<lparr>sv_acceptor := map_option (accept_first (sy_first sy)) (sv_acceptor sv9),
                   sv_ssl_acceptor := map_option (accept_first (sy_ssl_first sy)) (sv_ssl_acceptor sv9)\<rparr>)))))))))"

definition server_init_channels_stat :: "server \<Rightarrow> unit result \<times> server" where
  "server_init_channels_stat sv =
     (if sv_started sv then (Inl Assertion_failed, sv)
      else case sv_world sv of
        None \<Rightarrow> (Inl Assertion_failed, sv)
      | Some w \<Rightarrow> (Inr (), sv\<lparr>sv_world := Some (w\<lparr>wd_man := init_channels_stat (wd_man w)\<rparr>)\<rparr>))"

subsection \<open>Sending\<close>

definition server_send :: "string \<Rightarrow> message \<Rightarrow> server \<Rightarrow> server" where
  "server_send to m sv =
     (case sv_message_queue sv of
        Some q \<Rightarrow> if \<not> cd_stopping (sv_data sv) then sv\<lparr>sv_message_queue := Some (message_queue_send_name to m q)\<rparr> else sv
      | None \<Rightarrow> sv)"

definition server_send_id :: "nat \<Rightarrow> message \<Rightarrow> server \<Rightarrow> server" where
  "server_send_id to m sv =
     (case sv_message_queue sv of
        Some q \<Rightarrow> if \<not> cd_stopping (sv_data sv) then sv\<lparr>sv_message_queue := Some (message_queue_send_id to m q)\<rparr> else sv
      | None \<Rightarrow> sv)"

text \<open>Dispatched to the strand, which runs it when it gets to it; here at once.\<close>

definition server_notify_opened_failed :: "env \<Rightarrow> string \<Rightarrow> nat \<Rightarrow> server \<Rightarrow> server" where
  "server_notify_opened_failed e to i sv =
     (if \<not> cd_stopping (sv_data sv)
      then sv\<lparr>sv_world := map_option (notify_opened_failed e to i) (sv_world sv)\<rparr> else sv)"

subsection \<open>The end\<close>

definition invoker_finish_queue :: "world \<Rightarrow> world" where
  "invoker_finish_queue w = w\<lparr>wd_queue := queue_finish (wd_queue w)\<rparr>"

definition listener_finish :: "world \<Rightarrow> world" where
  "listener_finish w = w\<lparr>wd_man := (wd_man w)\<lparr>cm_queues := map_option threaded_finish (cm_queues (wd_man w))\<rparr>\<rparr>"

definition server_finish :: "server \<Rightarrow> server" where
  "server_finish sv = sv\<lparr>sv_data := connection_data_stop (sv_data sv),
     sv_acceptor := map_option acceptor_stop (sv_acceptor sv),
     sv_ssl_acceptor := map_option acceptor_stop (sv_ssl_acceptor sv),
     sv_message_queue := map_option message_queue_finish (sv_message_queue sv),
     sv_world := map_option (invoker_finish_queue \<circ> listener_finish) (sv_world sv)\<rparr>"

text \<open>\<open>stop\<close> up to where it may wait for the manager, and the rest, which is \<open>None\<close> while it waits.\<close>

definition server_stop_begin :: "server \<Rightarrow> server" where
  "server_stop_begin sv =
     (let sv1 = server_finish sv in
      if sv_world sv1 \<noteq> None \<and> sv_started sv1 \<and> \<not> sv_stopped sv1 then sv1\<lparr>sv_dispatched := True\<rparr> else sv1)"

definition server_stop_end :: "server \<Rightarrow> server option" where
  "server_stop_end sv =
     (if sv_dispatched sv \<and> (case sv_world sv of None \<Rightarrow> False | Some w \<Rightarrow> manager_wait w = None) then None
      else Some (sv\<lparr>sv_io_stopped := True\<rparr>))"

definition server_start_begin :: "server \<Rightarrow> unit result \<times> server" where
  "server_start_begin sv =
     (if sv_started sv then (Inl Assertion_failed, sv) else (Inr (), sv\<lparr>sv_started := True\<rparr>))"

text \<open>\<open>server::start\<close> up to where the service runs.\<close>

definition server_start :: "system \<Rightarrow> settings \<Rightarrow> server \<Rightarrow> unit result \<times> server" where
  "server_start sy s sv = and_then (server_init sy s sv) server_start_begin"

text \<open>\<open>wait_for_complete\<close> of the threaded invoker empties its queue; the answers go to the strand.\<close>

definition invoker_drain :: "world \<Rightarrow> world" where
  "invoker_drain w = (case queue_swap_data [] (queue_finish (wd_queue w)) of (_, q) \<Rightarrow> w\<lparr>wd_queue := q\<rparr>)"

text \<open>The end of \<open>start\<close>, when \<open>run_io\<close> has returned, which it does also after an exception.\<close>

definition server_start_end :: "env \<Rightarrow> nat list \<Rightarrow> server \<Rightarrow> server" where
  "server_start_end e order sv =
     (let sv1 = server_finish sv in
      sv1\<lparr>sv_world := map_option (manager_finish e order \<circ> invoker_drain) (sv_world sv1), sv_stopped := True\<rparr>)"

section \<open>Properties of the server\<close>

text \<open>What \<open>finish\<close> and the end of the invoker do to the world leaves the registry and the
  connections alone.\<close>

definition wound_up :: "world \<Rightarrow> world" where
  "wound_up w = invoker_drain (invoker_finish_queue (listener_finish w))"

lemma wound_up_simps [simp]:
  "wd_conns (wound_up w) = wd_conns w"
  "cm_finished (wd_man (wound_up w)) = cm_finished (wd_man w)"
  "cm_connections (wd_man (wound_up w)) = cm_connections (wd_man w)"
  "registered i (wd_man (wound_up w)) = registered i (wd_man w)"
  by (simp_all add: wound_up_def invoker_drain_def invoker_finish_queue_def listener_finish_def registered_def
      split: prod.splits)

lemma start_end_world:
  "sv_world (server_start_end e order sv) = map_option (\<lambda>w. manager_finish e order (wound_up w)) (sv_world sv)"
  by (cases "sv_world sv") (simp_all add: server_start_end_def server_finish_def wound_up_def Let_def)

lemma send_stopped:
  "cd_stopping (sv_data sv) \<Longrightarrow> server_send to m sv = sv"
  "cd_stopping (sv_data sv) \<Longrightarrow> server_send_id i m sv = sv"
  "cd_stopping (sv_data sv) \<Longrightarrow> server_notify_opened_failed e to i sv = sv"
  by (simp_all add: server_send_def server_send_id_def server_notify_opened_failed_def split: option.splits)

lemma stop_waits:
  assumes "sv_world sv = Some w" "sv_started sv" "\<not> sv_stopped sv" "\<not> cm_finished (wd_man w)"
  shows "server_stop_end (server_stop_begin sv) = None"
  using assms by (simp add: server_stop_end_def server_stop_begin_def server_finish_def manager_wait_def
      invoker_finish_queue_def listener_finish_def Let_def)

lemma stop_returns:
  assumes "sv_world sv = Some w" "cm_finished (wd_man w)"
  shows "server_stop_end (server_stop_begin sv) \<noteq> None"
  using assms by (simp add: server_stop_end_def server_stop_begin_def server_finish_def manager_wait_def
      invoker_finish_queue_def listener_finish_def Let_def)


definition sample_server :: server where
  "sample_server = server_new\<lparr>sv_world := Some sample_world, sv_acceptor := Some ((acceptor_init False)\<lparr>ac_open := True\<rparr>),
     sv_message_queue := Some message_queue_init, sv_started := True\<rparr>"


lemma and_then_ok: "and_then p f = (Inr u, sv) \<longleftrightarrow> (\<exists>v sv1. p = (Inr v, sv1) \<and> f sv1 = (Inr u, sv))"
  by (cases p) (auto simp: and_then_def split: sum.splits)

lemma try_get_ok: "try_get r sv0 f = (Inr u, sv) \<longleftrightarrow> (\<exists>v. r = Inr v \<and> f v = (Inr u, sv))"
  by (auto simp: try_get_def split: sum.splits)

lemma init_data_handler: "init_data ssl s b sv = (r, sv') \<Longrightarrow> sv_handler sv' = sv_handler sv"
  by (auto simp: init_data_def Let_def split: if_splits)

text \<open>A server initialised from the settings of the daemon never starts with a handler that asks for
  threads: whatever the rest of the configuration and of the system is, \<open>init\<close> throws.\<close>

theorem threaded_daemon_never_starts:
  assumes "\<And>n. xd_eval (xs_doc s) (show_nat n) = Inr None"
    "xml_value s (xml_path s ''/handler-threads'') = Inr (show_nat n)"
    "sv_handler sv = Some h" "rh_threaded h"
  shows "\<exists>err sv'. server_init sy (settings_of_xml s) sv = (Inl err, sv')"
proof (cases "server_init sy (settings_of_xml s) sv")
  case (Pair r sv')
  have no: "st_handler_threads (settings_of_xml s) = Inl (xiva_error_of ''nonexistent config param: '' (show_nat n))"
    using handler_threads_fail [OF assms(1,2)] by (simp add: settings_of_xml_def)
  have "r \<noteq> Inr u" for u
  proof
    assume "r = Inr u"
    with Pair have "server_init sy (settings_of_xml s) sv = (Inr u, sv')" by simp
    then obtain d b v sv3 u2 sv4 where
      "init_data (ssl_context_init (sy_tls sy)) (settings_of_xml s) b ((attach_logger sv)\<lparr>sv_data := d, sv_handler := Some h\<rparr>) = (Inr v, sv3)"
      "invoker_init_threads (settings_of_xml s) sv3 = (Inr u2, sv4)"
      by (simp add: server_init_def Let_def and_then_ok try_get_ok attach_logger_def assms(3) split: if_splits) blast
    with no assms(4) show False
      by (auto dest!: init_data_handler simp: invoker_init_threads_def try_get_ok)
  qed
  then show ?thesis using Pair by (cases r) auto
qed

definition threaded_sample :: response_handler where
  "threaded_sample = url_response_handler\<lparr>rh_threaded := True\<rparr>"

theorem threaded_daemon_never_starts_witness:
  "\<exists>err sv'. server_init \<lparr>sy_file = (\<lambda>_. None), sy_tls = (\<lambda>_. Inr ()), sy_bind = (\<lambda>_ _ _. (True, Inr ())),
     sy_first = Some 0, sy_ssl_first = Some 1\<rparr> (settings_of_xml sample_settings)
     (attach_response_handler threaded_sample server_new) = (Inl err, sv')"
proof -
  have one: "show_nat 1 = ''1''" by code_simp
  have "xml_value sample_settings (xml_path sample_settings ''/handler-threads'') = Inr (show_nat 1)"
    unfolding one by code_simp
  moreover have "sv_handler (attach_response_handler threaded_sample server_new) = Some threaded_sample"
    "rh_threaded threaded_sample"
    by (simp_all add: attach_response_handler_def threaded_sample_def)
  ultimately show ?thesis by (rule threaded_daemon_never_starts [OF sample_no_number])
qed

section \<open>The provider of standard input\<close>

lemma send_name_pending [simp]:
  "mq_by_name (message_queue_send_name to m q) = mq_by_name q @ (if mq_accepting q then [(to, m)] else [])"
  "mq_accepting (message_queue_send_name to m q) = mq_accepting q"
  by (simp_all add: message_queue_send_name_def push_message_name_def)

text \<open>Every line of standard input that names a user reaches the message queue, in the order of the
  lines and behind what is there, while the server is active; afterwards no line is taken.\<close>

theorem stdin_to_queue:
  "mq_by_name (process_stdin_messages message_queue_active (\<lambda>to cont. message_queue_send_name to (message_init cont)) lines q) =
   mq_by_name q @ (if mq_accepting q
     then List.map_filter (\<lambda>line. map_option (\<lambda>(to, cont). (to, message_init cont)) (stdin_line line)) lines else [])"
proof (induction lines arbitrary: q)
  case (Cons line lines)
  have "message_queue_active q = mq_accepting q" by (simp only: message_queue_active_def)
  then show ?case by (cases "stdin_line line") (auto simp: Cons.IH map_filter_simps)
qed (simp add: map_filter_simps)

end
