(* ===== verification/Delivery.thy ===== *)
theory Delivery
  imports Server
begin

text \<open>
  From \<open>server_impl::send\<close> to the connections: the message queue keeps the message, the strand runs
  the handler that was posted, and the manager sends it. This theory composes the message queue, the
  manager and the connections in the server.
\<close>

text \<open>The strand runs the oldest handler of the message queue on the manager; \<open>None\<close> when there is none.\<close>

definition strand_step :: "env \<Rightarrow> server \<Rightarrow> server option" where
  "strand_step e sv =
     (case (sv_message_queue sv, sv_world sv) of
        (Some q, Some w) \<Rightarrow>
          (case mq_posted q of
             [] \<Rightarrow> None
           | Pop_by_name # js \<Rightarrow>
               (case pop_by_name (send_by_name e) (q\<lparr>mq_posted := js\<rparr>) w of
                  (q', w') \<Rightarrow> Some (sv\<lparr>sv_message_queue := Some q', sv_world := Some w'\<rparr>))
           | Pop_by_id # js \<Rightarrow>
               (case pop_by_id (send_by_id e) (q\<lparr>mq_posted := js\<rparr>) w of
                  (q', w') \<Rightarrow> Some (sv\<lparr>sv_message_queue := Some q', sv_world := Some w'\<rparr>)))
      | _ \<Rightarrow> None)"

definition send_all :: "(string \<times> message) list \<Rightarrow> server \<Rightarrow> server" where
  "send_all ms sv = fold (\<lambda>(to, m). server_send to m) ms sv"

text \<open>The reference: the manager sends the messages one after the other, and none of it throws.\<close>

fun direct :: "env \<Rightarrow> (string \<times> message) list \<Rightarrow> world \<Rightarrow> world option" where
  "direct e [] w = Some w"
| "direct e ((to, m) # ms) w =
     (case send_by_name e to m w of (Inl _, _) \<Rightarrow> None | (Inr _, w') \<Rightarrow> direct e ms w')"

lemma deliver_direct: "direct e ms w = Some w' \<Longrightarrow> deliver_loop (send_by_name e) ms w = (Inr (), w')"
  by (induction ms arbitrary: w) (auto split: prod.splits sum.splits)

lemma send_all_queue:
  assumes "sv_message_queue sv = Some q" "mq_accepting q" "\<not> cd_stopping (sv_data sv)"
  shows "send_all ms sv = sv\<lparr>sv_message_queue := Some (q\<lparr>mq_by_name := mq_by_name q @ ms,
    mq_posted := mq_posted q @ replicate (length ms) Pop_by_name\<rparr>)\<rparr>"
  using assms
proof (induction ms arbitrary: sv q)
  case (Cons p ms)
  obtain to m where p: "p = (to, m)" by force
  let ?q = "message_queue_send_name to m q"
  have q: "?q = q\<lparr>mq_by_name := mq_by_name q @ [(to, m)], mq_posted := mq_posted q @ [Pop_by_name]\<rparr>"
    using Cons.prems(2) by (simp add: message_queue_send_name_def push_message_name_def)
  have "send_all (p # ms) sv = send_all ms (sv\<lparr>sv_message_queue := Some ?q\<rparr>)"
    using Cons.prems by (simp add: send_all_def p server_send_def)
  also have "\<dots> = sv\<lparr>sv_message_queue := Some (?q\<lparr>mq_by_name := mq_by_name ?q @ ms,
      mq_posted := mq_posted ?q @ replicate (length ms) Pop_by_name\<rparr>)\<rparr>"
    using Cons.IH [of "sv\<lparr>sv_message_queue := Some ?q\<rparr>" ?q] Cons.prems q by simp
  finally show ?case by (simp add: q p)
qed (simp add: send_all_def)

lemma idle_steps:
  assumes "sv_message_queue sv = Some q" "sv_world sv = Some w" "mq_by_name q = []" "mq_posted q = Pop_by_name # js"
  shows "strand_step e sv = Some (sv\<lparr>sv_message_queue := Some (q\<lparr>mq_posted := js\<rparr>)\<rparr>)"
  using assms by (simp add: strand_step_def pop_by_name_def take_by_name_def)



end
