(* ===== verification/Enumerations.thy ===== *)
theory Enumerations
  imports Settings Channels "HOL-Library.While_Combinator"
begin

text \<open>
  Enumerations (\<open>include/xiva/enumeration.hpp\<close>) and the loop in which every caller reads one to its
  end. The locale states what the loop expects of an enumeration; it is interpreted on the
  enumerations of the statistics (\<open>library/channels_stat_impl.cpp\<close>), of a request
  (\<open>library/request_impl.cpp\<close>) and of the settings of the daemon (\<open>daemon/xml_enumeration.hpp\<close>). The
  one for Python (\<open>python/python_enumeration.hpp\<close>) does not keep the contract.
\<close>

section \<open>The loop\<close>

text \<open>\<open>while (!en->empty()) result.append(en->next())\<close>, which an exception ends. \<open>None\<close> means that the
  loop does not end.\<close>

definition read_one :: "('e \<Rightarrow> 'a result \<times> 'e) \<Rightarrow> 'e \<times> 'a list result \<Rightarrow> 'e \<times> 'a list result" where
  "read_one nxt st = (case st of (en, acc) \<Rightarrow>
     (case nxt en of (r, en') \<Rightarrow> (en', bind_result acc (\<lambda>xs. bind_result r (\<lambda>x. Inr (xs @ [x]))))))"

definition read_all :: "('e \<Rightarrow> bool) \<Rightarrow> ('e \<Rightarrow> 'a result \<times> 'e) \<Rightarrow> 'e \<Rightarrow> 'a list result option" where
  "read_all is_empty nxt en = map_option snd
     (while_option (\<lambda>(en, acc). \<not> isl acc \<and> \<not> is_empty en) (read_one nxt) (en, Inr []))"

text \<open>The values of a list of results, or the first exception.\<close>

fun sequence_results :: "'a result list \<Rightarrow> 'a list result" where
  "sequence_results [] = Inr []"
| "sequence_results (r # rs) = bind_result r (\<lambda>x. bind_result (sequence_results rs) (\<lambda>xs. Inr (x # xs)))"

lemma sequence_values [simp]: "sequence_results (map Inr xs) = Inr xs"
  by (induction xs) (simp_all add: bind_result_def)

locale enumeration =
  fixes is_empty :: "'e \<Rightarrow> bool"
    and nxt :: "'e \<Rightarrow> 'a result \<times> 'e"
    and rest :: "'e \<Rightarrow> 'a result list"
    and valid :: "'e \<Rightarrow> bool"
  assumes empty_iff: "valid en \<Longrightarrow> is_empty en \<longleftrightarrow> rest en = []"
    and nxt_rest: "valid en \<Longrightarrow> \<not> is_empty en \<Longrightarrow> fst (nxt en) # rest (snd (nxt en)) = rest en"
    and nxt_valid: "valid en \<Longrightarrow> \<not> is_empty en \<Longrightarrow> valid (snd (nxt en))"
begin

lemma read_from:
  "valid en \<Longrightarrow> \<exists>en'. while_option (\<lambda>(en, acc). \<not> isl acc \<and> \<not> is_empty en) (read_one nxt) (en, Inr xs) =
     Some (en', bind_result (sequence_results (rest en)) (\<lambda>ys. Inr (xs @ ys)))"
proof (induction "rest en" arbitrary: en xs)
  case Nil
  then show ?case
    using empty_iff [OF Nil.prems] by (subst while_option_unfold) (simp add: bind_result_def)
next
  case (Cons r rs)
  then have "\<not> is_empty en" using empty_iff [OF Cons.prems] by auto
  note valid' = nxt_valid [OF Cons.prems this]
  from nxt_rest [OF Cons.prems \<open>\<not> is_empty en\<close>] Cons.hyps(2) have n: "fst (nxt en) = r" "rest (snd (nxt en)) = rs"
    by (metis list.inject)+
  then have step: "read_one nxt (en, Inr xs) = (snd (nxt en), bind_result r (\<lambda>x. Inr (xs @ [x])))"
    by (cases "nxt en") (simp add: read_one_def bind_result_def)
  show ?case
  proof (cases r)
    case (Inl e)
    with \<open>\<not> is_empty en\<close> step Cons.hyps(2) show ?thesis
      by (subst while_option_unfold, simp add: bind_result_def)
        (subst while_option_unfold, simp add: bind_result_def flip: Cons.hyps(2))
  next
    case (Inr x)
    from Cons.hyps(1) [OF n(2) [symmetric] valid', of "xs @ [x]"] n(2) \<open>\<not> is_empty en\<close> step Inr show ?thesis
      by (subst while_option_unfold)
        (auto simp: bind_result_def simp flip: Cons.hyps(2) split: sum.splits)
  qed
qed

lemma read_all_rest: "valid en \<Longrightarrow> read_all is_empty nxt en = Some (sequence_results (rest en))"
  using read_from [of en "[]"]
  by (cases "sequence_results (rest en)") (auto simp: read_all_def bind_result_def)

end

section \<open>The enumerations of the library\<close>

text \<open>The enumeration of the statistics owns the list that is left; the one of a request stands at a
  position of the map, which is the same to its caller.\<close>

definition list_next :: "string list \<Rightarrow> string result \<times> string list" where
  "list_next en = (case en of [] \<Rightarrow> (Inl Assertion_failed, en) | v # vs \<Rightarrow> (Inr v, vs))"

definition values_next :: "string list \<Rightarrow> string result \<times> string list" where
  "values_next en = (case enumeration_next en of Inl e \<Rightarrow> (Inl e, en) | Inr (v, vs) \<Rightarrow> (Inr v, vs))"

definition xml_rest :: "variables \<Rightarrow> xml_enumeration \<Rightarrow> string result list" where
  "xml_rest vars en = (case xe_nodes en of None \<Rightarrow> [] | Some ns \<Rightarrow>
     map (\<lambda>t. case t of None \<Rightarrow> Inl Undefined_behaviour | Some v \<Rightarrow> substitute v vars) (drop (xe_count en) ns))"

interpretation stat_enum: enumeration enumeration_empty list_next "map Inr" "\<lambda>_. True"
  by unfold_locales (auto simp: enumeration_empty_def list_next_def neq_Nil_conv)

interpretation request_enum: enumeration enumeration_empty values_next "map Inr" "\<lambda>_. True"
  by unfold_locales (auto simp: enumeration_empty_def values_next_def enumeration_next_def neq_Nil_conv)

interpretation xml_enum: enumeration xml_enumeration_empty "xml_enumeration_next vars" "xml_rest vars"
    "\<lambda>en. case xe_nodes en of None \<Rightarrow> True | Some ns \<Rightarrow> xe_count en \<le> length ns"
  by unfold_locales (auto simp: xml_enumeration_empty_def xml_enumeration_next_def xml_rest_def
      Cons_nth_drop_Suc [symmetric] split: option.splits)

section \<open>The enumeration of Python\<close>

text \<open>\<open>next\<close> answers a default value and does not move on.\<close>

record python_enumeration =
  pe_tuple :: "string list"
  pe_number :: nat

definition python_enumeration_new :: "string list \<Rightarrow> python_enumeration" where
  "python_enumeration_new tuple = \<lparr>pe_tuple = tuple, pe_number = 0\<rparr>"

definition python_enumeration_next :: "python_enumeration \<Rightarrow> string result \<times> python_enumeration" where
  "python_enumeration_next en = (Inr [], en)"

definition python_enumeration_empty :: "python_enumeration \<Rightarrow> bool" where
  "python_enumeration_empty en \<longleftrightarrow> pe_number en = length (pe_tuple en)"

lemma python_never_ends:
  assumes "\<not> python_enumeration_empty en"
  shows "read_all python_enumeration_empty python_enumeration_next en = None"
proof -
  let ?b = "\<lambda>(en, acc). \<not> isl acc \<and> \<not> python_enumeration_empty en"
  have keeps: "read_one python_enumeration_next (en, acc) = (en, acc') \<and> \<not> isl acc'"
    if "\<not> isl acc" "acc' = bind_result acc (\<lambda>xs. Inr (xs @ [[]]))" for acc acc'
    using that by (cases acc) (simp_all add: read_one_def python_enumeration_next_def bind_result_def)
  have "?b st'" if "while_option ?b (read_one python_enumeration_next) (en, Inr []) = Some st'" for st'
  proof -
    have "case st' of (en', acc) \<Rightarrow> en' = en \<and> \<not> isl acc"
      by (rule while_option_rule [where P = "\<lambda>(en', acc). en' = en \<and> \<not> isl acc", OF _ that]) (use keeps in auto)
    with assms show ?thesis by auto
  qed
  with while_option_stop [of ?b "read_one python_enumeration_next" "(en, Inr [])"]
  have "while_option ?b (read_one python_enumeration_next) (en, Inr []) = None"
    by (metis (lifting) not_Some_eq)
  then show ?thesis by (simp add: read_all_def)
qed

text \<open>C24. The loop over an enumeration ends, with all its values in order or with the first exception,
  for the enumerations of the statistics, of a request and of the daemon's settings. Over
  the enumeration for Python it ends only when there is nothing in it.\<close>

theorem enumerations_end:
  "read_all enumeration_empty list_next vs = Some (Inr vs) \<and>
   read_all enumeration_empty values_next vs = Some (Inr vs) \<and>
   read_all xml_enumeration_empty (xml_enumeration_next vars) \<lparr>xe_nodes = nodes, xe_count = 0\<rparr> =
     Some (sequence_results (xml_rest vars \<lparr>xe_nodes = nodes, xe_count = 0\<rparr>)) \<and>
   (read_all python_enumeration_empty python_enumeration_next (python_enumeration_new tuple) = None \<longleftrightarrow> tuple \<noteq> [])"
proof -
  have "read_all xml_enumeration_empty (xml_enumeration_next vars) \<lparr>xe_nodes = nodes, xe_count = 0\<rparr> =
      Some (sequence_results (xml_rest vars \<lparr>xe_nodes = nodes, xe_count = 0\<rparr>))"
    by (rule xml_enum.read_all_rest) (simp split: option.split)
  moreover have "read_all python_enumeration_empty python_enumeration_next (python_enumeration_new tuple) = None \<longleftrightarrow> tuple \<noteq> []"
  proof (cases "tuple = []")
    case True
    then show ?thesis
      by (simp add: read_all_def python_enumeration_empty_def python_enumeration_new_def while_option_unfold)
  next
    case False
    then show ?thesis
      using python_never_ends [of "python_enumeration_new tuple"]
      by (simp add: python_enumeration_empty_def python_enumeration_new_def)
  qed
  ultimately show ?thesis
    using stat_enum.read_all_rest [of vs] request_enum.read_all_rest [of vs] by simp
qed

end
