(* ===== verification/Daemon.thy ===== *)
theory Daemon
  imports Server Enumerations
begin

text \<open>
  The daemon: loading modules (\<open>library/dynamic_loader.cpp\<close>) and the main function
  (\<open>daemon/main.cpp\<close>). A module attaches objects to the server whose code is in the module, so
  modules must stay loaded as long as the server exists.
\<close>

section \<open>Loading modules\<close>

text \<open>libltdl: whether a module can be opened, its function \<open>xiva_register_module\<close> if it has one, and
  the text of the last error. An opened module is known by a number.\<close>

record libltdl =
  lt_open :: "string \<Rightarrow> bool"
  lt_sym :: "string \<Rightarrow> (settings \<Rightarrow> server \<Rightarrow> unit result \<times> server) option"
  lt_error :: string

datatype loader_event = Opened nat | Closed nat | Server_destroyed

record loader =
  ld_handles :: "nat list"
  ld_log :: "loader_event list"

definition loader_new :: loader where
  "loader_new = \<lparr>ld_handles = [], ld_log = []\<rparr>"

definition ld_event :: "loader_event \<Rightarrow> loader \<Rightarrow> loader" where
  "ld_event ev ld = ld\<lparr>ld_log := ld_log ld @ [ev]\<rparr>"

text \<open>The handle belongs to a \<open>resource\<close> until the module is registered, so it is closed when
  the function is missing or throws.\<close>

definition load_module :: "libltdl \<Rightarrow> settings \<Rightarrow> string \<Rightarrow> loader \<times> server \<Rightarrow> unit result \<times> loader \<times> server" where
  "load_module lt s name st = (case st of (ld, sv) \<Rightarrow>
     if name = [] then (Inl (xiva_error_of ''cannot load empty module'' []), ld, sv)
     else if \<not> lt_open lt name then (Inl (xiva_error_of [] (lt_error lt)), ld, sv)
     else let h = length (ld_log ld); ld1 = ld_event (Opened h) ld in
       (case lt_sym lt name of
          None \<Rightarrow> (Inl (xiva_error_of ''cannot find xiva_register_module function in '' name), ld_event (Closed h) ld1, sv)
        | Some func \<Rightarrow> (case func s sv of
              (Inl e, sv1) \<Rightarrow> (Inl e, ld_event (Closed h) ld1, sv1)
            | (Inr _, sv1) \<Rightarrow> (Inr (), ld1\<lparr>ld_handles := ld_handles ld1 @ [h]\<rparr>, sv1))))"

text \<open>The loop of the main function over the names in the settings; reading a name may throw.\<close>

fun load_modules :: "libltdl \<Rightarrow> settings \<Rightarrow> string result list \<Rightarrow> loader \<times> server \<Rightarrow> unit result \<times> loader \<times> server" where
  "load_modules lt s [] st = (Inr (), st)"
| "load_modules lt s (name # names) st =
     (case name of
        Inl e \<Rightarrow> (Inl e, st)
      | Inr n \<Rightarrow> (case load_module lt s n st of
            (Inl e, st') \<Rightarrow> (Inl e, st')
          | (Inr _, st') \<Rightarrow> load_modules lt s names st'))"

definition loader_destroy :: "loader \<Rightarrow> loader" where
  "loader_destroy ld = ld\<lparr>ld_handles := [], ld_log := ld_log ld @ map Closed (ld_handles ld)\<rparr>"

section \<open>The main function\<close>

text \<open>The exit code and what happened to the modules. \<open>exit\<close> in the settings ends the program at once;
  otherwise the objects are destroyed in the reverse order: the server, then the loader. \<open>names\<close> is
  the enumeration of the modules; \<open>run\<close> is what the running server comes to, when it has started.\<close>

definition daemon_main :: "libltdl \<Rightarrow> system \<Rightarrow> start_up result \<Rightarrow> nat \<times> loader_event list" where
  "daemon_main lt sy config =
     (case config of
        Inl e \<Rightarrow> (1, ld_log (loader_destroy loader_new))
      | Inr (Usage code) \<Rightarrow> (code, [])
      | Inr (Dumped _) \<Rightarrow> (0, [])
      | Inr (Configured xs) \<Rightarrow>
          (case xml_enumeration_init xs ''/xiva/modules/module'' of
             Inl e \<Rightarrow> (1, ld_log (loader_destroy (ld_event Server_destroyed loader_new)))
           | Inr en \<Rightarrow>
               (case load_modules lt (settings_of_xml xs) (xml_rest (xs_vars xs) en) (loader_new, server_new) of
                  (Inl e, ld, sv) \<Rightarrow> (1, ld_log (loader_destroy (ld_event Server_destroyed ld)))
                | (Inr _, ld, sv) \<Rightarrow>
                    (case server_start sy (settings_of_xml xs) sv of (r, _) \<Rightarrow>
                      (if isl r then 1 else 0, ld_log (loader_destroy (ld_event Server_destroyed ld)))))))"

section \<open>Modules outlive the server\<close>

definition opened :: "loader_event list \<Rightarrow> nat list" where
  "opened log = List.map_filter (\<lambda>ev. case ev of Opened h \<Rightarrow> Some h | _ \<Rightarrow> None) log"

definition closed :: "loader_event list \<Rightarrow> nat list" where
  "closed log = List.map_filter (\<lambda>ev. case ev of Closed h \<Rightarrow> Some h | _ \<Rightarrow> None) log"

lemma log_simps [simp]:
  "opened [] = []" "opened (Opened h # l) = h # opened l" "opened (Closed h # l) = opened l" "opened (Server_destroyed # l) = opened l"
  "closed [] = []" "closed (Opened h # l) = closed l" "closed (Closed h # l) = h # closed l" "closed (Server_destroyed # l) = closed l"
  "opened (l @ m) = opened l @ opened m" "closed (l @ m) = closed l @ closed m"
  "opened (map Closed hs) = []" "closed (map Closed hs) = hs"
  by (simp_all add: opened_def closed_def List.map_filter_def comp_def)

definition loader_ok :: "loader \<Rightarrow> bool" where
  "loader_ok ld \<longleftrightarrow> Server_destroyed \<notin> set (ld_log ld) \<and> distinct (opened (ld_log ld)) \<and>
     (\<forall>h\<in>set (opened (ld_log ld)). h < length (ld_log ld)) \<and>
     mset (opened (ld_log ld)) = mset (closed (ld_log ld)) + mset (ld_handles ld)"

lemma load_module_ok:
  "loader_ok ld \<Longrightarrow> load_module lt s name (ld, sv) = (r, ld', sv') \<Longrightarrow> loader_ok ld'"
  by (auto simp: load_module_def ld_event_def loader_ok_def Let_def split: if_splits option.splits prod.splits sum.splits)
    fastforce+

lemma load_modules_ok:
  "loader_ok ld \<Longrightarrow> load_modules lt s names (ld, sv) = (r, ld', sv') \<Longrightarrow> loader_ok ld'"
proof (induction names arbitrary: ld sv)
  case (Cons name names)
  then show ?case
    by (cases name) (auto split: prod.splits sum.splits dest: load_module_ok)
qed simp

text \<open>C26. Whatever happens, every module that was opened is closed exactly once, and what is closed behind the
  destruction of the server are the modules that have been registered.\<close>

theorem modules_outlive_server:
  assumes "daemon_main lt sy (Inr (Configured xs)) = (code, log)"
  shows "\<exists>before registered. log = before @ Server_destroyed # map Closed registered \<and> Server_destroyed \<notin> set before \<and>
    distinct (opened log) \<and> mset (opened log) = mset (closed log) \<and> mset (opened before) = mset (closed before) + mset registered"
proof -
  have "\<exists>ld. loader_ok ld \<and> log = ld_log (loader_destroy (ld_event Server_destroyed ld))"
  proof (cases "xml_enumeration_init xs ''/xiva/modules/module''")
    case (Inl e)
    then show ?thesis
      using assms by (intro exI [of _ loader_new]) (simp add: daemon_main_def loader_ok_def loader_new_def)
  next
    case (Inr en)
    obtain r ld sv where l: "load_modules lt (settings_of_xml xs) (xml_rest (xs_vars xs) en) (loader_new, server_new) = (r, ld, sv)"
      using prod_cases3 by blast
    have "loader_ok ld" by (rule load_modules_ok [OF _ l]) (simp add: loader_ok_def loader_new_def)
    moreover have "log = ld_log (loader_destroy (ld_event Server_destroyed ld))"
      using assms Inr l by (cases r) (auto simp: daemon_main_def split: prod.splits)
    ultimately show ?thesis by blast
  qed
  then obtain ld where ld: "loader_ok ld" "log = ld_log (loader_destroy (ld_event Server_destroyed ld))" by blast
  then show ?thesis
    by (intro exI [of _ "ld_log ld"] exI [of _ "ld_handles ld"]) (simp add: loader_ok_def loader_destroy_def ld_event_def)
qed

definition sample_lt :: libltdl where
  "sample_lt = \<lparr>lt_open = (\<lambda>_. True), lt_sym = (\<lambda>name. if name = ''a'' then Some (\<lambda>s sv. (Inr (), sv)) else None),
     lt_error = []\<rparr>"

definition sample_modules :: xml_settings where
  "sample_modules = sample_settings\<lparr>xs_doc := sample_doc\<lparr>xd_eval :=
     (\<lambda>name. Inr (if name = ''/xiva/modules/module'' then Some [Some ''a'', Some ''b''] else None))\<rparr>\<rparr>"

theorem modules_outlive_server_witness:
  "daemon_main sample_lt \<lparr>sy_file = (\<lambda>_. None), sy_tls = (\<lambda>_. Inr ()), sy_bind = (\<lambda>_ _ _. (True, Inr ())),
      sy_first = Some 0, sy_ssl_first = Some 1\<rparr> (Inr (Configured sample_modules)) =
     (1, [Opened 0, Opened 1, Closed 1, Server_destroyed, Closed 0]) \<and>
   (\<exists>before registered. [Opened 0, Opened 1, Closed 1, Server_destroyed, Closed 0] =
      before @ Server_destroyed # map Closed registered)"
proof -
  have "daemon_main sample_lt \<lparr>sy_file = (\<lambda>_. None), sy_tls = (\<lambda>_. Inr ()), sy_bind = (\<lambda>_ _ _. (True, Inr ())),
      sy_first = Some 0, sy_ssl_first = Some 1\<rparr> (Inr (Configured sample_modules)) =
     (1, [Opened 0, Opened 1, Closed 1, Server_destroyed, Closed 0])"
    by (simp add: daemon_main_def sample_modules_def sample_settings_def sample_doc_def xml_enumeration_init_def
        bind_result_def xml_rest_def substitute.simps [of "''a''"] substitute.simps [of "''b''"] load_module_def
        sample_lt_def loader_new_def ld_event_def loader_destroy_def Let_def)
  from this modules_outlive_server [OF this] show ?thesis by blast
qed

end
