(* ===== verification/Python_Adapters.thy ===== *)
theory Python_Adapters
  imports Server Enumerations
begin

text \<open>
  The objects of Python as the library sees them, and its objects as Python sees them: the settings
  (\<open>python/python_settings.cpp\<close>), the response handler, listener, message filter, formatter, its
  creator and the ping formatter (\<open>python/python_handler.cpp\<close> and its neighbours), the request and
  the response (\<open>python/python_request.cpp\<close>, \<open>python/python_response.cpp\<close>).
\<close>

section \<open>Settings\<close>

text \<open>A value of Python, as far as the library looks into it.\<close>

datatype py_value = Py_none | Py_int int | Py_str string | Py_other

definition extract_string :: "py_value \<Rightarrow> string option" where
  "extract_string v = (case v of Py_str s \<Rightarrow> Some s | _ \<Rightarrow> None)"

definition extract_unsigned :: "nat \<Rightarrow> py_value \<Rightarrow> nat option" where
  "extract_unsigned mx v = (case v of Py_int i \<Rightarrow> if 0 \<le> i \<and> i \<le> int mx then Some (nat i) else None | _ \<Rightarrow> None)"

text \<open>The object with the settings: whether there is one, whether the lock of the interpreter can be
  had, what calling the attribute of a name returns (\<open>None\<close> when there is no such function or it
  raises), and what its method \<open>value\<close> returns for a name (\<open>None\<close> when it raises).\<close>

record py_settings =
  ps_given :: bool
  ps_locked :: bool
  ps_call :: "string \<Rightarrow> py_value option"
  ps_value :: "string \<Rightarrow> py_value option"

definition py_get :: "(py_value \<Rightarrow> 'a option) \<Rightarrow> py_settings \<Rightarrow> string \<Rightarrow> 'a \<Rightarrow> 'a" where
  "py_get extract s name defval =
     (if \<not> ps_given s then defval
      else if \<not> ps_locked s then defval
      else case Option.bind (ps_call s name) extract of
          Some r \<Rightarrow> r
        | None \<Rightarrow> (case ps_value s name of
              None \<Rightarrow> defval
            | Some Py_none \<Rightarrow> defval
            | Some v \<Rightarrow> (case extract v of Some r \<Rightarrow> r | None \<Rightarrow> defval)))"

definition py_address :: "py_settings \<Rightarrow> string" where
  "py_address s = py_get extract_string s ''address'' ''127.0.0.1''"

definition py_port :: "py_settings \<Rightarrow> nat" where
  "py_port s = py_get (extract_unsigned max_ushort) s ''port'' 8080"

definition py_backlog :: "py_settings \<Rightarrow> nat" where
  "py_backlog s = py_get (extract_unsigned max_ushort) s ''backlog'' 1024"

definition py_ssl_address :: "py_settings \<Rightarrow> string" where
  "py_ssl_address s = py_get extract_string s ''ssl_address'' ''127.0.0.1''"

definition py_ssl_port :: "py_settings \<Rightarrow> nat" where
  "py_ssl_port s = py_get (extract_unsigned max_ushort) s ''ssl_port'' 0"

definition py_ssl_backlog :: "py_settings \<Rightarrow> nat" where
  "py_ssl_backlog s = py_get (extract_unsigned max_ushort) s ''ssl_backlog'' 1024"

definition py_ssl_cert_file_name :: "py_settings \<Rightarrow> string" where
  "py_ssl_cert_file_name s = py_get extract_string s ''ssl_cert_file_name'' []"

definition py_ssl_cacert_file_name :: "py_settings \<Rightarrow> string" where
  "py_ssl_cacert_file_name s = py_get extract_string s ''ssl_cacert_file_name'' []"

definition py_read_timeout :: "py_settings \<Rightarrow> nat" where
  "py_read_timeout s = py_get (extract_unsigned max_uint) s ''read_timeout'' 5000"

definition py_write_timeout :: "py_settings \<Rightarrow> nat" where
  "py_write_timeout s = py_get (extract_unsigned max_uint) s ''write_timeout'' 5000"

definition py_inactive_timeout :: "py_settings \<Rightarrow> nat" where
  "py_inactive_timeout s = py_get (extract_unsigned max_uint) s ''inactive_timeout'' 60000"

definition py_ping_interval :: "py_settings \<Rightarrow> nat" where
  "py_ping_interval s = py_get (extract_unsigned max_uint) s ''ping_interval'' 10000"

definition py_handler_threads :: "py_settings \<Rightarrow> nat" where
  "py_handler_threads s = py_get (extract_unsigned max_ushort) s ''handler_threads'' 5"

definition py_listener_threads :: "py_settings \<Rightarrow> nat" where
  "py_listener_threads s = py_get (extract_unsigned max_ushort) s ''listener_threads'' 5"

definition py_policy_file_name :: "py_settings \<Rightarrow> string" where
  "py_policy_file_name s = py_get extract_string s ''policy_file_name'' []"

definition py_value :: "py_settings \<Rightarrow> string \<Rightarrow> string" where
  "py_value s name =
     (if ps_given s \<and> ps_locked s
      then (case Option.bind (ps_value s name) extract_string of Some v \<Rightarrow> v | None \<Rightarrow> [])
      else [])"

text \<open>The tuple that the method \<open>value_list\<close> returns, \<open>None\<close> when it raises.\<close>

definition py_value_list :: "py_settings \<Rightarrow> string list option \<Rightarrow> python_enumeration" where
  "py_value_list s tuple =
     (if ps_given s \<and> ps_locked s
      then (case tuple of Some t \<Rightarrow> python_enumeration_new t | None \<Rightarrow> python_enumeration_new [])
      else python_enumeration_new [])"

definition settings_of_python :: "py_settings \<Rightarrow> settings" where
  "settings_of_python s = \<lparr>st_address = Inr (py_address s), st_port = Inr (py_port s),
     st_backlog = Inr (py_backlog s), st_ssl_address = Inr (py_ssl_address s),
     st_ssl_port = Inr (py_ssl_port s), st_ssl_backlog = Inr (py_ssl_backlog s),
     st_ssl_cert_file_name = Inr (py_ssl_cert_file_name s), st_ssl_cacert_file_name = Inr (py_ssl_cacert_file_name s),
     st_read_timeout = Inr (py_read_timeout s), st_write_timeout = Inr (py_write_timeout s),
     st_inactive_timeout = Inr (py_inactive_timeout s), st_ping_interval = Inr (py_ping_interval s),
     st_handler_threads = Inr (py_handler_threads s), st_listener_threads = Inr (py_listener_threads s),
     st_policy_file_name = Inr (py_policy_file_name s)\<rparr>"

lemmas py_settings_defs = py_address_def py_port_def py_backlog_def py_ssl_address_def py_ssl_port_def
  py_ssl_backlog_def py_read_timeout_def py_write_timeout_def py_inactive_timeout_def py_ping_interval_def
  py_handler_threads_def py_listener_threads_def py_policy_file_name_def py_ssl_cert_file_name_def
  py_ssl_cacert_file_name_def

lemma py_get_cases: "py_get extract s name d = d \<or> (\<exists>v. extract v = Some (py_get extract s name d))"
  unfolding py_get_def by (cases "ps_call s name") (auto split: option.split py_value.split)

lemma extract_unsigned_le: "extract_unsigned mx v = Some n \<Longrightarrow> n \<le> mx"
  by (auto simp: extract_unsigned_def split: py_value.splits if_splits)

lemma py_get_unsigned: "d \<le> mx \<Longrightarrow> py_get (extract_unsigned mx) s name d \<le> mx"
  using py_get_cases [of "extract_unsigned mx" s name d] extract_unsigned_le by metis

section \<open>Objects of the application\<close>

text \<open>A call into Python: the lock of the interpreter first, then the method. A
  failed lock throws; what Python raises is no \<open>std::exception\<close> and becomes the given text; \<open>None\<close>
  is the outcome of a method that raises.\<close>

definition call_method :: "bool \<Rightarrow> string \<Rightarrow> 'a option \<Rightarrow> 'a result" where
  "call_method locked unknown outcome =
     (if \<not> locked then Inl (Runtime_error ''Can not acquire python interpreter lock'')
      else case outcome of Some v \<Rightarrow> Inr v | None \<Rightarrow> Inl (Runtime_error unknown))"

text \<open>What a handler written in Python does with the response: calls of \<open>python_response\<close>.\<close>

datatype response_call =
    Rc_content_type string
  | Rc_single_message bool
  | Rc_content string
  | Rc_formatter_id string
  | Rc_formatter_by_channel string string string string
  | Rc_set_header string string

definition python_response :: "nat \<Rightarrow> response_call \<Rightarrow> response_impl \<Rightarrow> response_impl" where
  "python_response a c rs = (case c of
     Rc_content_type type \<Rightarrow> content_type type rs
   | Rc_single_message value \<Rightarrow> single_message value rs
   | Rc_content body \<Rightarrow> content_copy a body rs
   | Rc_formatter_id fmt_id \<Rightarrow> formatter_id fmt_id rs
   | Rc_formatter_by_channel name key data fmt_id \<Rightarrow>
       formatter_by_channel \<lparr>ch_name = name, ch_key = key, ch_data = data\<rparr> fmt_id rs
   | Rc_set_header name value \<Rightarrow> set_header name value rs)"

record py_handler =
  ph_locked :: bool
  ph_has_enough_data :: "request_impl \<Rightarrow> bool option"
  ph_receiver :: "request_impl \<Rightarrow> string option"
  ph_handle_response :: "request_impl \<Rightarrow> response_call list option"

definition python_handler :: "nat \<Rightarrow> py_handler \<Rightarrow> response_handler" where
  "python_handler a h = \<lparr>rh_threaded = True,
     rh_has_enough_data = (\<lambda>req. call_method (ph_locked h)
       ''caught unknown exception in python_handler::has_enough_data'' (ph_has_enough_data h req)),
     rh_receiver = (\<lambda>req. call_method (ph_locked h)
       ''caught unknown exception in python_handler::receiver'' (ph_receiver h req)),
     rh_handle_response = (\<lambda>req resp. bind_result (call_method (ph_locked h)
       ''caught unknown exception in handle_response'' (ph_handle_response h req))
       (\<lambda>calls. Inr (fold (python_response a) calls resp)))\<rparr>"

definition listener_unknown_error :: "string \<Rightarrow> string \<Rightarrow> nat \<Rightarrow> string" where
  "listener_unknown_error method to i =
     ''caught unknown exception in python_listener::'' @ method @ '' for '' @ to @
     (if i \<noteq> 0 then '' '' @ show_nat i else [])"

record py_listener =
  py_locked :: bool
  py_opened :: "string \<Rightarrow> nat \<Rightarrow> unit option"
  py_closed :: "string \<Rightarrow> nat \<Rightarrow> unit option"
  py_disconnected :: "string \<Rightarrow> unit option"

definition python_listener :: "py_listener \<Rightarrow> user_listener" where
  "python_listener l = \<lparr>
     ul_opened = (\<lambda>to i. call_method (py_locked l) (listener_unknown_error ''connection_opened'' to i) (py_opened l to i)),
     ul_closed = (\<lambda>to i. call_method (py_locked l) (listener_unknown_error ''connection_closed'' to i) (py_closed l to i)),
     ul_disconnected = (\<lambda>to. call_method (py_locked l) (listener_unknown_error ''disconnected'' to 0) (py_disconnected l to))\<rparr>"

definition python_message_filter :: "bool \<Rightarrow> (string \<Rightarrow> string \<Rightarrow> string \<Rightarrow> string \<Rightarrow> bool option) \<Rightarrow> message_filter" where
  "python_message_filter locked f msg channel_data =
     (let ch = msg_channel_info msg in
      call_method locked (''caught unknown exception in python_message_filter::allow_message: '' @
          ch_name ch @ ''_'' @ ch_key ch @ '' '' @ ch_data ch @ '' '' @ channel_data)
        (f (ch_name ch) (ch_key ch) (ch_data ch) channel_data))"

definition python_formatter :: "bool \<Rightarrow> (string \<Rightarrow> string option) \<Rightarrow> formatter" where
  "python_formatter locked f content =
     call_method locked ''caught unknown exception in python_formatter::wrap_message'' (f content)"

definition python_formatter_creator :: "bool \<Rightarrow> (request_impl \<Rightarrow> (string \<Rightarrow> string option) option) \<Rightarrow> formatter_creator" where
  "python_formatter_creator locked create req =
     bind_result (call_method locked ''caught unknown exception in python_formatter_creator::create'' (create req))
       (\<lambda>f. Inr (Some (python_formatter locked f)))"

definition python_ping_formatter :: "bool \<Rightarrow> string option \<Rightarrow> string option \<Rightarrow> string result \<times> string result" where
  "python_ping_formatter locked msg single =
     (call_method locked ''caught unknown exception in python_formatter::message'' msg,
      call_method locked ''caught unknown exception in python_formatter::message_for_single'' single)"

section \<open>The request\<close>

text \<open>The accessors hand on what the request answers; the values of a parameter are read into a
  list by the loop over their enumeration. \<open>None\<close> would be a loop without end.\<close>

datatype request_call =
    Qc_uri
  | Qc_param string
  | Qc_has_param string
  | Qc_params string
  | Qc_header string
  | Qc_has_header string
  | Qc_cookie string
  | Qc_has_cookie string
  | Qc_is_websocket

datatype py_answer = Answer_str string | Answer_bool bool | Answer_list "string list"

definition python_request_params :: "request_impl \<Rightarrow> string \<Rightarrow> string list result option" where
  "python_request_params req name = read_all enumeration_empty values_next (params req name)"

definition python_request :: "request_impl \<Rightarrow> request_call \<Rightarrow> py_answer result option" where
  "python_request req c = (case c of
     Qc_uri \<Rightarrow> Some (Inr (Answer_str (rq_uri req)))
   | Qc_param name \<Rightarrow> Some (Inr (Answer_str (param req name)))
   | Qc_has_param name \<Rightarrow> Some (Inr (Answer_bool (has_param req name)))
   | Qc_params name \<Rightarrow> map_option (\<lambda>r. bind_result r (\<lambda>vs. Inr (Answer_list vs))) (python_request_params req name)
   | Qc_header name \<Rightarrow> Some (Inr (Answer_str (header req name)))
   | Qc_has_header name \<Rightarrow> Some (Inr (Answer_bool (has_header req name)))
   | Qc_cookie name \<Rightarrow> Some (Inr (Answer_str (cookie req name)))
   | Qc_has_cookie name \<Rightarrow> Some (Inr (Answer_bool (has_cookie req name)))
   | Qc_is_websocket \<Rightarrow> Some (Inr (Answer_bool (rq_is_websocket req))))"

lemma python_request_params_all: "python_request_params req name = Some (Inr (params req name))"
  using request_enum.read_all_rest [of "params req name"] by (simp add: python_request_params_def)

lemma python_request_answers: "\<exists>a. python_request req c = Some (Inr a)"
  by (cases c) (simp_all add: python_request_def python_request_params_all bind_result_def)

section \<open>Settings that never fail\<close>


end
