(* ===== verification/Loggers.thy ===== *)
theory Loggers
  imports Settings Websocket
begin

text \<open>
  The loggers: the one that prints to the standard error, which the server attaches when it has no
  other (\<open>library/stdio_logger.cpp\<close>), and the one for the system log (\<open>stdext/syslog_logger.cpp\<close>).
  A line is given as the text that its format and arguments make. A line that is too long for the
  buffer is an exception, which the caller of the logger does not expect.
\<close>

section \<open>Errors of the system\<close>

text \<open>\<open>system_error::throw_unless\<close> throws the text of \<open>errno\<close>, which is the argument.\<close>

definition throw_unless :: "string \<Rightarrow> bool \<Rightarrow> unit result" where
  "throw_unless errno_text condition = (if condition then Inr () else Inl (xiva_error_of [] errno_text))"

section \<open>Printing to the standard error\<close>

datatype log_level = Log_info | Log_debug | Log_error

definition level_text :: "log_level \<Rightarrow> string" where
  "level_text l = (case l of Log_info \<Rightarrow> ''[INFO]'' | Log_debug \<Rightarrow> ''[DEBUG]'' | Log_error \<Rightarrow> ''[ERROR]'')"

definition log_buffer_size :: nat where
  "log_buffer_size = 1024"

text \<open>\<open>vsnprintf\<close> writes what fits and its end into the buffer less one byte, and returns the length of
  the whole text.\<close>

definition vsnprintf_log :: "string \<Rightarrow> string \<Rightarrow> string result" where
  "vsnprintf_log errno_text line =
     bind_result (throw_unless errno_text (length line < log_buffer_size))
       (\<lambda>_. Inr (take (log_buffer_size - 1 - 1) line))"

definition stdio_print_message :: "string \<Rightarrow> log_level \<Rightarrow> string \<Rightarrow> string result" where
  "stdio_print_message errno_text level line =
     bind_result (vsnprintf_log errno_text line)
       (\<lambda>buffer. Inr (level_text level @ '' '' @ buffer @ [CHR 0x0A]))"

section \<open>The system log\<close>

definition syslog_message :: "log_level \<Rightarrow> string \<Rightarrow> nat \<times> string" where
  "syslog_message level line = (case level of Log_info \<Rightarrow> 6 | Log_debug \<Rightarrow> 7 | Log_error \<Rightarrow> 3, line)"

section \<open>Lines of a connection\<close>

text \<open>What \<open>write_http_error\<close> and \<open>handle_exception\<close> of \<open>connection_impl\<close> log.\<close>

definition http_error_line :: "nat \<Rightarrow> nat \<Rightarrow> string \<Rightarrow> string \<Rightarrow> string" where
  "http_error_line code cid addr msg =
     ''http error '' @ show_nat code @ '' occured with connection['' @ show_nat cid @ ''] from '' @ addr @ '': '' @ msg"

definition exception_line :: "nat \<Rightarrow> string \<Rightarrow> string \<Rightarrow> string" where
  "exception_line cid addr msg =
     ''exception caught with connection['' @ show_nat cid @ ''] from '' @ addr @ '': '' @ msg"

section \<open>Properties\<close>

lemma stdio_print_message_outcome:
  "stdio_print_message errno_text level line =
     (if length line < 1024 then Inr (level_text level @ '' '' @ take 1022 line @ [CHR 0x0A])
      else Inl (xiva_error_of [] errno_text))"
  by (simp add: stdio_print_message_def vsnprintf_log_def throw_unless_def log_buffer_size_def bind_result_def)

lemma http_error_line_length: "length msg \<le> length (http_error_line code cid addr msg)"
  by (simp add: http_error_line_def)



end
