(* ===== verification/Interpreter.thy ===== *)
theory Interpreter
  imports Loggers Queues
begin

text \<open>
  How the threads of the server share the interpreter of Python (\<open>python/interpreter_lock.cpp\<close>):
  the thread of Python that runs the server gives the interpreter up, and the threads of the
  server take it one at a time, until it wants it back. Then the two users of the lock with
  threads of their own: the list of objects to be destroyed (\<open>python/cleanup_list.cpp\<close>) and the logger
  (\<open>python/python_logger.cpp\<close>).
\<close>

section \<open>The lock\<close>

text \<open>Who has the lock of the interpreter (the GIL): a thread of Python or a thread of the server.\<close>

datatype gil_owner = Pythread nat | Worker nat

text \<open>\<open>ip_thread_state\<close> says whether \<open>thread_state_\<close> is set. A failed assertion ends the program and
  is recorded.\<close>

record interpreter =
  ip_gil :: "gil_owner option"
  ip_thread_state :: bool
  ip_thread_lock_count :: int
  ip_failed :: bool

definition interpreter_lock_impl :: "nat \<Rightarrow> interpreter" where
  "interpreter_lock_impl p = \<lparr>ip_gil = Some (Pythread p), ip_thread_state = False,
     ip_thread_lock_count = -1, ip_failed = False\<rparr>"

definition ip_assert :: "bool \<Rightarrow> interpreter \<Rightarrow> interpreter" where
  "ip_assert b ip = (if b then ip else ip\<lparr>ip_failed := True\<rparr>)"

text \<open>\<open>PyEval_SaveThread\<close> gives the interpreter up, \<open>PyEval_RestoreThread\<close> waits until it is free.\<close>

definition save_thread :: "interpreter \<Rightarrow> interpreter" where
  "save_thread ip = ip\<lparr>ip_gil := None\<rparr>"

definition restore_thread :: "gil_owner \<Rightarrow> interpreter \<Rightarrow> interpreter option" where
  "restore_thread me ip = (if ip_gil ip = None then Some (ip\<lparr>ip_gil := Some me\<rparr>) else None)"

text \<open>The operations hold the mutex of the lock; \<open>None\<close> means that the thread waits.\<close>

definition lock_thread :: "interpreter \<Rightarrow> interpreter" where
  "lock_thread ip =
     (let ip1 = (save_thread (ip_assert (\<not> ip_thread_state ip) ip))\<lparr>ip_thread_state := True\<rparr>
      in (ip_assert (ip_thread_lock_count ip1 < 0) ip1)\<lparr>ip_thread_lock_count := 0\<rparr>)"

definition unlock_thread :: "nat \<Rightarrow> interpreter \<Rightarrow> interpreter option" where
  "unlock_thread p ip =
     (if ip_thread_lock_count ip > 0 then None
      else map_option (\<lambda>ip1. ip1\<lparr>ip_thread_lock_count := -1, ip_thread_state := False\<rparr>)
        (restore_thread (Pythread p) (ip_assert (ip_thread_state ip) ip)))"

definition lock :: "nat \<Rightarrow> interpreter \<Rightarrow> (bool \<times> interpreter) option" where
  "lock t ip =
     (if \<not> ip_thread_state ip then Some (False, ip)
      else if ip_thread_lock_count ip \<noteq> 0 then None
      else map_option (\<lambda>ip1. (True, ip1\<lparr>ip_thread_lock_count := ip_thread_lock_count ip1 + 1\<rparr>))
        (restore_thread (Worker t) ip))"

definition unlock :: "interpreter \<Rightarrow> interpreter" where
  "unlock ip =
     (let ip1 = save_thread (ip_assert (ip_thread_state ip) ip)
      in ip1\<lparr>ip_thread_lock_count := ip_thread_lock_count ip1 - 1\<rparr>)"

text \<open>The constructors and destructors: \<open>interpreter_lock\<close> throws where \<open>interpreter_try_lock\<close>
  remembers that it has not got the lock; \<open>interpreter_unlock\<close> gives the interpreter up inside.\<close>

definition interpreter_lock :: "nat \<Rightarrow> interpreter \<Rightarrow> (unit result \<times> interpreter) option" where
  "interpreter_lock t ip = map_option (\<lambda>(acquired, ip1).
     (if acquired then Inr () else Inl (Runtime_error ''Can not acquire python interpreter lock''), ip1)) (lock t ip)"

definition interpreter_try_unlock :: "bool \<Rightarrow> interpreter \<Rightarrow> interpreter" where
  "interpreter_try_unlock acquired ip = (if acquired then unlock ip else ip)"

section \<open>Threads at the lock\<close>

text \<open>A thread of the server is outside the lock, inside it, or inside but has given the interpreter
  up (\<open>interpreter_unlock\<close>). \<open>py_scope\<close> is the thread of Python that runs the server, inside
  \<open>interpreter_thread_lock\<close>. Threads of Python take turns at the interpreter by themselves.\<close>

datatype lock_status = Outside | Inside | Given_up

record py_world =
  py_ip :: interpreter
  py_scope :: "nat option"
  py_status :: "nat \<Rightarrow> lock_status"

datatype py_event =
    Switch_in nat
  | Switch_out nat
  | Enter nat
  | Leave nat
  | Lock nat
  | Unlock nat
  | Give_up nat
  | Take_back nat

inductive py_step :: "py_world \<Rightarrow> py_event \<Rightarrow> py_world \<Rightarrow> bool" where
  switch_in: "restore_thread (Pythread p) (py_ip w) = Some ip \<Longrightarrow> py_scope w \<noteq> Some p \<Longrightarrow>
    py_step w (Switch_in p) (w\<lparr>py_ip := ip\<rparr>)"
| switch_out: "ip_gil (py_ip w) = Some (Pythread p) \<Longrightarrow>
    py_step w (Switch_out p) (w\<lparr>py_ip := save_thread (py_ip w)\<rparr>)"
| enter: "ip_gil (py_ip w) = Some (Pythread p) \<Longrightarrow>
    py_step w (Enter p) (w\<lparr>py_ip := lock_thread (py_ip w), py_scope := Some p\<rparr>)"
| leave: "py_scope w = Some p \<Longrightarrow> unlock_thread p (py_ip w) = Some ip \<Longrightarrow>
    py_step w (Leave p) (w\<lparr>py_ip := ip, py_scope := None\<rparr>)"
| lock: "py_status w t = Outside \<Longrightarrow> lock t (py_ip w) = Some (acquired, ip) \<Longrightarrow>
    py_step w (Lock t) (w\<lparr>py_ip := ip, py_status := (py_status w)(t := if acquired then Inside else Outside)\<rparr>)"
| unlock: "py_status w t = Inside \<Longrightarrow>
    py_step w (Unlock t) (w\<lparr>py_ip := unlock (py_ip w), py_status := (py_status w)(t := Outside)\<rparr>)"
| give_up: "py_status w t = Inside \<Longrightarrow>
    py_step w (Give_up t) (w\<lparr>py_ip := save_thread (py_ip w), py_status := (py_status w)(t := Given_up)\<rparr>)"
| take_back: "py_status w t = Given_up \<Longrightarrow> restore_thread (Worker t) (py_ip w) = Some ip \<Longrightarrow>
    py_step w (Take_back t) (w\<lparr>py_ip := ip, py_status := (py_status w)(t := Inside)\<rparr>)"

definition py_init :: "nat \<Rightarrow> py_world" where
  "py_init p = \<lparr>py_ip = interpreter_lock_impl p, py_scope = None, py_status = (\<lambda>_. Outside)\<rparr>"

inductive py_reach :: "nat \<Rightarrow> py_world \<Rightarrow> bool" for p where
  py_reach_init: "py_reach p (py_init p)"
| py_reach_step: "py_reach p w \<Longrightarrow> py_step w ev w' \<Longrightarrow> py_reach p w'"

inductive_cases enter_cases: "py_step w (Enter p) w'"
inductive_cases leave_cases: "py_step w (Leave p) w'"
inductive_cases lock_cases: "py_step w (Lock t) w'"
inductive_simps leave_simps: "py_step w (Leave p) w'"
inductive_simps lock_simps: "py_step w (Lock t) w'"

lemmas lock_ops = lock_thread_def unlock_thread_def lock_def unlock_def save_thread_def restore_thread_def
  ip_assert_def Let_def

section \<open>One thread at a time\<close>

text \<open>The invariant, as long as no assertion has failed: at most one thread of the server is not
  outside, the count says whether there is one, and the interpreter is with it when it is inside.\<close>

definition one_inside :: "(nat \<times> bool) option \<Rightarrow> nat \<Rightarrow> lock_status" where
  "one_inside h = (case h of None \<Rightarrow> (\<lambda>_. Outside)
     | Some (t, given_up) \<Rightarrow> (\<lambda>_. Outside)(t := if given_up then Given_up else Inside))"

definition holds_lock :: "(nat \<times> bool) option \<Rightarrow> py_world \<Rightarrow> bool" where
  "holds_lock h w \<longleftrightarrow>
     (ip_thread_state (py_ip w) \<longleftrightarrow> py_scope w \<noteq> None) \<and>
     ip_thread_lock_count (py_ip w) = (if py_scope w = None then -1 else if h = None then 0 else 1) \<and>
     (py_scope w = None \<longrightarrow> h = None) \<and> py_status w = one_inside h \<and>
     (\<forall>t. ip_gil (py_ip w) = Some (Worker t) \<longleftrightarrow> h = Some (t, False)) \<and>
     (\<forall>p. py_scope w = Some p \<longrightarrow> ip_gil (py_ip w) \<noteq> Some (Pythread p))"

lemma one_inside_status:
  "one_inside h t = Inside \<longleftrightarrow> h = Some (t, False)"
  "one_inside h t = Given_up \<longleftrightarrow> h = Some (t, True)"
  "one_inside h t = Outside \<longleftrightarrow> h \<noteq> Some (t, False) \<and> h \<noteq> Some (t, True)"
  by (auto simp: one_inside_def split: option.splits if_splits)

lemma one_inside_update:
  "(one_inside None)(t := Inside) = one_inside (Some (t, False))"
  "(one_inside h)(t := Outside) = (if \<exists>g. h = Some (t, g) then one_inside None else one_inside h)"
  "(one_inside (Some (t, g)))(t := Inside) = one_inside (Some (t, False))"
  "(one_inside (Some (t, g)))(t := Given_up) = one_inside (Some (t, True))"
  by (auto simp: one_inside_def split: option.splits)

lemma holds_lock_init: "holds_lock None (py_init p)"
  by (simp add: holds_lock_def py_init_def interpreter_lock_impl_def one_inside_def)

lemma failed_stays: "py_step w ev w' \<Longrightarrow> ip_failed (py_ip w) \<Longrightarrow> ip_failed (py_ip w')"
  by (erule py_step.cases) (auto simp: lock_ops split: if_splits)

lemma holds_lock_step:
  assumes "py_step w ev w'" "holds_lock h w" "\<not> ip_failed (py_ip w')"
  shows "\<exists>h'. holds_lock h' w'"
  using assms
proof (cases rule: py_step.cases)
  case (lock t acquired ip)
  then have "holds_lock (if acquired then Some (t, False) else h) w'"
    using assms by (auto simp: holds_lock_def lock_ops one_inside_status one_inside_update split: if_splits)
  then show ?thesis ..
next
  case (unlock t)
  then have "holds_lock None w'"
    using assms by (auto simp: holds_lock_def lock_ops one_inside_status one_inside_update split: if_splits)
  then show ?thesis ..
next
  case (give_up t)
  then have "holds_lock (Some (t, True)) w'"
    using assms by (auto simp: holds_lock_def lock_ops one_inside_status one_inside_update split: if_splits)
  then show ?thesis ..
next
  case (take_back t ip)
  then have "holds_lock (Some (t, False)) w'"
    using assms by (auto simp: holds_lock_def lock_ops one_inside_status one_inside_update split: if_splits)
  then show ?thesis ..
qed (auto simp: holds_lock_def lock_ops intro!: exI [of _ h] split: if_splits)

text \<open>An assertion fails only when a thread of Python wants to run a server while another one does.\<close>

lemma assertion_step:
  assumes "py_step w ev w'" "holds_lock h w" "\<not> ip_failed (py_ip w)" "ip_failed (py_ip w')"
  shows "\<exists>p. ev = Enter p \<and> py_scope w \<noteq> None"
  using assms by (cases rule: py_step.cases) (auto simp: holds_lock_def lock_ops one_inside_status split: if_splits)

lemma reach_holds: "py_reach p w \<Longrightarrow> \<not> ip_failed (py_ip w) \<Longrightarrow> \<exists>h. holds_lock h w"
proof (induction rule: py_reach.induct)
  case py_reach_init
  show ?case using holds_lock_init by blast
next
  case (py_reach_step w ev w')
  with failed_stays holds_lock_step show ?case by blast
qed


text \<open>The state in which the thread 7 of the server is inside, reached in three steps.\<close>

definition sample_inside :: py_world where
  "sample_inside = \<lparr>py_ip = \<lparr>ip_gil = Some (Worker 7), ip_thread_state = True, ip_thread_lock_count = 1,
     ip_failed = False\<rparr>, py_scope = Some 0, py_status = (\<lambda>_. Outside)(7 := Inside)\<rparr>"

lemma sample_reach: "py_reach 0 sample_inside"
proof -
  let ?w1 = "(py_init 0)\<lparr>py_ip := lock_thread (py_ip (py_init 0)), py_scope := Some 0\<rparr>"
  have "py_step (py_init 0) (Enter 0) ?w1"
    by (rule enter) (simp add: py_init_def interpreter_lock_impl_def)
  then have 1: "py_reach 0 ?w1" by (rule py_reach_step [OF py_reach_init])
  have "py_step ?w1 (Lock 7) (?w1\<lparr>py_ip := py_ip sample_inside,
      py_status := (py_status ?w1)(7 := if True then Inside else Outside)\<rparr>)"
    by (rule lock) (simp_all add: py_init_def interpreter_lock_impl_def sample_inside_def lock_ops)
  from py_reach_step [OF 1 this] show ?thesis
    by (simp add: py_init_def sample_inside_def)
qed


section \<open>A thread that gives the interpreter up\<close>

inductive py_run :: "py_world \<Rightarrow> py_event list \<Rightarrow> py_world \<Rightarrow> bool" where
  py_run_nil: "py_run w [] w"
| py_run_cons: "py_step w ev w1 \<Longrightarrow> py_run w1 evs w2 \<Longrightarrow> py_run w (ev # evs) w2"

inductive_cases py_run_nilE [elim!]: "py_run w [] w'"
inductive_cases py_run_consE [elim!]: "py_run w (ev # evs) w'"

lemma given_up_step:
  assumes "py_step w ev w'" "holds_lock (Some (t, True)) w" "\<not> ip_failed (py_ip w')" "ev \<noteq> Take_back t"
  shows "holds_lock (Some (t, True)) w'"
  using assms by (cases rule: py_step.cases)
    (auto simp: holds_lock_def lock_ops one_inside_status split: if_splits)

lemma run_failed: "py_run w evs w' \<Longrightarrow> ip_failed (py_ip w) \<Longrightarrow> ip_failed (py_ip w')"
  by (induction rule: py_run.induct) (auto dest: failed_stays)

lemma given_up_run:
  assumes "py_run w evs w'" "holds_lock (Some (t, True)) w" "\<not> ip_failed (py_ip w')" "Take_back t \<notin> set evs"
  shows "holds_lock (Some (t, True)) w'"
  using assms
proof (induction rule: py_run.induct)
  case (py_run_cons w ev w1 evs w2)
  then have "\<not> ip_failed (py_ip w1)" using run_failed by blast
  with py_run_cons given_up_step show ?case by auto
qed

text \<open>A thread of the server that gives the interpreter up inside the lock keeps all others out: until
  it takes the interpreter back, no other thread of the server gets past the lock, whatever
  happens, and the thread of Python that runs the server cannot leave. So when a callback
  in such a thread stops the server (\<open>python_server::stop\<close>), and the strand needs the
  interpreter before it comes to finish the manager, both wait for each other.\<close>

theorem given_up_blocks:
  assumes "py_reach p w" "\<not> ip_failed (py_ip w')" "py_status w t = Given_up"
    "py_run w evs w'" "Take_back t \<notin> set evs"
  shows "py_status w' t = Given_up \<and> (\<forall>u w2. \<not> py_step w' (Lock u) w2) \<and> (\<forall>q w2. \<not> py_step w' (Leave q) w2)"
proof -
  have "\<not> ip_failed (py_ip w)" using run_failed assms(2,4) by blast
  with reach_holds assms(1) obtain h where h: "holds_lock h w" by blast
  with assms(3) have "h = Some (t, True)" by (simp add: holds_lock_def one_inside_status)
  with given_up_run [OF assms(4) _ assms(2,5)] h have "holds_lock (Some (t, True)) w'" by simp
  then show ?thesis
    by (auto simp: holds_lock_def one_inside_status leave_simps lock_simps lock_ops split: if_splits)
qed

theorem given_up_blocks_witness:
  "\<not> (\<exists>w2. py_step (sample_inside\<lparr>py_ip := save_thread (py_ip sample_inside),
     py_status := (py_status sample_inside)(7 := Given_up)\<rparr>) (Lock 8) w2)"
proof -
  let ?w = "sample_inside\<lparr>py_ip := save_thread (py_ip sample_inside), py_status := (py_status sample_inside)(7 := Given_up)\<rparr>"
  have "py_step sample_inside (Give_up 7) ?w" by (rule give_up) (simp add: sample_inside_def)
  then have "py_reach 0 ?w" by (rule py_reach_step [OF sample_reach])
  moreover have "\<not> ip_failed (py_ip ?w)" "py_status ?w 7 = Given_up" by (simp_all add: sample_inside_def save_thread_def)
  ultimately show ?thesis using given_up_blocks [OF _ _ _ py_run_nil, of 0 ?w 7] by simp
qed

end
