(* ===== verification/Python_Workers.thy ===== *)
theory Python_Workers
  imports Interpreter
begin

text \<open>
  The two users of the interpreter's lock that have a thread of their own: the list of objects to
  be destroyed (\<open>python/cleanup_list.cpp\<close>) and the logger (\<open>python/python_logger.cpp\<close>).
\<close>

section \<open>Objects to be destroyed\<close>

text \<open>An object of Python may only be destroyed with the interpreter, so its last owner hands it to the
  list. \<open>gc_thread\<close> says where the thread of the list is; the objects it has destroyed are
  collected.\<close>

datatype cleanup_thread = Not_started | Looping | Has_taken | Ended

record 'a cleanup_list =
  gc_input :: "'a list"
  gc_to_destroy :: "'a list"
  gc_started :: bool
  gc_stopped :: bool
  gc_thread :: cleanup_thread
  gc_destroyed :: "'a list"

definition cleanup_list_new :: "'a cleanup_list" where
  "cleanup_list_new = \<lparr>gc_input = [], gc_to_destroy = [], gc_started = False, gc_stopped = False,
     gc_thread = Not_started, gc_destroyed = []\<rparr>"

definition cleanup_start :: "'a cleanup_list \<Rightarrow> unit result \<times> 'a cleanup_list" where
  "cleanup_start l = (if gc_started l then (Inl Assertion_failed, l)
     else (Inr (), l\<lparr>gc_started := True, gc_thread := Looping\<rparr>))"

definition cleanup_stop :: "'a cleanup_list \<Rightarrow> 'a cleanup_list" where
  "cleanup_stop l = l\<lparr>gc_stopped := True\<rparr>"

definition push_ref :: "'a \<Rightarrow> 'a cleanup_list \<Rightarrow> 'a cleanup_list" where
  "push_ref obj l = l\<lparr>gc_input := gc_input l @ [obj]\<rparr>"

text \<open>\<open>None\<close>: the thread waits.\<close>

definition acquire_destroy_list :: "'a cleanup_list \<Rightarrow> (bool \<times> 'a cleanup_list) option" where
  "acquire_destroy_list l =
     (if \<not> gc_stopped l \<and> gc_input l = [] then None
      else if gc_stopped l then Some (False, l)
      else Some (True, l\<lparr>gc_to_destroy := gc_input l, gc_input := gc_to_destroy l\<rparr>))"

text \<open>The two halves of a round of \<open>thread_func\<close>; between them the thread asks for the interpreter,
  and \<open>acquired\<close> is the answer.\<close>

definition cleanup_take :: "'a cleanup_list \<Rightarrow> 'a cleanup_list option" where
  "cleanup_take l =
     (if gc_stopped l then Some (l\<lparr>gc_thread := Ended\<rparr>)
      else case acquire_destroy_list l of
          None \<Rightarrow> None
        | Some (False, l1) \<Rightarrow> Some (l1\<lparr>gc_thread := Ended\<rparr>)
        | Some (True, l1) \<Rightarrow> Some (l1\<lparr>gc_thread := Has_taken\<rparr>))"

definition cleanup_destroy :: "bool \<Rightarrow> 'a cleanup_list \<Rightarrow> 'a cleanup_list" where
  "cleanup_destroy acquired l =
     (if gc_stopped l \<or> \<not> acquired then l\<lparr>gc_thread := Ended\<rparr>
      else l\<lparr>gc_destroyed := gc_destroyed l @ gc_to_destroy l, gc_to_destroy := [], gc_thread := Looping\<rparr>)"

datatype 'a cleanup_op = Push_ref 'a | Stop_cleanup | Take_list | Destroy_list bool

definition cleanup_op :: "'a cleanup_op \<Rightarrow> 'a cleanup_list \<Rightarrow> 'a cleanup_list option" where
  "cleanup_op op l = (case op of
     Push_ref x \<Rightarrow> Some (push_ref x l)
   | Stop_cleanup \<Rightarrow> Some (cleanup_stop l)
   | Take_list \<Rightarrow> if gc_thread l = Looping then cleanup_take l else None
   | Destroy_list acquired \<Rightarrow> if gc_thread l = Has_taken then Some (cleanup_destroy acquired l) else None)"

fun cleanup_run :: "'a cleanup_op list \<Rightarrow> 'a cleanup_list \<Rightarrow> 'a cleanup_list option" where
  "cleanup_run [] l = Some l"
| "cleanup_run (op # ops) l = (case cleanup_op op l of None \<Rightarrow> None | Some l' \<Rightarrow> cleanup_run ops l')"

definition pushed :: "'a cleanup_op list \<Rightarrow> 'a list" where
  "pushed ops = List.map_filter (\<lambda>op. case op of Push_ref x \<Rightarrow> Some x | _ \<Rightarrow> None) ops"

definition never_denied :: "'a cleanup_op list \<Rightarrow> bool" where
  "never_denied ops \<longleftrightarrow> Stop_cleanup \<notin> set ops \<and> Destroy_list False \<notin> set ops"

lemmas cleanup_defs = cleanup_op_def push_ref_def cleanup_stop_def cleanup_take_def acquire_destroy_list_def
  cleanup_destroy_def

lemma cleanup_op_conserves:
  assumes "cleanup_op op l = Some l'" "gc_thread l = Looping \<longrightarrow> gc_to_destroy l = []"
  shows "gc_destroyed l' @ gc_to_destroy l' @ gc_input l' = gc_destroyed l @ gc_to_destroy l @ gc_input l @ pushed [op]"
    "gc_thread l' = Looping \<longrightarrow> gc_to_destroy l' = []"
    "never_denied [op] \<and> \<not> gc_stopped l \<and> gc_thread l \<noteq> Ended \<longrightarrow> \<not> gc_stopped l' \<and> gc_thread l' \<noteq> Ended"
  using assms by (auto simp: cleanup_defs pushed_def map_filter_simps never_denied_def
      split: cleanup_op.splits if_splits)

lemma pushed_Cons: "pushed (op # ops) = pushed [op] @ pushed ops"
  by (simp add: pushed_def map_filter_simps split: cleanup_op.splits)

lemma cleanup_run_conserves:
  assumes "cleanup_run ops l = Some l'" "gc_thread l = Looping \<longrightarrow> gc_to_destroy l = []"
  shows "gc_destroyed l' @ gc_to_destroy l' @ gc_input l' = gc_destroyed l @ gc_to_destroy l @ gc_input l @ pushed ops \<and>
    (gc_thread l' = Looping \<longrightarrow> gc_to_destroy l' = []) \<and>
    (never_denied ops \<and> \<not> gc_stopped l \<and> gc_thread l \<noteq> Ended \<longrightarrow> \<not> gc_stopped l' \<and> gc_thread l' \<noteq> Ended)"
  using assms
proof (induction ops arbitrary: l)
  case Nil
  then show ?case by (simp add: pushed_def map_filter_simps)
next
  case (Cons op ops)
  from Cons.prems(1) obtain l1 where l1: "cleanup_op op l = Some l1" "cleanup_run ops l1 = Some l'"
    by (auto split: option.splits)
  note step = cleanup_op_conserves [OF l1(1) Cons.prems(2)]
  have nd: "never_denied (op # ops) \<longleftrightarrow> never_denied [op] \<and> never_denied ops" by (auto simp: never_denied_def)
  from Cons.IH [OF l1(2) step(2)] step(1,3) show ?case
    unfolding pushed_Cons [of op ops] nd by (metis append.assoc)
qed

text \<open>C37. No object handed to the list is lost or destroyed twice: for every interleaving with the
  thread of the list, the destroyed objects followed by those taken and those waiting are the
  handed ones in order. While the interpreter is not denied and the list is not stopped, the thread
  goes on, and when it comes to the list again everything it had taken is destroyed.\<close>

theorem cleanup_conserves:
  assumes "cleanup_run ops (snd (cleanup_start cleanup_list_new)) = Some l"
  shows "gc_destroyed l @ gc_to_destroy l @ gc_input l = pushed ops \<and>
    (never_denied ops \<and> gc_thread l \<noteq> Has_taken \<longrightarrow>
       gc_thread l = Looping \<and> gc_destroyed l @ gc_input l = pushed ops \<and>
       cleanup_take l = (if gc_input l = [] then None
         else Some (l\<lparr>gc_to_destroy := gc_input l, gc_input := [], gc_thread := Has_taken\<rparr>)))"
proof -
  have "gc_thread l \<noteq> Not_started"
    using assms
  proof (rule contrapos_pn)
    show "cleanup_run ops (snd (cleanup_start cleanup_list_new)) \<noteq> Some l" if "gc_thread l = Not_started"
    proof -
      have "gc_thread l0 \<noteq> Not_started \<Longrightarrow> cleanup_run ops l0 \<noteq> Some l" for l0
        using that
        by (induction ops arbitrary: l0) (auto simp: cleanup_defs split: option.splits cleanup_op.splits if_splits)
      then show ?thesis by (simp add: cleanup_start_def cleanup_list_new_def)
    qed
  qed
  moreover have "gc_thread (snd (cleanup_start cleanup_list_new)) = Looping \<longrightarrow>
      gc_to_destroy (snd (cleanup_start cleanup_list_new)) = []"
    by (simp add: cleanup_start_def cleanup_list_new_def)
  note run = cleanup_run_conserves [OF assms this]
  moreover have "gc_thread l = Looping \<or> gc_thread l = Has_taken \<or> gc_thread l = Ended"
    using \<open>gc_thread l \<noteq> Not_started\<close> by (cases "gc_thread l") auto
  ultimately show ?thesis
    by (auto simp: cleanup_start_def cleanup_list_new_def cleanup_take_def acquire_destroy_list_def)
qed

theorem cleanup_conserves_witness:
  "\<exists>l. cleanup_run [Push_ref ''a'', Take_list, Push_ref ''b'', Destroy_list True, Push_ref ''c'']
      (snd (cleanup_start cleanup_list_new)) = Some l \<and> gc_destroyed l @ gc_input l = [''a'', ''b'', ''c'']"
proof -
  let ?ops = "[Push_ref ''a'', Take_list, Push_ref ''b'', Destroy_list True, Push_ref ''c'']"
  have "map_option gc_thread (cleanup_run ?ops (snd (cleanup_start cleanup_list_new))) = Some Looping" by code_simp
  then obtain l where l: "cleanup_run ?ops (snd (cleanup_start cleanup_list_new)) = Some l" "gc_thread l = Looping" by auto
  have "never_denied ?ops" "pushed ?ops = [''a'', ''b'', ''c'']" by (simp_all add: never_denied_def pushed_def map_filter_simps)
  with cleanup_conserves [OF l(1)] l show ?thesis by fastforce
qed

section \<open>The logger\<close>

text \<open>The logger of Python is asked which levels it wants when it is attached; when it cannot answer,
  a level is wanted.\<close>

record python_logger =
  pl_items :: "(char \<times> string) threaded_queue"
  pl_enabled_debug :: bool
  pl_enabled_info :: bool
  pl_enabled_error :: bool
  pl_written :: "(string \<times> string) list"

definition python_logger_new :: "(nat \<Rightarrow> bool result) \<Rightarrow> python_logger" where
  "python_logger_new enabled =
     (let pl = \<lparr>pl_items = queue_init, pl_enabled_debug = True, pl_enabled_info = True,
          pl_enabled_error = True, pl_written = []\<rparr>
      in case enabled 10 of
           Inl _ \<Rightarrow> pl
         | Inr d \<Rightarrow> (case enabled 20 of
               Inl _ \<Rightarrow> pl\<lparr>pl_enabled_debug := d\<rparr>
             | Inr i \<Rightarrow> (case enabled 40 of
                   Inl _ \<Rightarrow> pl\<lparr>pl_enabled_debug := d, pl_enabled_info := i\<rparr>
                 | Inr e \<Rightarrow> pl\<lparr>pl_enabled_debug := d, pl_enabled_info := i, pl_enabled_error := e\<rparr>)))"

definition level_char :: "log_level \<Rightarrow> char" where
  "level_char l = (case l of Log_info \<Rightarrow> CHR ''i'' | Log_debug \<Rightarrow> CHR ''d'' | Log_error \<Rightarrow> CHR ''e'')"

definition level_enabled :: "python_logger \<Rightarrow> log_level \<Rightarrow> bool" where
  "level_enabled pl l = (case l of Log_info \<Rightarrow> pl_enabled_info pl | Log_debug \<Rightarrow> pl_enabled_debug pl
     | Log_error \<Rightarrow> pl_enabled_error pl)"

definition logger_invoke :: "string \<Rightarrow> char \<Rightarrow> string \<Rightarrow> python_logger \<Rightarrow> unit result \<times> python_logger" where
  "logger_invoke errno_text level line pl =
     (if queue_finished (pl_items pl) then (Inr (), pl)
      else case vsnprintf_log errno_text line of
          Inl e \<Rightarrow> (Inl e, pl)
        | Inr buffer \<Rightarrow> (Inr (), pl\<lparr>pl_items := snd (queue_push (level, buffer) (pl_items pl))\<rparr>))"

definition python_log :: "string \<Rightarrow> log_level \<Rightarrow> string \<Rightarrow> python_logger \<Rightarrow> unit result \<times> python_logger" where
  "python_log errno_text level line pl =
     (if level_enabled pl level then logger_invoke errno_text (level_char level) line pl else (Inr (), pl))"

text \<open>The thread of the logger calls the method of the level with the line; an exception of Python
  leaves the loop.\<close>

definition level_method :: "char \<Rightarrow> string" where
  "level_method level = (if level = CHR ''i'' then ''info'' else if level = CHR ''e'' then ''error'' else ''debug'')"

fun process_items :: "(string \<Rightarrow> string \<Rightarrow> bool) \<Rightarrow> (char \<times> string) list \<Rightarrow> bool \<times> (string \<times> string) list" where
  "process_items raises [] = (True, [])"
| "process_items raises ((level, line) # items) =
     (if raises (level_method level) line then (False, [])
      else case process_items raises items of (ok, calls) \<Rightarrow> (ok, (level_method level, line) # calls))"

text \<open>A round of the thread: \<open>None\<close> when it waits for lines; otherwise whether it goes on.\<close>

definition logger_round :: "bool \<Rightarrow> (string \<Rightarrow> string \<Rightarrow> bool) \<Rightarrow> python_logger \<Rightarrow> (bool \<times> python_logger) option" where
  "logger_round acquired raises pl =
     (case queue_pop_all (pl_items pl) of
        None \<Rightarrow> None
      | Some (None, q) \<Rightarrow> Some (False, pl\<lparr>pl_items := q\<rparr>)
      | Some (Some items, q) \<Rightarrow>
          if \<not> acquired then Some (False, pl\<lparr>pl_items := q\<rparr>)
          else (case process_items raises items of
              (True, calls) \<Rightarrow> Some (True, pl\<lparr>pl_items := q, pl_written := pl_written pl @ calls\<rparr>)
            | (False, calls) \<Rightarrow> Some (False, pl\<lparr>pl_items := queue_finish q, pl_written := pl_written pl @ calls\<rparr>)))"

fun log_lines :: "string \<Rightarrow> (log_level \<times> string) list \<Rightarrow> python_logger \<Rightarrow> python_logger" where
  "log_lines errno_text [] pl = pl"
| "log_lines errno_text ((level, line) # rest) pl = log_lines errno_text rest (snd (python_log errno_text level line pl))"

lemma level_method_char: "level_method (level_char l) = (case l of Log_info \<Rightarrow> ''info'' | Log_debug \<Rightarrow> ''debug'' | Log_error \<Rightarrow> ''error'')"
  by (cases l) (simp_all add: level_method_def level_char_def)

lemma process_items_ok:
  "(\<And>m l. \<not> raises m l) \<Longrightarrow> process_items raises items = (True, map (\<lambda>(level, line). (level_method level, line)) items)"
  by (induction items) auto

lemma log_lines_items:
  assumes "\<not> queue_finished (pl_items pl)"
  shows "tq_items (pl_items (log_lines err lines pl)) = tq_items (pl_items pl) @
      map (\<lambda>(level, line). (level_char level, take 1022 line))
        (filter (\<lambda>(level, line). level_enabled pl level \<and> length line < 1024) lines) \<and>
    \<not> queue_finished (pl_items (log_lines err lines pl)) \<and> pl_written (log_lines err lines pl) = pl_written pl"
  using assms
proof (induction lines arbitrary: pl)
  case (Cons l lines)
  obtain level line where l: "l = (level, line)" by force
  let ?pl = "snd (python_log err level line pl)"
  have "\<not> queue_finished (pl_items ?pl)" "pl_written ?pl = pl_written pl" "level_enabled ?pl = level_enabled pl"
    "tq_items (pl_items ?pl) = tq_items (pl_items pl) @
      (if level_enabled pl level \<and> length line < 1024 then [(level_char level, take 1022 line)] else [])"
    using Cons.prems
    by (auto simp: python_log_def logger_invoke_def vsnprintf_log_def throw_unless_def log_buffer_size_def
        bind_result_def queue_push_def queue_finished_def level_enabled_def fun_eq_iff split: log_level.splits)
  with Cons.IH [of ?pl] show ?case by (simp add: l)
qed simp

text \<open>Lines that fit the buffer are written by the logger of Python in order, each by the method of its
  level, and those of a level that it does not want are not.\<close>

lemma logger_writes:
  assumes "tq_items (pl_items pl) = []" "\<not> queue_finished (pl_items pl)" "\<And>m l. \<not> raises m l"
    "logger_round True raises (log_lines err lines pl) = Some (go_on, pl')"
  shows "go_on \<and> pl_written pl' = pl_written pl @
    map (\<lambda>(level, line). (level_method (level_char level), take 1022 line))
      (filter (\<lambda>(level, line). level_enabled pl level \<and> length line < 1024) lines)"
  using assms(4) log_lines_items [OF assms(2), of err lines] assms(1)
  by (auto simp: logger_round_def queue_pop_all_def queue_finished_def process_items_ok [OF assms(3)] comp_def
      split_beta split: if_splits)

end
