(* ===== verification/Python_Server.thy ===== *)
theory Python_Server
  imports Python_Adapters Python_Workers
begin

text \<open>
  The server as a class of Python (\<open>python/python_server.cpp\<close>): it owns the server of the library
  until it is stopped, and turns exceptions into errors of Python. The scopes in which \<open>init\<close> and
  \<open>start\<close> give the interpreter up are those of theory Interpreter.
\<close>

section \<open>State and operations\<close>

text \<open>\<open>pv_impl\<close> is empty once the server has been stopped; \<open>pv_channels_stat\<close> says whether the
  statistics are shared, and the objects handed to the list of objects to be destroyed are numbers.\<close>

record python_server =
  pv_impl :: "server option"
  pv_logger :: "python_logger option"
  pv_cleanup :: "nat cleanup_list"
  pv_channels_stat :: bool

definition python_server_new :: python_server where
  "python_server_new = \<lparr>pv_impl = Some server_new, pv_logger = None, pv_cleanup = cleanup_list_new,
     pv_channels_stat = False\<rparr>"

text \<open>\<open>check_server\<close>, and what happens behind it to the server of the library.\<close>

definition check_server :: "python_server \<Rightarrow> server result" where
  "check_server pv = (case pv_impl pv of None \<Rightarrow> Inl (Runtime_error ''server already stopped'') | Some sv \<Rightarrow> Inr sv)"

definition with_server :: "(server \<Rightarrow> unit result \<times> server) \<Rightarrow> python_server \<Rightarrow> unit result \<times> python_server" where
  "with_server f pv = (case check_server pv of Inl e \<Rightarrow> (Inl e, pv)
     | Inr sv \<Rightarrow> (case f sv of (r, sv') \<Rightarrow> (r, pv\<lparr>pv_impl := Some sv'\<rparr>)))"

text \<open>\<open>stop\<close> takes the server out and stops it; the first component is that server, up to where its
  \<open>stop\<close> may wait.\<close>

definition python_stop :: "python_server \<Rightarrow> server option \<times> python_server" where
  "python_stop pv = (case pv_impl pv of None \<Rightarrow> (None, pv)
     | Some sv \<Rightarrow> (Some (server_stop_begin sv), pv\<lparr>pv_impl := None\<rparr>))"

definition python_init :: "system \<Rightarrow> py_settings \<Rightarrow> python_server \<Rightarrow> unit result \<times> python_server" where
  "python_init sy s pv = with_server (server_init sy (settings_of_python s)) pv"

definition list_channels_enable :: "python_server \<Rightarrow> unit result \<times> python_server" where
  "list_channels_enable pv = (case with_server server_init_channels_stat pv of
     (Inl e, pv') \<Rightarrow> (Inl e, pv') | (Inr _, pv') \<Rightarrow> (Inr (), pv'\<lparr>pv_channels_stat := True\<rparr>))"

text \<open>\<open>start\<close> up to where the service runs. The logger is used without a check.\<close>

definition python_start :: "python_server \<Rightarrow> unit result \<times> python_server" where
  "python_start pv = (case check_server pv of Inl e \<Rightarrow> (Inl e, pv)
     | Inr sv \<Rightarrow> (case cleanup_start (pv_cleanup pv) of
           (Inl e, l) \<Rightarrow> (Inl e, pv\<lparr>pv_cleanup := l\<rparr>)
         | (Inr _, l) \<Rightarrow> (case pv_logger pv of
               None \<Rightarrow> (Inl Assertion_failed, pv\<lparr>pv_cleanup := l\<rparr>)
             | Some _ \<Rightarrow> with_server server_start_begin (pv\<lparr>pv_cleanup := l\<rparr>))))"

definition python_start_end :: "env \<Rightarrow> nat list \<Rightarrow> python_server \<Rightarrow> python_server" where
  "python_start_end e order pv = pv\<lparr>pv_impl := map_option (server_start_end e order) (pv_impl pv),
     pv_cleanup := cleanup_stop (pv_cleanup pv)\<rparr>"

text \<open>The lists of the statistics, which are the argument; \<open>None\<close> would be a loop without end.\<close>

definition list_channels :: "channels_stat \<Rightarrow> python_server \<Rightarrow> string list result option" where
  "list_channels st pv =
     (if pv_channels_stat pv then read_all enumeration_empty list_next (load_names st) else Some (Inr []))"

definition list_channel :: "channels_stat \<Rightarrow> string \<Rightarrow> python_server \<Rightarrow> string list result option" where
  "list_channel st name pv =
     (if pv_channels_stat pv
      then (case load_keys name st of Inl e \<Rightarrow> Some (Inl e) | Inr keys \<Rightarrow> read_all enumeration_empty list_next keys)
      else Some (Inr []))"

definition python_send :: "string \<Rightarrow> string \<Rightarrow> python_server \<Rightarrow> python_server" where
  "python_send to msg pv = pv\<lparr>pv_impl := map_option (server_send to (message_init msg)) (pv_impl pv)\<rparr>"

definition send_to_channel :: "string \<Rightarrow> string \<Rightarrow> channel_info \<Rightarrow> python_server \<Rightarrow> python_server" where
  "send_to_channel to msg ch pv = (case pv_impl pv of None \<Rightarrow> pv
     | Some sv \<Rightarrow> if channel_id_empty ch then pv
         else pv\<lparr>pv_impl := Some (server_send to (message_set_channel_info ch (message_init msg)) sv)\<rparr>)"

definition python_attach_logger :: "(nat \<Rightarrow> bool result) \<Rightarrow> python_server \<Rightarrow> unit result \<times> python_server" where
  "python_attach_logger enabled pv = (case with_server (\<lambda>sv. (Inr (), attach_logger sv)) pv of
     (Inl e, pv') \<Rightarrow> (Inl e, pv')
   | (Inr _, pv') \<Rightarrow> (Inr (), pv'\<lparr>pv_logger := Some (python_logger_new enabled)\<rparr>))"

definition python_attach_response_handler :: "nat \<Rightarrow> py_handler \<Rightarrow> python_server \<Rightarrow> unit result \<times> python_server" where
  "python_attach_response_handler a h = with_server (\<lambda>sv. (Inr (), attach_response_handler (python_handler a h) sv))"

definition python_attach_ping_formatter :: "string \<times> string \<Rightarrow> python_server \<Rightarrow> unit result \<times> python_server" where
  "python_attach_ping_formatter f = with_server (\<lambda>sv. (Inr (), attach_ping_formatter f sv))"

definition python_attach_formatter_creator ::
    "string \<Rightarrow> bool \<Rightarrow> (request_impl \<Rightarrow> (string \<Rightarrow> string option) option) \<Rightarrow> python_server \<Rightarrow> unit result \<times> python_server" where
  "python_attach_formatter_creator fmt_id locked create =
     with_server (\<lambda>sv. (Inr (), attach_formatter_creator fmt_id (Some (python_formatter_creator locked create)) sv))"

definition python_add_connection_listener :: "py_listener \<Rightarrow> python_server \<Rightarrow> unit result \<times> python_server" where
  "python_add_connection_listener l = with_server (\<lambda>sv. (Inr (), server_add_listener (python_listener l) sv))"

definition python_attach_message_filter ::
    "bool \<Rightarrow> (string \<Rightarrow> string \<Rightarrow> string \<Rightarrow> string \<Rightarrow> bool option) \<Rightarrow> python_server \<Rightarrow> unit result \<times> python_server" where
  "python_attach_message_filter locked f =
     with_server (\<lambda>sv. (Inr (), server_attach_message_filter (python_message_filter locked f) sv))"

section \<open>Lists of channels\<close>

lemma list_channels_all: "pv_channels_stat pv \<Longrightarrow> list_channels st pv = Some (Inr (load_names st))"
  using stat_enum.read_all_rest [of "load_names st"] by (simp add: list_channels_def)

lemma list_channel_all:
  "pv_channels_stat pv \<Longrightarrow> load_keys name st = Inr keys \<Longrightarrow> list_channel st name pv = Some (Inr keys)"
  using stat_enum.read_all_rest [of keys] by (simp add: list_channel_def)

section \<open>A server that has been stopped\<close>

lemma stopped_refuses:
  assumes "pv_impl pv = None"
  shows "with_server f pv = (Inl (Runtime_error ''server already stopped''), pv)"
    "python_start pv = (Inl (Runtime_error ''server already stopped''), pv)"
    "python_send to msg pv = pv" "send_to_channel to msg ch pv = pv" "python_stop pv = (None, pv)"
  using assms by (simp_all add: with_server_def check_server_def python_start_def python_send_def
      send_to_channel_def python_stop_def)

text \<open>Starting without a logger of Python ends the program.\<close>

lemma start_without_logger:
  "python_start (python_server_new\<lparr>pv_impl := Some sv\<rparr>) =
     (Inl Assertion_failed, (python_server_new\<lparr>pv_impl := Some sv\<rparr>)\<lparr>pv_cleanup := snd (cleanup_start cleanup_list_new)\<rparr>)"
  by (simp add: python_start_def python_server_new_def check_server_def cleanup_start_def cleanup_list_new_def)

section \<open>Initialisation from Python\<close>

lemma providers_keep:
  "sv_acceptor (fold start_provider_thread ps sv) = sv_acceptor sv"
  "sv_ssl_acceptor (fold start_provider_thread ps sv) = sv_ssl_acceptor sv"
  "sv_workers (fold start_provider_thread ps sv) = sv_workers sv"
  "sv_handler (fold start_provider_thread ps sv) = sv_handler sv"
  "sv_message_queue (fold start_provider_thread ps sv) = sv_message_queue sv"
  by (induction ps arbitrary: sv) (simp_all add: start_provider_thread_def)

lemma python_data_init:
  assumes "\<And>name. sy_file sy name \<noteq> None"
  shows "\<exists>d'. connection_data_init (sy_file sy) (settings_of_python s) ping d = Inr d'"
  using assms [of "py_policy_file_name s"]
  by (auto simp: connection_data_init_def settings_of_python_def bind_result_def Let_def split: option.split)


definition sample_system :: system where
  "sample_system = \<lparr>sy_file = (\<lambda>_. Some []), sy_tls = (\<lambda>_. Inr ()), sy_bind = (\<lambda>_ _ _. (True, Inr ())),
     sy_first = Some 5, sy_ssl_first = Some 6\<rparr>"

definition sample_py_settings :: py_settings where
  "sample_py_settings = \<lparr>ps_given = True, ps_locked = True,
     ps_call = (\<lambda>name. if name = ''port'' then Some (Py_int 8000) else None),
     ps_value = (\<lambda>name. if name = ''backlog'' then Some (Py_int 70000) else Some Py_none)\<rparr>"


end
