(* ===== verification/Lifecycle.thy ===== *)
theory Lifecycle
  imports Server
begin

text \<open>
  The life of a server between the thread that calls \<open>start\<close>, the threads that call \<open>stop\<close> and the
  thread that destroys it (\<open>library/server_impl.cpp\<close>), as a step relation over the operations of
  theory \<open>Server\<close>. \<open>start\<close> holds the stop mutex until it returns; the destructor calls \<open>stop\<close>, joins
  the threads of the providers, takes the mutex and, if a started server has not stopped, waits for the
  condition. Boost's condition may wake a waiter without a notification. One thread at a
  time stops or destroys the server; a callback that stops it from the service is not covered.
\<close>

section \<open>What the threads run\<close>

text \<open>The line \<open>run_io\<close> logs, if any, when the service ends, and the one of a provider's thread.\<close>

definition run_io :: "unit result \<Rightarrow> server \<Rightarrow> string option" where
  "run_io r sv =
     (case r of
        Inr _ \<Rightarrow> None
      | Inl err \<Rightarrow> if sv_logger sv \<and> \<not> cd_stopping (sv_data sv)
          then Some (''server_impl::start failed, exception: '' @ exception_what err) else None)"

definition provider_thread_func :: "(message_queue \<Rightarrow> unit result \<times> message_queue) \<Rightarrow> server \<Rightarrow> string option \<times> server" where
  "provider_thread_func f sv =
     (case sv_message_queue sv of
        None \<Rightarrow> (None, sv)
      | Some q \<Rightarrow> (case f q of (r, q') \<Rightarrow>
          (case r of Inr _ \<Rightarrow> None | Inl err \<Rightarrow> Some (''caught exception in provider function: '' @ exception_what err),
           sv\<lparr>sv_message_queue := Some q'\<rparr>)))"

section \<open>Steps\<close>

text \<open>\<open>Running\<close> is inside \<open>io_.run()\<close>, \<open>Ending\<close> the rest of \<open>start\<close>; \<open>Stopping\<close> is inside \<open>stop\<close>, called
  by the destructor or not.\<close>

datatype start_phase = Not_started | Running | Ending | Returned | Threw

datatype end_phase = Alive | Stopping bool | Joining | Locking | Waiting | Destroyed

record life =
  lf_server :: server
  lf_start :: start_phase
  lf_end :: end_phase

definition life_init :: "server \<Rightarrow> life" where
  "life_init sv = \<lparr>lf_server = sv, lf_start = Not_started, lf_end = Alive\<rparr>"

definition stop_mutex_free :: "life \<Rightarrow> bool" where
  "stop_mutex_free l \<longleftrightarrow> lf_start l \<noteq> Running \<and> lf_start l \<noteq> Ending"

text \<open>The destructor once the threads are joined and the mutex is taken.\<close>

definition destructor_check :: "server \<Rightarrow> end_phase" where
  "destructor_check sv = (if sv_started sv \<and> \<not> sv_stopped sv then Waiting else Destroyed)"

text \<open>The application does not call \<open>start\<close> on a server it destroys. A job of the service runs only until
  \<open>io_.stop()\<close>; the finish of the manager is one only once \<open>stop\<close> has dispatched it. Closing an
  acceptor at the end of \<open>start\<close> may throw. A provider may do anything to the message queue.\<close>

inductive life_step :: "life \<Rightarrow> life \<Rightarrow> bool" where
  enter: "lf_start l = Not_started \<Longrightarrow> lf_end l = Alive \<or> lf_end l = Stopping False \<Longrightarrow>
    server_start_begin (lf_server l) = (Inr u, sv) \<Longrightarrow>
    life_step l (l\<lparr>lf_server := sv, lf_start := Running\<rparr>)"
| job: "lf_start l = Running \<Longrightarrow> \<not> sv_io_stopped (lf_server l) \<Longrightarrow> sv_world (lf_server l) = Some w \<Longrightarrow>
    world_step e ev w = Some w' \<Longrightarrow> \<not> cm_failed (wd_man w') \<Longrightarrow>
    (\<And>order. ev = We_finish order \<Longrightarrow> sv_dispatched (lf_server l)) \<Longrightarrow>
    life_step l (l\<lparr>lf_server := (lf_server l)\<lparr>sv_world := Some w'\<rparr>\<rparr>)"
| io_returns: "lf_start l = Running \<Longrightarrow> life_step l (l\<lparr>lf_start := Ending\<rparr>)"
| start_returns: "lf_start l = Ending \<Longrightarrow> sv_world (lf_server l) = Some w \<Longrightarrow> distinct order \<Longrightarrow>
    set order = fst ` set (cm_connections (wd_man w)) \<Longrightarrow>
    life_step l (l\<lparr>lf_server := server_start_end e order (lf_server l), lf_start := Returned\<rparr>)"
| start_throws: "lf_start l = Ending \<Longrightarrow>
    life_step l (l\<lparr>lf_server := (lf_server l)\<lparr>sv_data := connection_data_stop (sv_data (lf_server l))\<rparr>, lf_start := Threw\<rparr>)"
| provider_sends: "p \<in> set (sv_running (lf_server l)) \<Longrightarrow>
    life_step l (l\<lparr>lf_server := (lf_server l)\<lparr>sv_message_queue := mq\<rparr>\<rparr>)"
| provider_returns: "p \<in> set (sv_running (lf_server l)) \<Longrightarrow>
    life_step l (l\<lparr>lf_server := (lf_server l)\<lparr>sv_running := remove1 p (sv_running (lf_server l))\<rparr>\<rparr>)"
| stop_called: "lf_end l = Alive \<Longrightarrow>
    life_step l (l\<lparr>lf_server := server_stop_begin (lf_server l), lf_end := Stopping destroying\<rparr>)"
| stop_returns: "lf_end l = Stopping destroying \<Longrightarrow> server_stop_end (lf_server l) = Some sv \<Longrightarrow>
    life_step l (l\<lparr>lf_server := sv, lf_end := (if destroying then Joining else Alive)\<rparr>)"
| join_all: "lf_end l = Joining \<Longrightarrow> sv_running (lf_server l) = [] \<Longrightarrow> life_step l (l\<lparr>lf_end := Locking\<rparr>)"
| lock_stop: "lf_end l = Locking \<Longrightarrow> stop_mutex_free l \<Longrightarrow>
    life_step l (l\<lparr>lf_end := destructor_check (lf_server l)\<rparr>)"
| wakes: "lf_end l = Waiting \<Longrightarrow> stop_mutex_free l \<Longrightarrow> life_step l (l\<lparr>lf_end := Destroyed\<rparr>)"

section \<open>The invariant\<close>

lemma server_finish_flags [simp]:
  "sv_started (server_finish sv) = sv_started sv" "sv_stopped (server_finish sv) = sv_stopped sv"
  "sv_dispatched (server_finish sv) = sv_dispatched sv" "sv_running (server_finish sv) = sv_running sv"
  "(sv_world (server_finish sv) = None) = (sv_world sv = None)"
  by (simp_all add: server_finish_def)

lemma stop_begin_flags [simp]:
  "sv_started (server_stop_begin sv) = sv_started sv" "sv_stopped (server_stop_begin sv) = sv_stopped sv"
  "sv_dispatched (server_stop_begin sv) = (sv_dispatched sv \<or> sv_world sv \<noteq> None \<and> sv_started sv \<and> \<not> sv_stopped sv)"
  "sv_running (server_stop_begin sv) = sv_running sv"
  "(sv_world (server_stop_begin sv) = None) = (sv_world sv = None)"
  by (auto simp: server_stop_begin_def Let_def server_finish_def)

definition world_finished :: "server \<Rightarrow> bool" where
  "world_finished sv \<longleftrightarrow> (case sv_world sv of None \<Rightarrow> False | Some w \<Rightarrow> cm_finished (wd_man w))"

lemma finished_finish [simp]: "world_finished (server_finish sv) = world_finished sv"
  by (simp add: world_finished_def server_finish_def invoker_finish_queue_def listener_finish_def split: option.splits)

lemma finished_stop_begin [simp]: "world_finished (server_stop_begin sv) = world_finished sv"
  unfolding server_stop_begin_def Let_def
  by (cases "sv_world (server_finish sv) \<noteq> None \<and> sv_started (server_finish sv) \<and> \<not> sv_stopped (server_finish sv)")
     (simp_all add: world_finished_def finished_finish [unfolded world_finished_def])

lemma stop_end_some:
  "server_stop_end sv = Some sv' \<longleftrightarrow>
     sv' = sv\<lparr>sv_io_stopped := True\<rparr> \<and> (sv_dispatched sv \<and> sv_world sv \<noteq> None \<longrightarrow> world_finished sv)"
  by (auto simp: server_stop_end_def world_finished_def manager_wait_def split: option.splits)

lemma start_end_flags:
  assumes "sv_world sv = Some w" "distinct order" "set order = fst ` set (cm_connections (wd_man w))"
  shows "sv_stopped (server_start_end e order sv)" "world_finished (server_start_end e order sv)"
proof -
  show "sv_stopped (server_start_end e order sv)" by (simp add: server_start_end_def Let_def)
  show "world_finished (server_start_end e order sv)"
  proof (cases "cm_finished (wd_man (wound_up w))")
    case True
    then show ?thesis by (simp add: world_finished_def start_end_world assms(1) manager_finish_def)
  next
    case False
    with manager_finish_outcome [OF False assms(2) _ refl, of e "[]"] assms(3)
    have "manager_wait (manager_finish e order (wound_up w)) \<noteq> None" by simp
    then show ?thesis
      by (simp add: world_finished_def start_end_world assms(1) manager_wait_def split: if_splits)
  qed
qed

definition life_inv :: "life \<Rightarrow> bool" where
  "life_inv l \<longleftrightarrow>
     sv_world (lf_server l) \<noteq> None \<and>
     (case lf_start l of
        Not_started \<Rightarrow> \<not> sv_started (lf_server l) \<and> \<not> sv_dispatched (lf_server l)
      | Returned \<Rightarrow> sv_stopped (lf_server l) \<and> world_finished (lf_server l)
      | _ \<Rightarrow> sv_started (lf_server l)) \<and>
     (lf_end l = Waiting \<longrightarrow> lf_start l = Threw) \<and>
     (lf_end l = Destroyed \<longrightarrow> stop_mutex_free l)"

lemma world_finished_update [simp]:
  "world_finished (sv\<lparr>sv_data := d\<rparr>) = world_finished sv"
  "world_finished (sv\<lparr>sv_message_queue := mq\<rparr>) = world_finished sv"
  "world_finished (sv\<lparr>sv_running := ps\<rparr>) = world_finished sv"
  "world_finished (sv\<lparr>sv_io_stopped := b\<rparr>) = world_finished sv"
  by (simp_all add: world_finished_def)

lemma life_inv_step: "life_step l l' \<Longrightarrow> life_inv l \<Longrightarrow> life_inv l'"
proof (induction rule: life_step.induct)
  case (start_returns l w order e)
  then show ?case using start_end_flags [OF start_returns(2-4), of e]
    by (auto simp: life_inv_def stop_mutex_free_def start_end_world)
next
  case (stop_called l destroying)
  then show ?case
    by (simp add: life_inv_def stop_mutex_free_def del: not_None_eq split: start_phase.splits)
next
  case (lock_stop l)
  then show ?case
    by (cases "lf_start l") (auto simp: life_inv_def stop_mutex_free_def destructor_check_def)
qed (auto simp: life_inv_def stop_mutex_free_def stop_end_some server_start_begin_def split: start_phase.splits if_splits)

lemma life_inv_reach: "life_step\<^sup>*\<^sup>* l l' \<Longrightarrow> life_inv l \<Longrightarrow> life_inv l'"
  by (induction rule: rtranclp_induct) (auto intro: life_inv_step)

section \<open>The destruction can always complete\<close>

definition settled :: "life \<Rightarrow> bool" where
  "settled l \<longleftrightarrow> life_inv l \<and> (lf_start l = Not_started \<or> lf_start l = Returned)"

lemma settled_step:
  assumes "settled l" "life_step l l'" "lf_start l' = lf_start l"
  shows "settled l'"
  using assms life_inv_step by (auto simp: settled_def)

lemma after_step:
  "life_step l l1 \<Longrightarrow> \<exists>l'. life_step\<^sup>*\<^sup>* l1 l' \<and> Q l' \<Longrightarrow> \<exists>l'. life_step\<^sup>*\<^sup>* l l' \<and> Q l'"
  by (blast intro: converse_rtranclp_into_rtranclp)

lemma by_step: "life_step l l1 \<Longrightarrow> Q l1 \<Longrightarrow> \<exists>l'. life_step\<^sup>*\<^sup>* l l' \<and> Q l'"
  by blast

text \<open>\<open>start\<close> can leave wherever it is.\<close>

lemma start_can_leave:
  assumes "life_inv l" "lf_start l \<noteq> Threw"
  shows "\<exists>l'. life_step\<^sup>*\<^sup>* l l' \<and> settled l' \<and> lf_end l' = lf_end l"
proof -
  have ending: "\<exists>l2. life_step\<^sup>*\<^sup>* l1 l2 \<and> settled l2 \<and> lf_end l2 = lf_end l1"
    if l1: "life_inv l1" "lf_start l1 = Ending" for l1
  proof -
    obtain w where w: "sv_world (lf_server l1) = Some w" using l1(1) by (auto simp: life_inv_def)
    let ?order = "remdups (map fst (cm_connections (wd_man w)))"
    have step: "life_step l1 (l1\<lparr>lf_server := server_start_end undefined ?order (lf_server l1), lf_start := Returned\<rparr>)"
      by (rule life_step.start_returns [OF l1(2) w]) simp_all
    from life_inv_step [OF step l1(1)] show ?thesis by (intro by_step [OF step]) (simp add: settled_def)
  qed
  show ?thesis
  proof (cases "lf_start l")
    case Running
    have step: "life_step l (l\<lparr>lf_start := Ending\<rparr>)" by (rule life_step.io_returns [OF Running])
    from ending [OF life_inv_step [OF step assms(1)]] show ?thesis
      by (intro after_step [OF step]) simp
  qed (use assms ending [OF assms(1)] in \<open>auto simp: settled_def\<close>)
qed

lemma settled_free: "settled l \<Longrightarrow> stop_mutex_free l"
  by (auto simp: settled_def stop_mutex_free_def)

lemma lock_completes:
  assumes "settled l" "lf_end l = Locking"
  shows "\<exists>l'. life_step\<^sup>*\<^sup>* l l' \<and> lf_end l' = Destroyed"
proof -
  have "destructor_check (lf_server l) = Destroyed"
    using assms(1) by (auto simp: settled_def life_inv_def destructor_check_def)
  then show ?thesis
    by (intro by_step [OF life_step.lock_stop [OF assms(2) settled_free [OF assms(1)]]]) simp
qed

lemma join_completes:
  assumes "settled l" "lf_end l = Joining"
  shows "\<exists>l'. life_step\<^sup>*\<^sup>* l l' \<and> lf_end l' = Destroyed"
  using assms
proof (induction "length (sv_running (lf_server l))" arbitrary: l)
  case 0
  then have step: "life_step l (l\<lparr>lf_end := Locking\<rparr>)" by (intro life_step.join_all) simp_all
  from lock_completes [OF settled_step [OF 0(2) step]] show ?case
    by (intro after_step [OF step]) simp
next
  case (Suc n)
  then obtain p ps where p: "sv_running (lf_server l) = p # ps" by (cases "sv_running (lf_server l)") auto
  let ?l = "l\<lparr>lf_server := (lf_server l)\<lparr>sv_running := remove1 p (sv_running (lf_server l))\<rparr>\<rparr>"
  have step: "life_step l ?l" by (rule life_step.provider_returns) (simp add: p)
  have "settled ?l" by (rule settled_step [OF Suc.prems(1) step]) simp
  then have "\<exists>l'. life_step\<^sup>*\<^sup>* ?l l' \<and> lf_end l' = Destroyed"
    using Suc.hyps(2) Suc.prems(2) by (intro Suc.hyps(1)) (simp_all add: p)
  then show ?case by (rule after_step [OF step])
qed

text \<open>A settled server does not keep \<open>stop\<close> waiting.\<close>

lemma stop_step:
  assumes "settled l" "lf_end l = Stopping d"
  shows "\<exists>sv. life_step l (l\<lparr>lf_server := sv, lf_end := (if d then Joining else Alive)\<rparr>)"
proof -
  have "server_stop_end (lf_server l) = Some ((lf_server l)\<lparr>sv_io_stopped := True\<rparr>)"
    using assms(1) by (auto simp: stop_end_some settled_def life_inv_def)
  from life_step.stop_returns [OF assms(2) this] show ?thesis by blast
qed

lemma destroying_completes:
  assumes "settled l" "lf_end l = Stopping True"
  shows "\<exists>l'. life_step\<^sup>*\<^sup>* l l' \<and> lf_end l' = Destroyed"
proof -
  obtain sv where step: "life_step l (l\<lparr>lf_server := sv, lf_end := Joining\<rparr>)"
    using stop_step [OF assms] by auto
  from join_completes [OF settled_step [OF assms(1) step]] show ?thesis
    by (intro after_step [OF step]) simp
qed

lemma alive_completes:
  assumes "settled l" "lf_end l = Alive"
  shows "\<exists>l'. life_step\<^sup>*\<^sup>* l l' \<and> lf_end l' = Destroyed"
proof -
  have step: "life_step l (l\<lparr>lf_server := server_stop_begin (lf_server l), lf_end := Stopping True\<rparr>)"
    by (rule life_step.stop_called [OF assms(2)])
  from destroying_completes [OF settled_step [OF assms(1) step]] show ?thesis
    by (intro after_step [OF step]) simp
qed

lemma settled_completes:
  assumes "settled l"
  shows "\<exists>l'. life_step\<^sup>*\<^sup>* l l' \<and> lf_end l' = Destroyed"
proof (cases "lf_end l")
  case (Stopping d)
  show ?thesis
  proof (cases d)
    case False
    with Stopping obtain sv where step: "life_step l (l\<lparr>lf_server := sv, lf_end := Alive\<rparr>)"
      using stop_step [OF assms] by fastforce
    from alive_completes [OF settled_step [OF assms step]] show ?thesis
      by (intro after_step [OF step]) simp
  qed (use Stopping destroying_completes [OF assms] in simp)
next
  case Waiting
  then show ?thesis using assms by (auto simp: settled_def life_inv_def)
qed (use assms alive_completes join_completes lock_completes in auto)


text \<open>A server that is destroyed while it runs: \<open>stop\<close> waits for the manager, and \<open>start\<close> lets it go on.\<close>

definition idle_server :: server where
  "idle_server = sample_server\<lparr>sv_started := False\<rparr>"

definition destroyed_while_running :: life where
  "destroyed_while_running =
     \<lparr>lf_server = server_stop_begin (idle_server\<lparr>sv_started := True\<rparr>), lf_start = Running, lf_end = Stopping True\<rparr>"


end
