(* ===== verification/Util.thy ===== *)
theory Util
  imports Settings
begin

text \<open>
  The command-line client \<open>utils/main.cpp\<close>: with \<open>--path\<close> it copies the lines of its standard
  input to a local socket, with \<open>--listen\<close> it prints the lines that the sockets it accepts send. The
  text printed so far is passed along as \<open>out\<close>. Asio's \<open>read_until\<close> is a parameter: it appends what
  the socket delivers to the buffer until the match condition holds of the buffer (\<open>reads_until\<close>).
\<close>

section \<open>Reading lines from a stream\<close>

text \<open>An input stream over a buffer; \<open>in_good\<close> is false once an extraction has met the end of the
  buffer, and then no extraction succeeds.\<close>

record in_stream =
  in_buf :: string
  in_good :: bool

abbreviation newline :: char where
  "newline \<equiv> CHR 0x0A"

abbreviation stream_of :: "string \<Rightarrow> in_stream" where
  "stream_of s \<equiv> \<lparr>in_buf = s, in_good = True\<rparr>"

text \<open>\<open>std::getline\<close>: the line, or None when the stream has failed.\<close>

definition getline :: "in_stream \<Rightarrow> string option \<times> in_stream" where
  "getline st =
     (if \<not> in_good st then (None, st)
      else case dropWhile (\<lambda>c. c \<noteq> newline) (in_buf st) of
          [] \<Rightarrow> (if in_buf st = [] then None else Some (in_buf st), \<lparr>in_buf = [], in_good = False\<rparr>)
        | _ # rest \<Rightarrow> (Some (takeWhile (\<lambda>c. c \<noteq> newline) (in_buf st)), stream_of rest))"

lemma getline_line:
  assumes "newline \<notin> set l"
  shows "getline (stream_of (l @ newline # rest)) = (Some l, stream_of rest)"
proof -
  have "\<forall>c\<in>set l. c \<noteq> newline" using assms by auto
  then show ?thesis
    by (simp add: getline_def takeWhile_stop dropWhile_stop)
qed

lemma getline_last:
  assumes "newline \<notin> set l" "l \<noteq> []"
  shows "getline (stream_of l) = (Some l, \<lparr>in_buf = [], in_good = False\<rparr>)"
proof -
  have "dropWhile (\<lambda>c. c \<noteq> newline) l = []"
    using assms(1) by (simp add: dropWhile_eq_Nil_conv) metis
  with assms(2) show ?thesis
    unfolding getline_def by (simp only: in_stream.simps if_True if_False not_True_eq_False list.case)
qed

lemma getline_shrinks:
  assumes g: "getline st = (Some line, st')"
  shows "length (in_buf st') < length (in_buf st)"
proof -
  obtain buf where st: "st = stream_of buf"
    using g by (cases st) (auto simp: getline_def split: if_splits)
  show ?thesis
  proof (cases "newline \<in> set buf")
    case True
    then obtain l rest where "buf = l @ newline # rest" "newline \<notin> set l"
      by (meson split_list_first)
    with g st show ?thesis by (auto simp: getline_line)
  next
    case False
    with g st show ?thesis by (cases "buf = []") (auto simp: getline_last getline_def [of "stream_of []"])
  qed
qed

lemma getline_bad: "getline \<lparr>in_buf = b, in_good = False\<rparr> = (None, \<lparr>in_buf = b, in_good = False\<rparr>)"
  by (simp add: getline_def)

section \<open>The listening side\<close>

definition line_end_checker :: "string \<Rightarrow> nat \<times> bool" where
  "line_end_checker s =
     (let i = length (takeWhile (\<lambda>c. \<not> is_line_end c) s) in (i, i \<noteq> length s))"

lemma line_end_checker_matches [simp]: "snd (line_end_checker s) \<longleftrightarrow> (\<exists>c\<in>set s. is_line_end c)"
proof -
  have "length (takeWhile (\<lambda>c. \<not> is_line_end c) s) = length s \<longleftrightarrow> takeWhile (\<lambda>c. \<not> is_line_end c) s = s"
    by (metis takeWhile_eq_take take_all_iff order_refl)
  then show ?thesis by (auto simp: line_end_checker_def Let_def takeWhile_eq_all_conv)
qed

type_synonym 's read_until = "(string \<Rightarrow> nat \<times> bool) \<Rightarrow> 's \<Rightarrow> string \<Rightarrow> bool \<times> 's \<times> string"

partial_function (option) util_read ::
    "'s read_until \<Rightarrow> 's \<Rightarrow> in_stream \<Rightarrow> string \<Rightarrow> string option" where
  "util_read read_until socket stream out =
     (case read_until line_end_checker socket (in_buf stream) of
        (ok, socket', buf) \<Rightarrow>
          if \<not> ok then Some out
          else (case getline (stream\<lparr>in_buf := buf\<rparr>) of
                  (None, _) \<Rightarrow> Some out
                | (Some line, stream') \<Rightarrow> util_read read_until socket' stream' (out @ line @ [newline])))"

text \<open>The endless loop over the accepted sockets, as far as they have arrived; a failing \<open>accept\<close> throws.\<close>

fun accept_loop :: "'s read_until \<Rightarrow> 's result list \<Rightarrow> string \<Rightarrow> (unit result \<times> string) option" where
  "accept_loop read_until [] out = Some (Inr (), out)"
| "accept_loop read_until (Inl e # accepts) out = Some (Inl e, out)"
| "accept_loop read_until (Inr socket # accepts) out =
     Option.bind (util_read read_until socket (stream_of []) out) (accept_loop read_until accepts)"

definition start_read ::
    "(string \<Rightarrow> unit result) \<Rightarrow> 's read_until \<Rightarrow> 's result list \<Rightarrow> string \<Rightarrow> (unit result \<times> string) option" where
  "start_read listening read_until accepts path =
     (case listening path of Inl e \<Rightarrow> Some (Inl e, []) | Inr _ \<Rightarrow> accept_loop read_until accepts [])"

section \<open>The writing side\<close>

function write_lines :: "(string \<Rightarrow> 's \<Rightarrow> 's result) \<Rightarrow> in_stream \<Rightarrow> 's \<Rightarrow> 's result" where
  "write_lines put input socket =
     (case getline input of
        (None, _) \<Rightarrow> Inr socket
      | (Some line, input') \<Rightarrow>
          (case put (line @ [newline]) socket of
             Inl e \<Rightarrow> Inl e
           | Inr socket' \<Rightarrow> write_lines put input' socket'))"
  by pat_completeness auto
termination
  by (relation "measure (\<lambda>(_, input, _). length (in_buf input))") (auto dest: getline_shrinks [OF sym])

declare write_lines.simps [simp del]

definition start_write ::
    "(string \<Rightarrow> 's result) \<Rightarrow> (string \<Rightarrow> 's \<Rightarrow> 's result) \<Rightarrow> string \<Rightarrow> string \<Rightarrow> 's result" where
  "start_write connect put input path =
     bind_result (connect path) (write_lines put (stream_of input))"

section \<open>The main function\<close>

datatype util_command = Print_help | Write_to string | Listen_on string | Bad_usage

text \<open>The loop over the two arguments: the flag and the path.\<close>

fun listen_args :: "string list \<Rightarrow> bool \<times> string \<Rightarrow> bool \<times> string" where
  "listen_args [] st = st"
| "listen_args (arg # args) (listening, path) =
     listen_args args
       (if arg = ''--listen'' then (True, path)
        else if has_prefix ''--path='' arg then (listening, drop 7 arg)
        else (listening, path))"

definition util_args :: "string list \<Rightarrow> util_command" where
  "util_args args =
     (if length args = 1 \<and> hd args = ''--help'' then Print_help
      else if length args = 1 \<and> has_prefix ''--path='' (hd args) then Write_to (drop 7 (hd args))
      else if length args = 2
      then (case listen_args args (False, []) of
              (listening, path) \<Rightarrow> if listening \<and> path \<noteq> [] then Listen_on path else Bad_usage)
      else Bad_usage)"

record 's util_env =
  ue_input :: string
  ue_connect :: "string \<Rightarrow> 's result"
  ue_put :: "string \<Rightarrow> 's \<Rightarrow> 's result"
  ue_listen :: "string \<Rightarrow> unit result"
  ue_accepts :: "'s result list"
  ue_read_until :: "'s read_until"

definition exit_code :: "'a result \<Rightarrow> nat" where
  "exit_code r = (case r of Inl e \<Rightarrow> 1 | Inr _ \<Rightarrow> 0)"

definition print_usage :: string where
  "print_usage = ''Usage: xiva-util --help | [--listen] --path=<path to unix socket>'' @ [newline]"

text \<open>The exit code (none while the client still listens) and the standard output.\<close>

definition util_main :: "'s util_env \<Rightarrow> string list \<Rightarrow> (nat option \<times> string) option" where
  "util_main ue args =
     (case util_args args of
        Print_help \<Rightarrow> Some (Some 0, print_usage)
      | Write_to path \<Rightarrow> Some (Some (exit_code (start_write (ue_connect ue) (ue_put ue) (ue_input ue) path)), [])
      | Listen_on path \<Rightarrow>
          map_option (\<lambda>(r, out). (case r of Inl e \<Rightarrow> Some 1 | Inr _ \<Rightarrow> None, out))
            (start_read (ue_listen ue) (ue_read_until ue) (ue_accepts ue) path)
      | Bad_usage \<Rightarrow> Some (Some 1, []))"

section \<open>What the client does\<close>

text \<open>The documented behaviour of \<open>read_until\<close>: the bytes the socket delivers are appended to the
  buffer, and it fails only when the match condition does not hold and nothing is left to deliver.\<close>

definition reads_until :: "'s read_until \<Rightarrow> ('s \<Rightarrow> string) \<Rightarrow> bool" where
  "reads_until read_until pending \<longleftrightarrow>
     (\<forall>cond socket buf. case read_until cond socket buf of (ok, socket', buf') \<Rightarrow>
        (\<exists>delivered. pending socket = delivered @ pending socket' \<and> buf' = buf @ delivered) \<and>
        (ok \<longleftrightarrow> snd (cond buf')) \<and> (\<not> ok \<longrightarrow> pending socket' = []))"

lemma reads_untilE:
  assumes "reads_until read_until pending" "read_until cond socket buf = (ok, socket', buf')"
  obtains delivered where "pending socket = delivered @ pending socket'" "buf' = buf @ delivered"
    "ok \<longleftrightarrow> snd (cond buf')" "\<not> ok \<Longrightarrow> pending socket' = []"
proof -
  have "case read_until cond socket buf of (ok, socket', buf') \<Rightarrow>
        (\<exists>delivered. pending socket = delivered @ pending socket' \<and> buf' = buf @ delivered) \<and>
        (ok \<longleftrightarrow> snd (cond buf')) \<and> (\<not> ok \<longrightarrow> pending socket' = [])"
    using assms(1) unfolding reads_until_def by (elim allE)
  then show ?thesis using that unfolding assms(2) prod.case by blast
qed

abbreviation text_of_lines :: "string list \<Rightarrow> string" where
  "text_of_lines lines \<equiv> concat (map (\<lambda>l. l @ [newline]) lines)"

abbreviation plain_lines :: "string list \<Rightarrow> bool" where
  "plain_lines lines \<equiv> (\<forall>l\<in>set lines. \<forall>c\<in>set l. is_not_line_end c)"

lemma plain_newline: "\<forall>c\<in>set l. is_not_line_end c \<Longrightarrow> newline \<notin> set l"
  by (auto simp: is_not_line_end_def is_line_end_def)

lemma write_lines_all:
  "plain_lines lines \<Longrightarrow> write_lines (\<lambda>b s. Inr (s @ b)) (stream_of (text_of_lines lines)) sent = Inr (sent @ text_of_lines lines)"
proof (induction lines arbitrary: sent)
  case Nil
  then show ?case by (subst write_lines.simps) (simp add: getline_def)
next
  case (Cons l ls)
  then have "getline (stream_of (text_of_lines (l # ls))) = (Some l, stream_of (text_of_lines ls))"
    using getline_line [OF plain_newline, of l "text_of_lines ls"] by simp
  then show ?case using Cons by (subst write_lines.simps) simp
qed

text \<open>The first line of a text is complete in every prefix that holds a line end.\<close>

lemma first_line_in_prefix:
  assumes "b @ p = l @ newline # rest" "\<forall>c\<in>set l. is_not_line_end c" "\<exists>c\<in>set b. is_line_end c"
  shows "\<exists>b'. b = l @ newline # b' \<and> b' @ p = rest"
proof -
  from assms(1) consider u where "b = l @ u" "u @ p = newline # rest" | u where "l = b @ u"
    by (metis append_eq_append_conv2)
  then show ?thesis
  proof cases
    case 1
    then have "u \<noteq> []" using assms(2,3) by (auto simp: is_not_line_end_def)
    with 1 show ?thesis by (cases u) auto
  next
    case 2
    then show ?thesis using assms(2,3) by (auto simp: is_not_line_end_def)
  qed
qed

lemma util_read_plain:
  assumes ru: "reads_until ru pending" and "plain_lines lines" "b @ pending s = text_of_lines lines"
  shows "util_read ru s (stream_of b) out = Some (out @ text_of_lines lines)"
  using assms(2,3)
proof (induction lines arbitrary: s b out)
  case Nil
  obtain ok s' b' where r: "ru line_end_checker s b = (ok, s', b')" by (metis prod_cases3)
  obtain d where "pending s = d @ pending s'" "b' = b @ d" "ok \<longleftrightarrow> (\<exists>c\<in>set b'. is_line_end c)"
    by (rule reads_untilE [OF ru r]) simp
  with Nil have "\<not> ok" by simp
  then show ?case by (subst util_read.simps) (simp add: r)
next
  case (Cons l ls)
  obtain ok s' b' where r: "ru line_end_checker s b = (ok, s', b')" by (metis prod_cases3)
  obtain d where d: "pending s = d @ pending s'" "b' = b @ d" "ok \<longleftrightarrow> (\<exists>c\<in>set b'. is_line_end c)" "\<not> ok \<Longrightarrow> pending s' = []"
    by (rule reads_untilE [OF ru r]) simp
  have all: "b' @ pending s' = l @ newline # text_of_lines ls" using d Cons.prems by simp
  have ok: ok
  proof (rule ccontr)
    assume "\<not> ok"
    with d(4) all have "b' = l @ newline # text_of_lines ls" by simp
    then have "newline \<in> set b'" by simp
    with d(3) \<open>\<not> ok\<close> show False by (auto simp: is_line_end_def)
  qed
  then obtain b'' where b'': "b' = l @ newline # b''" "b'' @ pending s' = text_of_lines ls"
    using first_line_in_prefix [OF all] d Cons.prems by auto
  have "getline (stream_of b') = (Some l, stream_of b'')"
    unfolding b'' using Cons.prems by (intro getline_line plain_newline) simp
  then show ?case using Cons.IH [OF _ b''(2), of "out @ l @ [newline]"] Cons.prems ok
    by (subst util_read.simps) (simp add: r)
qed

text \<open>A socket that delivers packet after packet.\<close>

fun packet_read_until :: "string list read_until" where
  "packet_read_until cond [] buf = (snd (cond buf), [], buf)"
| "packet_read_until cond (p # ps) buf =
     (if snd (cond buf) then (True, p # ps, buf) else packet_read_until cond ps (buf @ p))"

lemma packet_reads_until: "reads_until packet_read_until concat"
proof -
  have "case packet_read_until cond socket buf of (ok, socket', buf') \<Rightarrow>
        (\<exists>delivered. concat socket = delivered @ concat socket' \<and> buf' = buf @ delivered) \<and>
        (ok \<longleftrightarrow> snd (cond buf')) \<and> (\<not> ok \<longrightarrow> concat socket' = [])" for cond socket buf
    by (induction cond socket buf rule: packet_read_until.induct) (auto split: prod.splits if_splits)
  then show ?thesis by (simp add: reads_until_def)
qed

lemma util_copies_lines:
  assumes "reads_until ru pending" "plain_lines lines"
    "start_write (\<lambda>path. Inr []) (\<lambda>b s. Inr (s @ b)) (text_of_lines lines) path = Inr sent" "pending s = sent"
  shows "start_read (\<lambda>path. Inr ()) ru [Inr s] path = Some (Inr (), text_of_lines lines)"
proof -
  from assms(2,3) have "sent = text_of_lines lines"
    by (simp add: start_write_def write_lines_all)
  with assms have "util_read ru s (stream_of []) [] = Some (text_of_lines lines)"
    using util_read_plain [OF assms(1,2), of "[]" s "[]"] by simp
  then show ?thesis by (simp add: start_read_def)
qed

lemma util_crlf_split_stops:
  assumes "\<forall>c\<in>set l. is_not_line_end c"
  shows "util_read packet_read_until ((l @ [CHR 0x0D]) # rest) (stream_of []) [] = Some (l @ [CHR 0x0D, newline])"
proof -
  let ?l = "l @ [CHR 0x0D]"
  have l: "newline \<notin> set ?l" using plain_newline [OF assms] by simp
  have le: "is_line_end (CHR 0x0D)" by (simp add: is_line_end_def)
  have "packet_read_until line_end_checker (?l # rest) [] = (True, rest, ?l)"
    using le by (cases rest) auto
  moreover have "getline (stream_of ?l) = (Some ?l, \<lparr>in_buf = [], in_good = False\<rparr>)"
    by (rule getline_last [OF l]) simp
  ultimately have 1: "util_read packet_read_until (?l # rest) (stream_of []) [] =
      util_read packet_read_until rest \<lparr>in_buf = [], in_good = False\<rparr> (?l @ [newline])"
    by (subst util_read.simps) simp
  obtain ok s' b' where r: "packet_read_until line_end_checker rest [] = (ok, s', b')" by (metis prod_cases3)
  show ?thesis unfolding 1 by (subst util_read.simps) (simp add: r getline_bad)
qed

lemma has_prefix_iff: "has_prefix p s \<longleftrightarrow> s = p @ drop (length p) s"
proof
  assume "has_prefix p s"
  then show "s = p @ drop (length p) s" unfolding has_prefix_def by (metis append_take_drop_id)
next
  assume "s = p @ drop (length p) s"
  then have "take (length p) s = take (length p) (p @ drop (length p) s)" by (rule arg_cong)
  then show "has_prefix p s" by (simp add: has_prefix_def)
qed

lemma path_arg: "has_prefix ''--path='' arg \<Longrightarrow> arg = ''--path='' @ drop 7 arg"
proof -
  assume "has_prefix ''--path='' arg"
  moreover have "length ''--path='' = 7" by simp
  ultimately show ?thesis unfolding has_prefix_iff [of "''--path=''" arg] by (simp only:)
qed

lemma flag_no_path: "\<not> has_prefix ''--path='' ''--listen''"
  by (simp add: has_prefix_def)

lemma has_prefix_append [simp]: "has_prefix p (p @ s)"
  by (simp add: has_prefix_def)

lemma listen_args_two:
  assumes "listen_args [a, b] (False, []) = (True, path)" "path \<noteq> []"
  shows "a = ''--listen'' \<and> b = ''--path='' @ path \<or> a = ''--path='' @ path \<and> b = ''--listen''"
proof (cases "a = ''--listen''")
  case True
  with assms have "has_prefix ''--path='' b \<and> path = drop 7 b"
    by (simp only: listen_args.simps) (simp split: if_splits)
  with True path_arg [of b] show ?thesis by blast
next
  case False
  with assms have "b = ''--listen'' \<and> has_prefix ''--path='' a \<and> path = drop 7 a"
    by (simp only: listen_args.simps) (simp split: if_splits)
  with path_arg [of a] show ?thesis by blast
qed

lemma listen_args_both:
  "listen_args [''--listen'', ''--path='' @ path] (False, []) = (True, path)"
  "listen_args [''--path='' @ path, ''--listen''] (False, []) = (True, path)"
  by (simp_all add: has_prefix_def)

text \<open>The client listens exactly when one of the two arguments is the flag and the other a path.\<close>

lemma util_listens_iff:
  "util_args args = Listen_on path \<longleftrightarrow>
     path \<noteq> [] \<and> (args = [''--listen'', ''--path='' @ path] \<or> args = [''--path='' @ path, ''--listen''])"
proof
  assume l: "util_args args = Listen_on path"
  then have two: "length args = 2" by (simp add: util_args_def split: if_splits)
  then obtain a b where args: "args = [a, b]"
    by (auto simp: numeral_2_eq_2 length_Suc_conv)
  obtain listening p where r: "listen_args [a, b] (False, []) = (listening, p)" by fastforce
  with l two have "listening" "p = path" "path \<noteq> []"
    by (auto simp: util_args_def args split: if_splits simp del: listen_args.simps)
  with listen_args_two [of a b path] r args
  show "path \<noteq> [] \<and> (args = [''--listen'', ''--path='' @ path] \<or> args = [''--path='' @ path, ''--listen''])"
    by (simp del: listen_args.simps append_Cons)
next
  assume "path \<noteq> [] \<and> (args = [''--listen'', ''--path='' @ path] \<or> args = [''--path='' @ path, ''--listen''])"
  then show "util_args args = Listen_on path"
    by (auto simp: util_args_def listen_args_both simp del: listen_args.simps append_Cons)
qed

end
