(* ===== verification/Xml.thy ===== *)
theory Xml
  imports Settings
begin

text \<open>
  The wrappers of libxml2 (\<open>daemon/xml.hpp\<close>, \<open>daemon/xml.cpp\<close>): the texts of nodes and attributes, and the
  document of theory \<open>Settings\<close> read through them. Of libxml2 itself the model has the parsed nodes:
  an element or attribute is known by its children, a child by whether it is a text and by its content.
\<close>

type_synonym xml_children = "(bool \<times> string option) list"

record xml_node =
  xn_children :: xml_children
  xn_attrs :: "(string \<times> xml_children) list"

text \<open>Only the first child counts.\<close>

definition text_value :: "xml_children \<Rightarrow> string option" where
  "text_value children =
     (case children of [] \<Rightarrow> None | (is_text, content) # _ \<Rightarrow> if is_text then content else None)"

definition attr_value :: "xml_node \<Rightarrow> string \<Rightarrow> string option" where
  "attr_value node name = (case map_of (xn_attrs node) name of None \<Rightarrow> None | Some attr \<Rightarrow> text_value attr)"

text \<open>\<open>throw_unless\<close>; the last error of libxml2 may have a text.\<close>

definition xml_throw_unless :: "string option \<Rightarrow> bool \<Rightarrow> unit result" where
  "xml_throw_unless last_error condition =
     (if condition then Inr ()
      else Inl (xiva_error_of [] (case last_error of None \<Rightarrow> ''unknown XML error'' | Some m \<Rightarrow> m)))"

text \<open>What libxml2 gives: whether there is a root, the outcome of including, the node set of an
  expression (no object when it cannot be evaluated, no set when it selects no nodes at all).\<close>

record libxml_doc =
  lx_root :: bool
  lx_include :: int
  lx_eval :: "string \<Rightarrow> xml_node list option option"
  lx_error :: "string option"

definition node_set :: "libxml_doc \<Rightarrow> string \<Rightarrow> xml_node list option result" where
  "node_set d name = bind_result (xml_throw_unless (lx_error d) (lx_eval d name \<noteq> None))
     (\<lambda>_. Inr (Option.bind (lx_eval d name) id))"

definition read_document :: "string \<Rightarrow> libxml_doc \<Rightarrow> xml_doc" where
  "read_document package d = \<lparr>xd_root = lx_root d, xd_included = (0 \<le> lx_include d),
     xd_eval = (\<lambda>name. bind_result (node_set d name)
       (\<lambda>ns. Inr (map_option (map (\<lambda>node. text_value (xn_children node))) ns))),
     xd_variables = bind_result (node_set d (''/'' @ package @ ''/variables/variable''))
       (\<lambda>ns. Inr (map_option (map (\<lambda>node. (text_value (xn_children node), attr_value node ''name''))) ns))\<rparr>"

section \<open>What is read from a document\<close>

definition variable_node :: "string \<times> string \<Rightarrow> xml_node" where
  "variable_node p = \<lparr>xn_children = [(True, Some (snd p))], xn_attrs = [(''name'', [(True, Some (fst p))])]\<rparr>"

lemma variables_read:
  assumes "lx_eval d (''/'' @ package @ ''/variables/variable'') = Some (Some (map variable_node vs))"
  shows "find_variables (read_document package d) = find_variables_loop (map (\<lambda>p. (Some (snd p), Some (fst p))) vs) []"
  using assms
  by (simp add: find_variables_def read_document_def node_set_def xml_throw_unless_def variable_node_def
      text_value_def attr_value_def comp_def)

lemma value_read:
  assumes "xs_doc s = read_document package d" "lx_eval d name = Some (Some (node # nodes))"
  shows "xml_value s name = substitute (case text_value (xn_children node) of Some v \<Rightarrow> v | None \<Rightarrow> []) (xs_vars s)"
  using assms by (simp add: xml_value_def read_document_def node_set_def xml_throw_unless_def)

text \<open>A value behind a comment or a processing instruction is read as the empty string, with no error.\<close>

lemma comment_hides_value:
  assumes "xs_doc s = read_document package d" "lx_eval d name = Some (Some (node # nodes))"
    "xn_children node = (False, content) # children"
  shows "xml_value s name = Inr []"
proof -
  have "find_begin [] = None" by code_simp
  then show ?thesis using value_read [OF assms(1,2)] assms(3)
    by (simp add: text_value_def substitute.simps)
qed

lemma empty_set_fails:
  assumes "xs_doc s = read_document package d" "lx_eval d name = Some None \<or> lx_eval d name = Some (Some [])"
  shows "xml_value s name = Inl (xiva_error_of ''nonexistent config param: '' name)"
  using assms by (auto simp: xml_value_def read_document_def node_set_def xml_throw_unless_def)

end
