(* ===== verification/Connection_Wire.thy ===== *)
theory Connection_Wire
  imports Connection_Runs
begin

text \<open>
  What a connection puts on the wire. The specification is one function: \<open>print_all\<close> prints the messages
  that were handed to the connection one after the other. The theory relates it to every run: the
  writes of messages that have completed, followed by the one that is outstanding, are what
  \<open>print_all\<close> gives for the messages taken off the list of the connection, in order, none lost,
  doubled or run together with another, and only the last write of a run can fail.
\<close>

section \<open>The specification\<close>

fun print_all :: "message list \<Rightarrow> connection_base \<Rightarrow> (string list \<times> connection_base) option" where
  "print_all [] cb = Some ([], cb)"
| "print_all (m # ms) cb =
     (case print_message m cb of
        Inl _ \<Rightarrow> None
      | Inr ((out, printed), cb') \<Rightarrow>
          map_option (\<lambda>(outs, cb''). (if printed then out # outs else outs, cb'')) (print_all ms cb'))"

lemma print_all_snoc:
  "print_all ms cb = Some (outs, cb1) \<Longrightarrow> print_message m cb1 = Inr ((out, p), cb2) \<Longrightarrow>
   print_all (ms @ [m]) cb = Some (if p then outs @ [out] else outs, cb2)"
proof (induction ms arbitrary: cb outs)
  case (Cons a ms)
  then obtain o1 p1 cb' outs' where a: "print_message a cb = Inr ((o1, p1), cb')" "print_all ms cb' = Some (outs', cb1)"
    "outs = (if p1 then o1 # outs' else outs')"
    by (auto split: sum.splits prod.splits)
  with Cons.IH [OF a(2) Cons.prems(2)] show ?case by simp
qed simp

section \<open>What an event hands over and completes\<close>

text \<open>\<open>None\<close> is the end of the messages, which the finish of the manager hands over.\<close>

definition handed :: "conn_event \<Rightarrow> ctx \<Rightarrow> message option list" where
  "handed ev x =
     (case ev of
        Ce_send m \<Rightarrow> [Some m]
      | Ce_shutdown \<Rightarrow> if registered (c_id (x_conn x)) (x_man x) then [None] else []
      | _ \<Rightarrow> [])"

text \<open>A write that completes, and whether it has succeeded.\<close>

definition written :: "conn_event \<Rightarrow> ctx \<Rightarrow> (io_op \<times> bool) list" where
  "written ev x = (case ev of Ce_written k code \<Rightarrow> [(c_pending (x_conn x) ! k, \<not> code)] | _ \<Rightarrow> [])"

definition message_text :: "io_op \<Rightarrow> string list" where
  "message_text op = (case op of Io_write w h \<Rightarrow> if h = W_message then [w] else [] | _ \<Rightarrow> [])"

definition message_texts :: "io_op list \<Rightarrow> string list" where
  "message_texts ops = concat (map message_text ops)"

lemma message_text_simps [simp]:
  "message_text (Io_write w h) = (if h = W_message then [w] else [])" "message_text Io_handshake = []"
  "message_text Io_read_request = []" "message_text Io_read_some = []"
  by (simp_all add: message_text_def)

lemma message_texts_simps [simp]:
  "message_texts [] = []" "message_texts (op # ops) = message_text op @ message_texts ops"
  "message_texts (ops @ ops') = message_texts ops @ message_texts ops'"
  by (simp_all add: message_texts_def)

lemma message_texts_writes: "message_texts (filter is_write ops) = message_texts ops"
proof (induction ops)
  case (Cons op ops)
  then show ?case by (cases op) auto
qed simp

lemma no_writes_no_texts: "writes c = [] \<Longrightarrow> message_texts (c_pending c) = []"
  using message_texts_writes [of "c_pending c"] by (simp add: writes_def)

lemma no_write_pending: "writes c = [] \<Longrightarrow> Io_write w h \<notin> set (c_pending c)"
  by (auto simp: writes_def filter_empty_conv)

section \<open>The invariant of the served connection\<close>

text \<open>\<open>H\<close> is what has been handed over and \<open>S\<close> the texts of the message writes that have completed.\<close>

definition printed :: "message option list \<Rightarrow> string list \<Rightarrow> conn \<Rightarrow> bool" where
  "printed H S c \<longleftrightarrow> (\<exists>taken cb. H = map Some taken @ c_messages c \<and>
     print_all taken cb = Some (S @ message_texts (c_pending c), c_base c))"

definition out_ok :: "conn \<Rightarrow> bool" where
  "out_ok c \<longleftrightarrow> (\<forall>w h. Io_write w h \<in> set (c_pending c) \<longrightarrow> c_out c = w)"

definition wire_base :: "message option list \<Rightarrow> string list \<Rightarrow> ctx \<Rightarrow> bool" where
  "wire_base H S x \<longleftrightarrow> printed H S (x_conn x) \<and> out_ok (x_conn x)"

definition wire_idle :: "message option list \<Rightarrow> string list \<Rightarrow> ctx \<Rightarrow> bool" where
  "wire_idle H S x \<longleftrightarrow> printed H S (x_conn x) \<and> writes (x_conn x) = [] \<and>
     (c_connected (x_conn x) \<longrightarrow> c_out (x_conn x) = [])"

definition wire_ok :: "message option list \<Rightarrow> string list \<Rightarrow> ctx \<Rightarrow> bool" where
  "wire_ok H S x \<longleftrightarrow> wire_base H S x \<and>
     (c_connected (x_conn x) \<and> writes (x_conn x) = [] \<longrightarrow> c_out (x_conn x) = [])"

lemma printed_same:
  "printed H S c \<Longrightarrow> c_messages c' = c_messages c \<Longrightarrow> c_base c' = c_base c \<Longrightarrow>
   message_texts (c_pending c') = message_texts (c_pending c) \<Longrightarrow> printed H S c'"
  by (simp add: printed_def)

lemma cleanup_out [simp]: "c_out (x_conn (cleanup e x)) = c_out (x_conn x)"
  by (simp add: cleanup_def Let_def)

lemma send_out_out [simp]: "c_out (send_out out h c) = c_out c @ out"
  by (simp add: send_out_def setup_timeout_def timer_start_def async_write_def async_op_def)

lemma wire_idle_base: "wire_idle H S x \<Longrightarrow> wire_base H S x"
  by (simp add: wire_idle_def wire_base_def out_ok_def no_write_pending)

lemma wire_same:
  assumes "c_messages (x_conn y) = c_messages (x_conn x)" "c_base (x_conn y) = c_base (x_conn x)"
    "c_pending (x_conn y) = c_pending (x_conn x)" "c_out (x_conn y) = c_out (x_conn x)"
    "c_connected (x_conn y) \<longrightarrow> c_connected (x_conn x)"
  shows "wire_idle H S x \<Longrightarrow> wire_idle H S y" "wire_base H S x \<Longrightarrow> wire_base H S y" "wire_ok H S x \<Longrightarrow> wire_ok H S y"
  using assms by (auto simp: wire_idle_def wire_base_def wire_ok_def out_ok_def writes_def printed_def)

lemma taken_drop:
  assumes "printed H S c" "c_messages c = Some msg # rest" "print_message msg (c_base c) = Inr ((out, p), cb)" "writes c = []"
    "c_messages c' = rest" "c_base c' = cb" "message_texts (c_pending c') = (if p then [out] else [])"
  shows "printed H S c'"
proof -
  obtain taken cb0 where t: "H = map Some taken @ c_messages c" "print_all taken cb0 = Some (S, c_base c)"
    using assms(1,4) by (auto simp: printed_def no_writes_no_texts)
  from print_all_snoc [OF t(2) assms(3)] t(1) assms show ?thesis
    unfolding printed_def by (intro exI [of _ "taken @ [msg]"] exI [of _ cb0]) simp
qed

lemma drop_message_sel [simp]:
  "c_messages (x_conn (drop_message cb x)) = tl (c_messages (x_conn x))" "c_base (x_conn (drop_message cb x)) = cb"
  "c_pending (x_conn (drop_message cb x)) = c_pending (x_conn x)" "c_out (x_conn (drop_message cb x)) = c_out (x_conn x)"
  "c_connected (x_conn (drop_message cb x)) = c_connected (x_conn x)"
  by (simp_all add: drop_message_def timer_cancel_def)

lemma start_write_sel [simp]:
  "c_messages (x_conn (start_write h out x)) = c_messages (x_conn x)" "c_base (x_conn (start_write h out x)) = c_base (x_conn x)"
  "c_pending (x_conn (start_write h out x)) = c_pending (x_conn x) @ [Io_write (c_out (x_conn x) @ out) h]"
  "c_out (x_conn (start_write h out x)) = c_out (x_conn x) @ out"
  "c_connected (x_conn (start_write h out x)) = c_connected (x_conn x)"
  by (simp_all add: start_write_def)

interpretation wire: write_rules False "wire_base H S" "wire_idle H S" "wire_ok H S"
proof
  fix x :: ctx and cb :: connection_base and h :: write_handler and th :: timer_handler
    and t :: int and out :: string and b :: bool and msg :: message and rest :: "message option list"
  show "wire_idle H S x \<Longrightarrow> wire_base H S x" by (rule wire_idle_base)
  show "wire_base H S x \<Longrightarrow> wire_ok H S (cleanup e x)" for e
    by (auto simp: wire_ok_def wire_base_def out_ok_def elim: printed_same)
  show "wire_idle H S x \<Longrightarrow> \<not> c_connected (x_conn x) \<Longrightarrow> wire_ok H S x"
    by (simp add: wire_ok_def wire_idle_base)
  show "wire_idle H S x \<Longrightarrow> wire_idle H S (until t x)" by (rule wire_same) (simp_all add: until_def)
  show "wire_idle H S x \<Longrightarrow> wire_idle H S (on_conn timer_cancel x)" by (rule wire_same) simp_all
  show "wire_idle H S x \<Longrightarrow> wire_base H S (on_conn (\<lambda>c. c\<lparr>c_out := out\<rparr>) x)"
    by (auto simp: wire_idle_def wire_base_def out_ok_def no_write_pending elim: printed_same)
  show "wire_idle H S x \<Longrightarrow> wire_idle H S (on_conn (\<lambda>c. c\<lparr>c_disable_ping := True\<rparr>) x)" by (rule wire_same) simp_all
  show "wire_idle H S x \<Longrightarrow> wire_idle H S (assertion b x)" by (rule wire_same) (simp_all add: assertion_def)
  show "wire_idle H S (drop_message cb x)"
    if "wire_idle H S x" "c_messages (x_conn x) = Some msg # rest"
      "print_message msg (c_base (x_conn x)) = Inr ((out, False), cb)"
    using that taken_drop [OF _ that(2,3), of H S "x_conn (drop_message cb x)"]
    by (simp add: wire_idle_def writes_def) (simp add: no_writes_no_texts writes_def)
  show "wire_ok H S (start_write W_message out (drop_message cb x))"
    if "wire_idle H S x" "c_connected (x_conn x)" "c_messages (x_conn x) = Some msg # rest"
      "print_message msg (c_base (x_conn x)) = Inr ((out, True), cb)"
  proof -
    have w: "writes (x_conn x) = []" "c_out (x_conn x) = []" using that(1,2) by (simp_all add: wire_idle_def)
    with that taken_drop [OF _ that(3,4), of H S "x_conn (start_write W_message out (drop_message cb x))"]
      no_write_pending [OF w(1)] no_writes_no_texts [OF w(1)]
    show ?thesis by (auto simp: wire_idle_def wire_ok_def wire_base_def out_ok_def writes_def)
  qed
  show "wire_ok H S (start_write h out x)" if "wire_idle H S x" "h = W_ping \<or> h = W_cleanup"
    using that no_write_pending [of "x_conn x"]
    by (auto simp: wire_idle_def wire_ok_def wire_base_def out_ok_def writes_def elim!: printed_same)
  show "wire_ok H S (on_conn (timer_start th) x)" if "wire_idle H S x"
    using that wire_idle_base [OF that]
    by (auto simp: wire_idle_def wire_ok_def wire_base_def out_ok_def writes_def timer_start_def elim!: printed_same)
qed

section \<open>The events of the second phase\<close>

lemma wire_ok_base: "wire_ok H S x \<Longrightarrow> wire_base H S x"
  by (simp add: wire_ok_def)

text \<open>Handing over a message, or the end of the messages.\<close>

lemma wire_send:
  assumes "wire_ok H S x" "\<not> c_writing_message (x_conn x) \<and> c_connected (x_conn x) \<longrightarrow> writes (x_conn x) = []"
  shows "wire_ok (H @ [m]) S (send e m x)"
proof -
  let ?x1 = "on_conn (\<lambda>c. c\<lparr>c_messages := c_messages c @ [m]\<rparr>) x"
  have "printed (H @ [m]) S (x_conn ?x1)" using assms(1) by (auto simp: wire_ok_def wire_base_def printed_def)
  then have ok: "wire_ok (H @ [m]) S ?x1"
    using assms(1) by (simp add: wire_ok_def wire_base_def out_ok_def writes_def)
  show ?thesis
  proof (cases "\<not> c_writing_message (x_conn ?x1) \<and> c_connected (x_conn ?x1)")
    case True
    with assms(2) ok have "wire_idle (H @ [m]) S ?x1" by (simp add: wire_idle_def wire_ok_def wire_base_def writes_def)
    with True show ?thesis by (simp add: send_def wire.write_message_ok)
  next
    case False
    with ok show ?thesis by (auto simp: send_def Let_def)
  qed
qed

text \<open>The state in which the completion of the only write finds the connection.\<close>

lemma only_write:
  assumes "length (writes c) \<le> 1" "k < length (c_pending c)" "c_pending c ! k = Io_write w h"
  shows "filter is_write (take k (c_pending c) @ drop (Suc k) (c_pending c)) = []"
    "message_texts (c_pending c) = message_text (Io_write w h)"
    "message_texts (take k (c_pending c) @ drop (Suc k) (c_pending c)) = []"
proof -
  let ?rest = "take k (c_pending c) @ drop (Suc k) (c_pending c)"
  show r: "filter is_write ?rest = []"
    using writes_completed(1) [OF assms(2,3)] assms(1) by (simp add: writes_def)
  show "message_texts ?rest = []" using message_texts_writes [of ?rest] r by simp
  have "filter is_write (c_pending c) = filter is_write (take k (c_pending c)) @ [Io_write w h] @ filter is_write (drop (Suc k) (c_pending c))"
    using id_take_nth_drop [OF assms(2)] assms(3) by (metis filter.simps(2) filter_append is_write.simps(1) append_Cons append_Nil)
  with r have "filter is_write (c_pending c) = [Io_write w h]" by simp
  then show "message_texts (c_pending c) = message_text (Io_write w h)"
    using message_texts_writes [of "c_pending c"] by simp
qed

lemma wire_written:
  assumes ok: "wire_ok H S x" and one: "length (writes (x_conn x)) \<le> 1"
    and k: "k < length (c_pending (x_conn x))" "c_pending (x_conn x) ! k = Io_write w h"
  shows "wire_ok (H @ handed (Ce_written k code) x) (S @ message_texts (map fst (written (Ce_written k code) x)))
    (run_write_handler e h code (completed k (if code then c_out (x_conn x) else drop (length w) (c_out (x_conn x))) x))"
proof -
  let ?y = "completed k (if code then c_out (x_conn x) else drop (length w) (c_out (x_conn x))) x"
  let ?S = "S @ message_text (Io_write w h)"
  note only = only_write [OF one k]
  have out: "c_out (x_conn x) = w"
    using ok nth_mem [OF k(1)] k(2) by (auto simp: wire_ok_def wire_base_def out_ok_def)
  have y: "c_messages (x_conn ?y) = c_messages (x_conn x)" "c_base (x_conn ?y) = c_base (x_conn x)"
    "writes (x_conn ?y) = []" "message_texts (c_pending (x_conn ?y)) = []" "\<not> code \<Longrightarrow> c_out (x_conn ?y) = []"
    using only out by (simp_all add: completed_def writes_def)
  have p: "printed H ?S (x_conn ?y)"
    using ok only(2) y by (auto simp: wire_ok_def wire_base_def printed_def)
  then have base: "wire_base H ?S (on_conn g ?y)"
    if "c_messages (g (x_conn ?y)) = c_messages (x_conn ?y)" "c_base (g (x_conn ?y)) = c_base (x_conn ?y)"
      "c_pending (g (x_conn ?y)) = c_pending (x_conn ?y)" for g
    using that y(3) by (auto simp: wire_base_def out_ok_def no_write_pending writes_def printed_def)
  have idle: "wire_idle H ?S z"
    if "c_messages (x_conn z) = c_messages (x_conn ?y)" "c_base (x_conn z) = c_base (x_conn ?y)"
      "filter is_write (c_pending (x_conn z)) = []" "c_out (x_conn z) = []" for z
    using that y p message_texts_writes [of "c_pending (x_conn z)"]
    by (auto simp: wire_idle_def writes_def elim!: printed_same)
  have none: "filter is_write (c_pending (x_conn ?y)) = []" using y(3) by (simp add: writes_def)
  have cancel: "wire_base H ?S (on_conn timer_cancel ?y)" "wire_base H ?S (on_conn (\<lambda>c. (timer_cancel c)\<lparr>c_writing_message := False\<rparr>) ?y)"
    "wire_base H ?S ?y"
    using base [of timer_cancel] base [of "\<lambda>c. (timer_cancel c)\<lparr>c_writing_message := False\<rparr>"] base [of id]
    by (simp_all add: on_conn_def)
  have h: "handed (Ce_written k code) x = []" "message_texts (map fst (written (Ce_written k code) x)) = message_text (Io_write w h)"
    by (simp_all add: handed_def written_def k(2))
  have "wire_ok H ?S (run_write_handler e h code ?y)"
  proof (cases h)
    case W_headers
    have "wire_idle H ?S (read_some e (on_conn (\<lambda>c. c\<lparr>c_connected := True\<rparr>) (on_conn timer_cancel ?y)))" if "\<not> code"
      by (rule idle) (use y(5) [OF that] none in \<open>simp_all add: read_some_def async_op_def\<close>)
    moreover have "wire_ok H ?S (on_conn timer_cancel ?y)" if "\<not> code"
    proof -
      have "wire_idle H ?S (on_conn timer_cancel ?y)" by (rule idle) (use y(5) [OF that] none in simp_all)
      then show ?thesis using y(5) [OF that] by (simp add: wire_ok_def wire_idle_base)
    qed
    ultimately show ?thesis using W_headers wire.base_cleanup [OF cancel(1)]
      by (auto simp: run_write_handler_def handle_write_headers_def Let_def handle_error_def wire.write_oks)
  next
    case W_message
    have "wire_idle H ?S (on_conn (\<lambda>c. (timer_cancel c)\<lparr>c_writing_message := False\<rparr>) ?y)" if "\<not> code"
      by (rule idle) (use y(5) [OF that] none in simp_all)
    with W_message wire.base_cleanup [OF cancel(2)] show ?thesis
      by (auto simp: run_write_handler_def handle_write_message_def Let_def handle_error_def wire.write_oks)
  next
    case W_ping
    have "wire_idle H ?S (on_conn (\<lambda>c. (timer_cancel c)\<lparr>c_writing_message := False\<rparr>) ?y)" if "\<not> code"
      by (rule idle) (use y(5) [OF that] none in simp_all)
    then have "wire_idle H ?S (assertion b (on_conn (\<lambda>c. (timer_cancel c)\<lparr>c_writing_message := False\<rparr>) ?y))" if "\<not> code" for b
      using that wire.idle_assertion by blast
    with W_ping wire.base_cleanup [OF cancel(2)] show ?thesis
      by (auto simp: run_write_handler_def handle_write_ping_message_def Let_def handle_error_def wire.write_oks)
  next
    case W_cleanup
    with wire.base_cleanup [OF cancel(3)] show ?thesis by (simp add: run_write_handler_def handle_cleanup_def)
  qed
  then show ?thesis unfolding h by simp
qed

text \<open>Changes that leave the messages, the output and the writes alone.\<close>

lemma wire_side:
  assumes "wire_ok H S x" "c_messages (x_conn y) = c_messages (x_conn x)" "c_base (x_conn y) = c_base (x_conn x)"
    "filter is_write (c_pending (x_conn y)) = writes (x_conn x)" "c_out (x_conn y) = c_out (x_conn x)"
    "c_connected (x_conn y) = c_connected (x_conn x)"
  shows "wire_ok H S y"
proof -
  have out: "out_ok c \<longleftrightarrow> (\<forall>w h. Io_write w h \<in> set (writes c) \<longrightarrow> c_out c = w)" for c
    by (simp add: out_ok_def writes_def)
  have w: "writes (x_conn y) = writes (x_conn x)" using assms(4) by (simp add: writes_def)
  have "message_texts (c_pending (x_conn y)) = message_texts (c_pending (x_conn x))"
    using message_texts_writes [of "c_pending (x_conn x)"] message_texts_writes [of "c_pending (x_conn y)"] w
    by (simp add: writes_def)
  with assms w show ?thesis by (simp add: wire_ok_def wire_base_def out printed_def)
qed

lemma writes_remove [simp]: "\<not> is_write op \<Longrightarrow> filter is_write (remove1 op ops) = filter is_write ops"
  by (induction ops) auto

lemma wire_timer:
  assumes ok: "wire_ok H S x" and inv: "inv_ok True False x" and h: "c_timer (x_conn x) = Some h"
  shows "wire_ok H S (run_timer_handler e h False (on_conn (\<lambda>c. c\<lparr>c_timer := None\<rparr>) x))"
proof -
  let ?y = "on_conn (\<lambda>c. c\<lparr>c_timer := None\<rparr>) x"
  have y: "wire_ok H S ?y" by (rule wire_side [OF ok]) (simp_all add: writes_def)
  have idle: "wire_idle H S ?y" if "h \<noteq> T_timeout"
  proof -
    have "writes (x_conn x) = []" using inv h that by (cases h) (auto simp: inv_ok_def write_ok_def)
    with y show ?thesis by (simp add: wire_idle_def wire_ok_def wire_base_def writes_def)
  qed
  show ?thesis
    using wire.base_cleanup [OF wire_ok_base [OF y]] idle wire.idle_assertion [OF idle]
    by (cases h) (simp_all add: run_timer_handler_def handle_timeout_def handle_ping_def Let_def wire.write_oks)
qed

lemma wire_ready:
  assumes ok: "wire_ok H S x" and inv: "inv_ok True False x" and r: "c_ready (x_conn x) = (h, code) # hs"
  shows "wire_ok H S (run_timer_handler e h code (on_conn (\<lambda>c. c\<lparr>c_ready := hs\<rparr>) x))"
proof -
  have "wire_ok H S (on_conn (\<lambda>c. c\<lparr>c_ready := hs\<rparr>) x)" by (rule wire_side [OF ok]) (simp_all add: writes_def)
  moreover from this have "wire_ok H S (assertion b (on_conn (\<lambda>c. c\<lparr>c_ready := hs\<rparr>) x))" for b
    by (rule wire_side) (simp_all add: assertion_def writes_def)
  moreover have code using inv r by (auto simp: inv_ok_def write_ok_def write_base_def aborted_def)
  ultimately show ?thesis
    by (cases h) (simp_all add: run_timer_handler_def handle_timeout_def handle_ping_def handle_inactive_timeout_def)
qed

lemma wire_served_step:
  assumes ok: "wire_ok H S x" and inv: "inv_ok True False x" and ev: "ev \<noteq> Ce_expires"
    and step: "conn_step e ev x = Some x'"
  shows "wire_ok (H @ handed ev x) (S @ message_texts (map fst (written ev x))) x'"
proof -
  have nf: "\<not> cm_failed (x_man x)" using step by (auto simp: conn_step_def Let_def)
  have served: "\<not> early (x_conn x)" "asked x = 0" and one: "length (writes (x_conn x)) \<le> 1"
    and flag: "\<not> c_writing_message (x_conn x) \<and> c_connected (x_conn x) \<longrightarrow> writes (x_conn x) = []"
    using inv by (auto simp: inv_ok_def served_def write_ok_def write_base_def)
  have other: "handed ev x = [] \<and> written ev x = []" if "\<forall>m. ev \<noteq> Ce_send m" "ev \<noteq> Ce_shutdown" "\<forall>k code. ev \<noteq> Ce_written k code"
    using that by (cases ev) (auto simp: handed_def written_def)
  have none: "wire_ok H S x'" if "handed ev x = [] \<and> written ev x = []"
  proof (cases ev)
    case (Ce_some code data)
    let ?y = "on_conn (\<lambda>c. c\<lparr>c_pending := remove1 Io_read_some (c_pending c), c_in := c_in c @ data\<rparr>) x"
    have y: "wire_ok H S (on_conn timer_cancel ?y)" by (rule wire_side [OF ok]) (simp_all add: writes_def)
    moreover have "wire_ok H S (read_some e (on_conn timer_cancel ?y))"
      by (rule wire_side [OF y]) (simp_all add: read_some_def writes_def async_op_def)
    ultimately show ?thesis using Ce_some step nf wire.base_cleanup [OF wire_ok_base [OF y]]
      by (auto simp: conn_step_def Let_def handle_read_some_def handle_error_def split: if_splits)
  next
    case Ce_timer
    with step nf wire_timer [OF ok inv] show ?thesis by (auto simp: conn_step_def Let_def split: option.splits)
  next
    case Ce_ready
    with step nf obtain h code hs where r: "c_ready (x_conn x) = (h, code) # hs"
      "x' = run_timer_handler e h code (on_conn (\<lambda>c. c\<lparr>c_ready := hs\<rparr>) x)"
      by (auto simp: conn_step_def Let_def split: list.splits prod.splits)
    show ?thesis using wire_ready [OF ok inv r(1)] r(2) by simp
  next
    case Ce_close
    with step nf wire.base_cleanup [OF wire_ok_base [OF ok]] show ?thesis
      by (auto simp: conn_step_def Let_def close_connection_def split: if_splits)
  next
    case Ce_shutdown
    with step nf that have "x' = x\<lparr>x_man := (x_man x)\<lparr>cm_finished := True, cm_connections := []\<rparr>\<rparr>"
      by (auto simp: conn_step_def Let_def handed_def split: if_splits)
    with ok show ?thesis by - (rule wire_side [OF ok], simp_all add: writes_def)
  next
    case (Ce_others m')
    with step nf have "x' = x\<lparr>x_man := m'\<lparr>cm_listeners := cm_listeners (x_man x)\<rparr>\<rparr>"
      by (auto simp: conn_step_def Let_def split: if_splits)
    with ok show ?thesis by - (rule wire_side [OF ok], simp_all add: writes_def)
  qed (use that ev step nf served in \<open>auto simp: conn_step_def Let_def early_def asked_def handed_def written_def
      split: if_splits list.splits\<close>)
  have sent: "wire_ok (H @ handed ev x) (S @ message_texts (map fst (written ev x))) x'" if "ev = Ce_send m" for m
    using that step nf wire_send [OF ok flag, of "Some m" e]
    by (auto simp: conn_step_def Let_def handed_def written_def split: if_splits)
  have shut: "wire_ok (H @ handed ev x) (S @ message_texts (map fst (written ev x))) x'"
    if "ev = Ce_shutdown" "handed ev x \<noteq> []"
  proof -
    let ?x1 = "x\<lparr>x_man := (x_man x)\<lparr>cm_finished := True, cm_connections := []\<rparr>\<rparr>"
    have reg: "registered (c_id (x_conn x)) (x_man x)" using that by (auto simp: handed_def split: if_splits)
    have "wire_ok H S ?x1" by (rule wire_side [OF ok]) (simp_all add: writes_def)
    then have "wire_ok (H @ [None]) S (finish e ?x1)" using flag by (simp add: finish_def wire_send)
    from wire.base_cleanup [OF wire_ok_base [OF this], of e] show ?thesis
      using that(1) step nf reg by (auto simp: conn_step_def Let_def close_connection_def handed_def written_def split: if_splits)
  qed
  have wrote: "wire_ok (H @ handed ev x) (S @ message_texts (map fst (written ev x))) x'" if e: "ev = Ce_written k code" for k code
  proof -
    from e step nf obtain w h where k: "k < length (c_pending (x_conn x))" "c_pending (x_conn x) ! k = Io_write w h"
      "x' = run_write_handler e h code (completed k
        (if code then c_out (x_conn x) else drop (length w) (c_out (x_conn x))) x)"
      by (auto simp: conn_step_def Let_def completed_def on_conn_def split: if_splits io_op.splits)
    show ?thesis unfolding e k(3) by (rule wire_written [OF ok one k(1,2)])
  qed
  show ?thesis
  proof (cases "handed ev x = [] \<and> written ev x = []")
    case True
    with none show ?thesis by simp
  next
    case False
    then consider m where "ev = Ce_send m" | "ev = Ce_shutdown" | k code where "ev = Ce_written k code"
      using other by blast
    then show ?thesis
    proof cases
      case 2
      with False shut show ?thesis by (simp add: written_def)
    qed (use sent wrote in blast)+
  qed
qed

section \<open>The first phase\<close>

text \<open>Until the request is answered nothing is printed; the answer is not a message.\<close>

definition unanswered :: "message option list \<Rightarrow> ctx \<Rightarrow> bool" where
  "unanswered H x \<longleftrightarrow> c_messages (x_conn x) = H \<and> \<not> c_connected (x_conn x) \<and> writes (x_conn x) = [] \<and> c_out (x_conn x) = []"

definition first_write :: "message option list \<Rightarrow> ctx \<Rightarrow> bool" where
  "first_write H x \<longleftrightarrow> c_messages (x_conn x) = H \<and> \<not> c_connected (x_conn x) \<and>
     (writes (x_conn x) = [] \<and> c_out (x_conn x) = [] \<or>
      (\<exists>w h. writes (x_conn x) = [Io_write w h] \<and> c_out (x_conn x) = w \<and> h \<noteq> W_message))"

lemma unanswered_first: "unanswered H x \<Longrightarrow> first_write H x"
  by (simp add: unanswered_def first_write_def)

lemma unanswered_same:
  "unanswered H x \<Longrightarrow> c_messages (x_conn y) = c_messages (x_conn x) \<Longrightarrow> c_connected (x_conn y) = c_connected (x_conn x) \<Longrightarrow>
   filter is_write (c_pending (x_conn y)) = writes (x_conn x) \<Longrightarrow> c_out (x_conn y) = c_out (x_conn x) \<Longrightarrow> unanswered H y"
  by (simp add: unanswered_def writes_def)

lemma unanswered_cleanup: "unanswered H x \<Longrightarrow> unanswered H (cleanup e x)"
  by (simp add: unanswered_def writes_def)

lemma unanswered_send: "unanswered H x \<Longrightarrow> h \<noteq> W_message \<Longrightarrow> first_write H (on_conn (send_out out h) x)"
  by (simp add: unanswered_def first_write_def writes_def)

lemma unanswered_closes: "unanswered H x \<Longrightarrow> closes (first_write H) e x"
  using unanswered_cleanup [of H x e] unanswered_send [of H x W_cleanup]
  by (auto simp: closes_def unanswered_first) (simp add: unanswered_def first_write_def writes_def)

lemma answering_more [simp]: "c_out (x_conn (answering base s d x)) = c_out (x_conn x)"
  by (simp add: answering_def)

lemma unanswered_answering: "unanswered H x \<Longrightarrow> unanswered H ((answering base s d x)\<lparr>x_man := m\<rparr>)"
  by (erule unanswered_same) (simp_all add: writes_def)

lemma handled_first:
  assumes u: "unanswered H x"
  shows "first_write H (handled e req resp x)"
proof (rule handled_rule [of x "first_write H"])
  fix base s d m err y
  have a: "unanswered H ((answering base s d x)\<lparr>x_man := m\<rparr>)" by (rule unanswered_answering [OF u])
  show "closes (first_write H) e (answering base s d x)"
    by (rule unanswered_closes) (rule unanswered_same [OF u], simp_all add: writes_def)
  show "closes (first_write H) e ((answering base s d x)\<lparr>x_man := m\<rparr>)" "closes (first_write H) e ((answering base s d x)\<lparr>x_man := m\<rparr>)"
    by (rule unanswered_closes [OF a])+
  assume y: "y = on_conn (\<lambda>c. c\<lparr>c_managed := True\<rparr>) ((answering base s d x)\<lparr>x_man := m\<rparr>)"
  have "unanswered H y" unfolding y by (rule unanswered_same [OF a]) (simp_all add: writes_def)
  then show "closes (first_write H) e y \<and> (\<forall>out. first_write H (on_conn (send_out out W_headers) y))"
    by (simp add: unanswered_closes unanswered_send)
qed

lemma handled_errors_first: "unanswered H x \<Longrightarrow> first_write H (handled_errors e code msg x)"
  by (rule handled_errors_rule, rule unanswered_closes, erule unanswered_same) (simp_all add: writes_def)

lemma invoke_first:
  assumes u: "unanswered H x" and inv: "invoke e req resp x = (r, x')"
  shows "unanswered H x' \<or> r = Inr () \<and> first_write H x'"
proof (cases "rh_threaded (e_handler e)")
  case True
  then obtain q where "x' = x\<lparr>x_queue := q\<rparr>" using inv by (auto simp: invoke_def split: prod.splits)
  with unanswered_same [OF u, of x'] show ?thesis by (simp add: writes_def)
next
  case False
  have n: "unanswered H (on_conn (\<lambda>c. c\<lparr>c_base := set_name receiver (c_base c)\<rparr>) x)" for receiver
    by (rule unanswered_same [OF u]) (simp_all add: writes_def)
  show ?thesis
    using inv False u n handled_first [OF n] unfolding invoke_def invoke_handler_def Let_def
    by (auto split: sum.splits bool.splits)
qed

lemma read_request_first:
  assumes u: "unanswered H x"
  shows "first_write H (handle_read_request e code x)"
proof -
  let ?x1 = "on_conn timer_cancel x"
  have side: "unanswered H (on_conn g ?x1)"
    if "c_messages (g (x_conn ?x1)) = c_messages (x_conn ?x1)" "c_connected (g (x_conn ?x1)) = c_connected (x_conn ?x1)"
      "c_pending (g (x_conn ?x1)) = c_pending (x_conn ?x1)" "c_out (g (x_conn ?x1)) = c_out (x_conn ?x1)" for g
    by (rule unanswered_same [OF u]) (use that in \<open>simp_all add: writes_def\<close>)
  have u1: "unanswered H ?x1" by (rule unanswered_same [OF u]) (simp_all add: writes_def)
  have closed: "first_write H (cleanup e y)" "first_write H (dispatch_error e err y)"
      "first_write H (write_http_error e hc y)" "first_write H (parse_failed e err y)" "first_write H (write_policy_data e y)"
    if "unanswered H y" for y err hc
    using unanswered_closes [OF that, of e] closes_http [OF unanswered_closes [OF that]]
      closes_dispatch [OF unanswered_closes [OF that]] write_policy_data_rule [of "first_write H" e y]
    by (auto simp: closes_def parse_failed_def split: xiva_error.splits)
  have run: "first_write H (case invoke e req resp (on_conn (\<lambda>c. c\<lparr>c_base := base\<rparr>) ?x1) of
      (Inl err, x2) \<Rightarrow> dispatch_error e err x2 | (Inr _, x2) \<Rightarrow> x2)" for req resp base
  proof -
    obtain r x2 where i: "invoke e req resp (on_conn (\<lambda>c. c\<lparr>c_base := base\<rparr>) ?x1) = (r, x2)" by fastforce
    from invoke_first [OF side i] show ?thesis by (auto simp: i closed unanswered_first split: sum.splits)
  qed
  have "first_write H (parse_failed e err (on_conn (\<lambda>c. c\<lparr>c_base := base\<rparr>) ?x1))"
    "first_write H (write_policy_data e (on_conn (\<lambda>c. c\<lparr>c_is_policy := True\<rparr>) ?x1))" for err base
    by (intro closed side; simp)+
  with closed [OF u1] run show ?thesis
    unfolding handle_read_request_def Let_def handle_error_def handle_exception_def
    by (simp split: sum.splits prod.splits)
qed

lemma answer_first:
  assumes u: "unanswered H x"
  shows "first_write H (run_answer e h x)"
proof -
  obtain h' name where p: "process_request exception_what (e_handler e) h = (h', name)" by fastforce
  define x1 where "x1 = (case name of None \<Rightarrow> x
    | Some receiver \<Rightarrow> on_conn (\<lambda>c. c\<lparr>c_base := set_name receiver (c_base c)\<rparr>) x)"
  have "unanswered H x1"
    by (rule unanswered_same [OF u]) (simp_all add: x1_def writes_def split: option.splits)
  then have "first_write H (handled e req resp x1)" "first_write H (handled_errors e code msg x1)" for req resp code msg
    by (rule handled_first handled_errors_first)+
  then show ?thesis
    unfolding run_answer_def p prod.case Let_def x1_def [symmetric]
    by (simp only: simp_thms split: answer.split)
qed

section \<open>The events of the first phase\<close>

lemma waiting_no_writes: "waiting n a x \<Longrightarrow> writes (x_conn x) = []"
  by (auto simp: waiting_def writes_def)

lemma waiting_not_served: "waiting n a x \<Longrightarrow> \<not> served x"
  by (auto simp: waiting_def served_def early_def)

lemma unanswered_append: "unanswered H x \<Longrightarrow> unanswered (H @ [m]) (send e m x)"
  by (simp add: unanswered_def send_def Let_def writes_def)

lemma waiting_first_step:
  assumes w: "waiting True False x" and u: "unanswered H x" and ev: "ev \<noteq> Ce_expires"
    and step: "conn_step e ev x = Some x'"
  shows "first_write (H @ handed ev x) x' \<and> written ev x = []"
proof -
  have nf: "\<not> cm_failed (x_man x)" using step by (auto simp: conn_step_def Let_def)
  have ops: "set (c_pending (x_conn x)) \<subseteq> {Io_handshake, Io_read_request}"
    using w by (auto simp: waiting_def)
  have side: "unanswered H y"
    if "c_messages (x_conn y) = c_messages (x_conn x)" "c_connected (x_conn y) = c_connected (x_conn x)"
      "filter is_write (c_pending (x_conn y)) = filter is_write (c_pending (x_conn x))" "c_out (x_conn y) = c_out (x_conn x)" for y
    by (rule unanswered_same [OF u]) (use that in \<open>simp_all add: writes_def\<close>)
  have clean: "first_write H (cleanup e y)" if "unanswered H y" for y H
    by (rule unanswered_first) (rule unanswered_cleanup [OF that])
  show ?thesis
  proof (cases ev)
    case (Ce_handshake code)
    let ?y = "on_conn (\<lambda>c. c\<lparr>c_pending := remove1 Io_handshake (c_pending c)\<rparr>) x"
    have "unanswered H (on_conn timer_cancel ?y)" "unanswered H (read_request e (on_conn timer_cancel ?y))"
      by (rule side; simp add: read_request_def setup_timeout_def timer_start_def async_op_def)+
    with Ce_handshake step nf clean show ?thesis
      by (auto simp: conn_step_def Let_def handle_handshake_def handle_error_def handed_def written_def unanswered_first
          split: if_splits)
  next
    case (Ce_request code data)
    have "unanswered H (on_conn (\<lambda>c. c\<lparr>c_pending := remove1 Io_read_request (c_pending c), c_in := c_in c @ data\<rparr>) x)"
      by (rule side) simp_all
    with Ce_request step nf read_request_first show ?thesis
      by (auto simp: conn_step_def Let_def handed_def written_def split: if_splits)
  next
    case (Ce_some code data)
    with step nf ops show ?thesis by (auto simp: conn_step_def Let_def split: if_splits)
  next
    case (Ce_written k code)
    with step nf obtain v h where "k < length (c_pending (x_conn x))" "c_pending (x_conn x) ! k = Io_write v h"
      by (auto simp: conn_step_def Let_def split: if_splits io_op.splits)
    with nth_mem [of k "c_pending (x_conn x)"] ops show ?thesis by auto
  next
    case Ce_timer
    with step nf obtain h where h: "c_timer (x_conn x) = Some h"
      "x' = run_timer_handler e h False (on_conn (\<lambda>c. c\<lparr>c_timer := None\<rparr>) x)"
      by (auto simp: conn_step_def Let_def split: option.splits)
    have "unanswered H (on_conn (\<lambda>c. c\<lparr>c_timer := None\<rparr>) x)" by (rule side) simp_all
    with clean Ce_timer show ?thesis
      by (simp add: h(2) waiting_timer(1) [OF w h(1)] run_timer_handler_def handle_timeout_def handed_def written_def)
  next
    case Ce_ready
    with step nf obtain h code hs where r: "c_ready (x_conn x) = (h, code) # hs"
      "x' = run_timer_handler e h code (on_conn (\<lambda>c. c\<lparr>c_ready := hs\<rparr>) x)"
      by (auto simp: conn_step_def Let_def split: list.splits prod.splits)
    have "unanswered H (on_conn (\<lambda>c. c\<lparr>c_ready := hs\<rparr>) x)" by (rule side) simp_all
    with clean Ce_ready show ?thesis
      by (simp add: r(2) waiting_ready(1) [OF w r(1)] run_timer_handler_def handle_timeout_def handed_def written_def
          unanswered_first)
  next
    case (Ce_send m)
    with step nf unanswered_append [OF u] show ?thesis
      by (auto simp: conn_step_def Let_def handed_def written_def unanswered_first split: if_splits)
  next
    case Ce_close
    with step nf clean [OF u] show ?thesis
      by (auto simp: conn_step_def Let_def close_connection_def handed_def written_def split: if_splits)
  next
    case Ce_shutdown
    have f: "unanswered H (x\<lparr>x_man := (x_man x)\<lparr>cm_finished := True, cm_connections := []\<rparr>\<rparr>)"
      by (rule side) simp_all
    from Ce_shutdown step nf f clean [OF unanswered_append [OF f, of None e]] show ?thesis
      by (auto simp: conn_step_def Let_def close_connection_def finish_def handed_def written_def unanswered_first split: if_splits)
  next
    case Ce_answer
    with step nf obtain h q where "x' = run_answer e h (x\<lparr>x_queue := (x_queue x)\<lparr>tq_items := q\<rparr>\<rparr>)"
      by (auto simp: conn_step_def Let_def split: list.splits prod.splits if_splits)
    moreover have "unanswered H (x\<lparr>x_queue := (x_queue x)\<lparr>tq_items := q\<rparr>\<rparr>)" for q by (rule side) simp_all
    ultimately show ?thesis using Ce_answer answer_first by (simp add: handed_def written_def)
  next
    case (Ce_others m')
    have "unanswered H (x\<lparr>x_man := m'\<lparr>cm_listeners := cm_listeners (x_man x)\<rparr>\<rparr>)" by (rule side) simp_all
    with Ce_others step nf show ?thesis
      by (auto simp: conn_step_def Let_def handed_def written_def unanswered_first split: if_splits)
  qed (use ev in simp)
qed

section \<open>All runs\<close>

definition wire_state :: "message option list \<Rightarrow> string list \<Rightarrow> ctx \<Rightarrow> bool" where
  "wire_state H S x \<longleftrightarrow> (if served x then wire_ok H S x else unanswered H x \<and> S = [])"

definition wire_inv :: "message option list \<Rightarrow> string list \<Rightarrow> ctx \<Rightarrow> bool" where
  "wire_inv H S x \<longleftrightarrow> conn_inv True False x \<and> wire_state H S x"

lemma first_wire_inv:
  assumes inv: "conn_inv True False x" and f: "first_write H x"
  shows "wire_inv H [] x"
proof (cases "served x")
  case True
  have "message_texts (c_pending (x_conn x)) = []"
    using f message_texts_writes [of "c_pending (x_conn x)"] by (auto simp: first_write_def writes_def)
  then have "printed H [] (x_conn x)" using f
    unfolding printed_def by (intro exI [of _ "[]"] exI [of _ "c_base (x_conn x)"]) (simp add: first_write_def)
  moreover have "Io_write w h \<in> set (c_pending (x_conn x)) \<Longrightarrow> Io_write w h \<in> set (writes (x_conn x))" for w h
    by (simp add: writes_def)
  then have "out_ok (x_conn x)" using f by (fastforce simp: out_ok_def first_write_def)
  ultimately show ?thesis using True f inv by (simp add: wire_inv_def wire_state_def wire_ok_def wire_base_def first_write_def)
next
  case False
  then have "waiting True False x" using inv by (auto simp: conn_inv_def inv_ok_def)
  with waiting_no_writes f have "unanswered H x" by (fastforce simp: unanswered_def first_write_def)
  with False inv show ?thesis by (simp add: wire_inv_def wire_state_def)
qed

lemma wire_inv_step:
  assumes inv: "wire_inv H S x" and ev: "ev \<noteq> Ce_expires" and step: "conn_step e ev x = Some x'"
  shows "wire_inv (H @ handed ev x) (S @ message_texts (map fst (written ev x))) x'"
proof (cases "inv_ok True False x")
  case True
  then have "served x" by (simp add: inv_ok_def)
  with inv have w: "wire_ok H S x" by (simp add: wire_inv_def wire_state_def)
  have "wire_ok (H @ handed ev x) (S @ message_texts (map fst (written ev x))) x'"
    by (rule wire_served_step [OF w True ev step])
  moreover have "inv_ok True False x'" by (rule served_keeps [OF True _ step]) (use ev in simp)
  ultimately show ?thesis by (simp add: wire_inv_def wire_state_def conn_inv_def) (simp add: inv_ok_def)
next
  case False
  with inv have w: "waiting True False x" by (simp add: wire_inv_def wire_state_def conn_inv_def)
  with inv waiting_not_served have u: "unanswered H x" "S = []" by (simp_all add: wire_inv_def wire_state_def)
  have "conn_inv True False x'" by (rule waiting_step_inv [OF w _ step]) (use ev in simp)
  with waiting_first_step [OF w u(1) ev step] show ?thesis by (simp add: u(2) first_wire_inv)
qed

lemma start_first:
  assumes "unanswered H x"
  shows "first_write H (start e addr x)"
proof -
  have "unanswered H (cleanup e x)" by (rule unanswered_cleanup [OF assms])
  moreover have "unanswered H (handshake e (on_conn (\<lambda>c. c\<lparr>c_addr := a\<rparr>) x))" for a
    by (rule unanswered_same [OF assms])
      (simp_all add: handshake_def read_request_def setup_timeout_def writes_def timer_start_def async_op_def)
  ultimately show ?thesis
    by (auto simp: start_def handle_exception_def unanswered_first split: option.splits)
qed

text \<open>What \<open>printed\<close> says of the first phase as well.\<close>

lemma wire_state_printed: "wire_state H S x \<Longrightarrow> printed H S (x_conn x)"
  using no_writes_no_texts [of "x_conn x"] unfolding printed_def
  by (cases "served x") (auto simp: wire_state_def wire_ok_def wire_base_def printed_def unanswered_def intro!: exI [of _ "[]"])

text \<open>After a failed write the connection is dead: it writes nothing any more.\<close>

definition dead :: "ctx \<Rightarrow> bool" where
  "dead x \<longleftrightarrow> inv_ok True False x \<and> \<not> c_connected (x_conn x) \<and> writes (x_conn x) = [] \<and> c_timer (x_conn x) = None"

lemma dead_cleanup: "inv_ok True False (cleanup e x) \<Longrightarrow> writes (x_conn x) = [] \<Longrightarrow> dead (cleanup e x)"
  by (simp add: dead_def writes_def)

lemma failed_dead:
  assumes inv: "inv_ok True False x" and step: "conn_step e (Ce_written k True) x = Some x'"
  shows "dead x'"
proof -
  have nf: "\<not> cm_failed (x_man x)" using step by (auto simp: conn_step_def Let_def)
  from step nf obtain w h where k: "k < length (c_pending (x_conn x))" "c_pending (x_conn x) ! k = Io_write w h"
    "x' = run_write_handler e h True (completed k (c_out (x_conn x)) x)"
    by (auto simp: conn_step_def Let_def completed_def on_conn_def split: if_splits io_op.splits)
  have one: "length (writes (x_conn x)) \<le> 1" using inv by (simp add: inv_ok_def write_ok_def write_base_def)
  have x': "inv_ok True False x'" by (rule served_keeps [OF inv _ step]) simp
  have "\<exists>y. x' = cleanup e y \<and> writes (x_conn y) = []"
    using only_write(1) [OF one k(1,2)] unfolding k(3)
    by (cases h) (auto simp: run_write_handler_def handle_write_headers_def handle_write_message_def
      handle_write_ping_message_def handle_cleanup_def handle_error_def Let_def completed_def writes_def)
  with x' dead_cleanup show ?thesis by auto
qed

lemma dead_step:
  assumes d: "dead x" and ev: "ev \<noteq> Ce_expires" and step: "conn_step e ev x = Some x'"
  shows "dead x' \<and> written ev x = []"
proof -
  have inv: "inv_ok True False x" using d by (simp add: dead_def)
  have nf: "\<not> cm_failed (x_man x)" using step by (auto simp: conn_step_def Let_def)
  have served: "\<not> early (x_conn x)" "asked x = 0" and ab: "aborted (x_conn x)"
    using inv by (auto simp: inv_ok_def served_def write_ok_def write_base_def)
  have x': "inv_ok True False x'" by (rule served_keeps [OF inv _ step]) (use ev in simp)
  have send: "send e m y = on_conn (\<lambda>c. c\<lparr>c_messages := c_messages c @ [m]\<rparr>) y" if "\<not> c_connected (x_conn y)" for m y
    using that by (simp add: send_def)
  have "\<not> c_connected (x_conn x') \<and> writes (x_conn x') = [] \<and> c_timer (x_conn x') = None \<and> written ev x = []"
  proof (cases ev)
    case (Ce_written k code)
    with step nf obtain w h where "k < length (c_pending (x_conn x))" "c_pending (x_conn x) ! k = Io_write w h"
      by (auto simp: conn_step_def Let_def split: if_splits io_op.splits)
    then have "Io_write w h \<in> set (c_pending (x_conn x))" by (metis nth_mem)
    with d no_write_pending show ?thesis by (auto simp: dead_def)
  next
    case Ce_ready
    with step nf obtain h code hs where r: "c_ready (x_conn x) = (h, code) # hs"
      "x' = run_timer_handler e h code (on_conn (\<lambda>c. c\<lparr>c_ready := hs\<rparr>) x)"
      by (auto simp: conn_step_def Let_def split: list.splits prod.splits)
    then have code using ab by (auto simp: aborted_def)
    with d r(2) Ce_ready show ?thesis
      by (cases h) (auto simp: dead_def run_timer_handler_def handle_timeout_def handle_ping_def Let_def
        handle_inactive_timeout_def assertion_def writes_def written_def)
  qed (use d step nf ev served send in \<open>auto simp: dead_def conn_step_def Let_def early_def asked_def written_def writes_def
      handle_read_some_def handle_error_def close_connection_def read_some_def finish_def split: if_splits list.splits option.splits\<close>)
  with x' show ?thesis by (simp add: dead_def)
qed

text \<open>What a run hands over and completes.\<close>

fun run_log :: "(env \<times> conn_event) list \<Rightarrow> ctx \<Rightarrow> message option list \<times> (io_op \<times> bool) list" where
  "run_log [] x = ([], [])"
| "run_log ((e, ev) # evs) x =
     (case conn_step e ev x of
        None \<Rightarrow> ([], [])
      | Some y \<Rightarrow> (case run_log evs y of (hs, ws) \<Rightarrow> (handed ev x @ hs, written ev x @ ws)))"

lemma run_log_Cons:
  "conn_step e ev x = Some y \<Longrightarrow> fst (run_log ((e, ev) # evs) x) = handed ev x @ fst (run_log evs y)"
  "conn_step e ev x = Some y \<Longrightarrow> snd (run_log ((e, ev) # evs) x) = written ev x @ snd (run_log evs y)"
  by (simp_all split: prod.split)

lemma run_Cons:
  assumes "conn_run (p # evs) x = Some x'" "timely (p # evs)"
  obtains e ev y where "p = (e, ev)" "conn_step e ev x = Some y" "conn_run evs y = Some x'" "ev \<noteq> Ce_expires" "timely evs"
  using assms by (cases p) (auto simp: timely_def split: Option.bind_splits)

lemma wire_run:
  assumes "conn_run evs x = Some x'" "timely evs" "wire_inv H S x"
  shows "wire_inv (H @ fst (run_log evs x)) (S @ message_texts (map fst (snd (run_log evs x)))) x'"
  using assms
proof (induction evs arbitrary: x H S)
  case (Cons p evs)
  from run_Cons [OF Cons.prems(1,2)] obtain e ev y where y: "p = (e, ev)" "conn_step e ev x = Some y" "conn_run evs y = Some x'"
    "ev \<noteq> Ce_expires" "timely evs" .
  from Cons.IH [OF y(3,5) wire_inv_step [OF Cons.prems(3) y(4,2)]] show ?case
    by (simp add: y(1) run_log_Cons [OF y(2)] del: run_log.simps)
qed simp

lemma dead_run:
  assumes "conn_run evs x = Some x'" "timely evs" "dead x"
  shows "snd (run_log evs x) = [] \<and> dead x'"
  using assms
proof (induction evs arbitrary: x)
  case (Cons p evs)
  from run_Cons [OF Cons.prems(1,2)] obtain e ev y where y: "p = (e, ev)" "conn_step e ev x = Some y" "conn_run evs y = Some x'"
    "ev \<noteq> Ce_expires" "timely evs" .
  from Cons.IH [OF y(3,5)] dead_step [OF Cons.prems(3) y(4,2)] show ?case
    by (simp add: y(1) run_log_Cons [OF y(2)] del: run_log.simps)
qed simp

text \<open>Only the last write of a run can fail, and then the connection is dead.\<close>

lemma failing_run:
  assumes "conn_run evs x = Some x'" "timely evs" "conn_inv True False x"
  shows "(\<forall>p\<in>set (butlast (snd (run_log evs x))). snd p) \<and> ((\<exists>p\<in>set (snd (run_log evs x)). \<not> snd p) \<longrightarrow> dead x')"
  using assms
proof (induction evs arbitrary: x)
  case (Cons p evs)
  from run_Cons [OF Cons.prems(1,2)] obtain e ev y where y: "p = (e, ev)" "conn_step e ev x = Some y" "conn_run evs y = Some x'"
    "ev \<noteq> Ce_expires" "timely evs" .
  have "conn_inv True False y"
    using Cons.prems(3) served_step [OF _ _ y(2)] waiting_step_inv [OF _ _ y(2)] y(4) by (auto simp: conn_inv_def)
  note IH = Cons.IH [OF y(3,5) this]
  show ?case
  proof (cases "\<exists>k. ev = Ce_written k True")
    case True
    then obtain k where k: "ev = Ce_written k True" by blast
    have "\<not> waiting True False x"
      using k y(2) by (auto simp: conn_step_def Let_def waiting_def nth_Cons' split: if_splits io_op.splits)
    with Cons.prems(3) have "inv_ok True False x" by (simp add: conn_inv_def)
    from failed_dead [OF this y(2) [unfolded k]] have d: "dead y" .
    from dead_run [OF y(3,5) d] show ?thesis
      unfolding y(1) run_log_Cons [OF y(2)] by (simp add: k written_def)
  next
    case False
    then have "\<forall>p\<in>set (written ev x). snd p" by (cases ev) (auto simp: written_def)
    moreover have "written ev x = [] \<or> (\<exists>p. written ev x = [p])" by (cases ev) (auto simp: written_def)
    ultimately show ?thesis using IH
      by (auto simp: y(1) run_log_Cons [OF y(2)] simp del: run_log.simps split: if_splits)
  qed
qed simp

section \<open>Properties\<close>

lemma on_wire:
  assumes "conn_run evs (accepted e cid addr m) = Some x" "timely evs"
    "run_log evs (accepted e cid addr m) = (hs, ws)"
  shows "(\<exists>taken cb. hs = map Some taken @ c_messages (x_conn x) \<and>
      print_all taken cb = Some (message_texts (map fst ws @ c_pending (x_conn x)), c_base (x_conn x))) \<and>
    (\<forall>p\<in>set (butlast ws). snd p)"
proof -
  let ?x0 = "accepted e cid addr m"
  have inv: "conn_inv True False ?x0" by (rule conn_inv_accepted) simp
  have "first_write [] ?x0"
    unfolding accepted_def by (rule start_first) (simp add: unanswered_def conn_init_def writes_def)
  from wire_run [OF assms(1,2) first_wire_inv [OF inv this]]
  have "printed hs (message_texts (map fst ws)) (x_conn x)"
    using assms(3) by (simp add: wire_inv_def wire_state_printed)
  with failing_run [OF assms(1,2) inv] assms(3) show ?thesis by (simp add: printed_def)
qed



text \<open>Without formatters and without WebSocket every message that is not empty is one chunk.\<close>

lemma print_message_plain:
  assumes "print_message m cb = Inr ((out, p), cb')" "cb_fmt_data cb' = None" "ws_empty (cb_ws_info cb')"
  shows "cb' = cb" "p \<longleftrightarrow> msg_content m \<noteq> []"
    "p \<Longrightarrow> out = show_number 16 (length (msg_content m)) @ crlf @ msg_content m @ crlf"
proof -
  have plain: "cb_fmt_data cb = None"
    using assms(1,2) by (auto simp: print_message_def bind_result_def split: sum.splits option.splits prod.splits bool.splits)
  with assms show "cb' = cb" "p \<longleftrightarrow> msg_content m \<noteq> []"
    "p \<Longrightarrow> out = show_number 16 (length (msg_content m)) @ crlf @ msg_content m @ crlf"
    by (auto simp: print_message_def print_message_content_def split: if_splits bool.splits prod.splits)
qed

lemma print_all_plain:
  "print_all ms cb = Some (outs, cb') \<Longrightarrow> cb_fmt_data cb' = None \<Longrightarrow> ws_empty (cb_ws_info cb') \<Longrightarrow>
   cb = cb' \<and> chunk_read (concat outs @ rest) = (filter (\<lambda>s. s \<noteq> []) (map msg_content ms) @ fst (chunk_read rest), snd (chunk_read rest))"
proof (induction ms arbitrary: cb outs)
  case (Cons m ms)
  then obtain out p cb1 outs1 where m: "print_message m cb = Inr ((out, p), cb1)" "print_all ms cb1 = Some (outs1, cb')"
    "outs = (if p then out # outs1 else outs1)"
    by (auto split: sum.splits prod.splits)
  from Cons.IH [OF m(2) Cons.prems(2,3)] have IH: "cb1 = cb'"
    "chunk_read (concat outs1 @ rest) = (filter (\<lambda>s. s \<noteq> []) (map msg_content ms) @ fst (chunk_read rest), snd (chunk_read rest))"
    by blast+
  note plain = print_message_plain [OF m(1)]
  from plain IH Cons.prems(2,3) m(3) show ?case
    using chunk_read_chunk [of "msg_content m" "concat outs1 @ rest"] by auto
qed simp

lemma printed_reads:
  assumes "printed H S c" "c_messages c = []" "writes c = []" "cb_fmt_data (c_base c) = None" "ws_empty (cb_ws_info (c_base c))"
  shows "None \<notin> set H \<and> fst (chunk_read (concat S)) = filter (\<lambda>s. s \<noteq> []) (map (msg_content \<circ> the) H)"
proof -
  obtain taken cb where t: "H = map Some taken" "print_all taken cb = Some (S, c_base c)"
    using assms(1-3) by (auto simp: printed_def no_writes_no_texts)
  from print_all_plain [OF t(2) assms(4,5), of "[]"] t(1) show ?thesis
    by (auto simp: comp_def chunk_read.simps [of "[]"])
qed

text \<open>What the client of a streaming response reads. When a run with punctual timers leaves the connection
  connected and with no write outstanding, then all its writes have succeeded, and the chunks of its
  message writes read back to exactly the contents of all messages that were handed to it, in order,
  except empty ones: every message has arrived. (The response has no formatters and is not a WebSocket.)\<close>

theorem client_reads_messages:
  assumes "conn_run evs (accepted e cid addr m) = Some x" "timely evs"
    "run_log evs (accepted e cid addr m) = (hs, ws)" "c_connected (x_conn x)" "writes (x_conn x) = []"
    "cb_fmt_data (c_base (x_conn x)) = None" "ws_empty (cb_ws_info (c_base (x_conn x)))"
  shows "(\<forall>p\<in>set ws. snd p) \<and> None \<notin> set hs \<and>
    fst (chunk_read (concat (message_texts (map fst ws)))) = filter (\<lambda>s. s \<noteq> []) (map (msg_content \<circ> the) hs)"
proof -
  have inv: "conn_inv True False (accepted e cid addr m)" by (rule conn_inv_accepted) simp
  have sent: "c_messages (x_conn x) = []"
    using conn_inv_writes [OF accepted_run [OF assms(1), of False True]] assms(2,4,5) by simp
  have ok: "\<forall>p\<in>set ws. snd p"
    using failing_run [OF assms(1,2) inv] assms(3,4) by (auto simp: dead_def)
  have "printed hs (message_texts (map fst ws)) (x_conn x)"
    using on_wire [OF assms(1-3)] by (auto simp: printed_def)
  from printed_reads [OF this sent assms(5-7)] ok show ?thesis by simp
qed

theorem client_reads_messages_witness:
  "fst (chunk_read (''1'' @ crlf @ ''a'' @ crlf @ ''1'' @ crlf @ ''b'' @ crlf)) = [''a'', ''b'']"
proof -
  let ?evs = "sample_events [Ce_request False sample_get, Ce_written 0 False, Ce_send (message_init ''a''),
    Ce_send (message_init ''b''), Ce_written 1 False, Ce_written 1 False]"
  let ?log = "run_log ?evs sample_accepted"
  have "map_option (\<lambda>x. (c_connected (x_conn x), writes (x_conn x) = [], cb_fmt_data (c_base (x_conn x)) = None,
      ws_empty (cb_ws_info (c_base (x_conn x)))))
      (conn_run ?evs sample_accepted) = Some (True, True, True, True)" by code_simp
  then obtain x where x: "conn_run ?evs sample_accepted = Some x" "c_connected (x_conn x)" "writes (x_conn x) = []"
    "cb_fmt_data (c_base (x_conn x)) = None" "ws_empty (cb_ws_info (c_base (x_conn x)))" by auto
  have l: "map (msg_content \<circ> the) (fst ?log) = [''a'', ''b'']"
    "concat (message_texts (map fst (snd ?log))) = ''1'' @ crlf @ ''a'' @ crlf @ ''1'' @ crlf @ ''b'' @ crlf"
    by code_simp+
  have t: "timely ?evs" by (simp add: timely_def sample_events_def)
  have "?log = (fst ?log, snd ?log)" by simp
  from client_reads_messages [OF x(1) [unfolded sample_accepted_def] t this [unfolded sample_accepted_def] x(2-5), folded sample_accepted_def]
  show ?thesis unfolding l by simp
qed

end
