(* ===== verification/World_Wire.thy ===== *)
theory World_Wire
  imports World Connection_Wire
begin

text \<open>
  What the clients of all connections read. Theory \<open>Connection_Wire\<close> relates one connection to
  printing the messages it is handed; here the manager hands them out, in any run of the world, to
  connections that share the registry and the queue of the workers.
\<close>

section \<open>What the others do not change\<close>

lemma wire_state_others:
  assumes "wire_state H S \<lparr>x_conn = c, x_man = x_man x0, x_queue = x_queue x0\<rparr>" "others (c_id c) x0 x"
  shows "wire_state H S \<lparr>x_conn = c, x_man = x_man x, x_queue = x_queue x\<rparr>"
proof -
  let ?y = "\<lparr>x_conn = c, x_man = x_man x0, x_queue = x_queue x0\<rparr>" and ?z = "\<lparr>x_conn = c, x_man = x_man x, x_queue = x_queue x\<rparr>"
  have "served ?z = served ?y" using assms(2) by (simp add: served_def asked_def others_def)
  moreover have "wire_ok H S ?z = wire_ok H S ?y" "unanswered H ?z = unanswered H ?y"
    by (simp_all add: wire_ok_def wire_base_def unanswered_def)
  ultimately show ?thesis using assms(1) by (simp add: wire_state_def)
qed

text \<open>The state of the connection after a failed write, without the manager.\<close>

definition silent :: "ctx \<Rightarrow> bool" where
  "silent x \<longleftrightarrow> served x \<and> \<not> c_connected (x_conn x) \<and> writes (x_conn x) = [] \<and> c_timer (x_conn x) = None"

lemma silent_others:
  assumes "silent \<lparr>x_conn = c, x_man = x_man x0, x_queue = x_queue x0\<rparr>" "others (c_id c) x0 x"
  shows "silent \<lparr>x_conn = c, x_man = x_man x, x_queue = x_queue x\<rparr>"
  using assms by (simp add: silent_def served_def asked_def others_def)

lemma silent_dead: "conn_inv True False x \<Longrightarrow> silent x \<Longrightarrow> dead x"
  using waiting_not_served by (auto simp: dead_def silent_def conn_inv_def)

lemma dead_silent: "dead x \<Longrightarrow> silent x"
  by (simp add: dead_def silent_def inv_ok_def)

text \<open>Whether a connection is in order: \<open>F\<close> says whether one of its writes has failed.\<close>

definition wire_at :: "message option list \<Rightarrow> string list \<Rightarrow> bool \<Rightarrow> nat \<Rightarrow> world \<Rightarrow> bool" where
  "wire_at H S F i w \<longleftrightarrow>
     (case wd_conns w i of
        None \<Rightarrow> H = [] \<and> S = [] \<and> \<not> F
      | Some c \<Rightarrow> wire_state H S (ctx_at w c) \<and> (F \<longrightarrow> silent (ctx_at w c)))"

lemma wire_at_others:
  assumes "wire_at H S F i w" "x_man x0 = wd_man w" "x_queue x0 = wd_queue w" "others i x0 x" "j \<noteq> i"
    "\<And>c. wd_conns w i = Some c \<Longrightarrow> c_id c = i"
  shows "wire_at H S F i (put_ctx j x w)"
proof (cases "wd_conns w i")
  case (Some c)
  with assms(1,6) have c: "c_id c = i" "wire_state H S (ctx_at w c)" "F \<longrightarrow> silent (ctx_at w c)"
    by (simp_all add: wire_at_def)
  have "wire_state H S (ctx_at (put_ctx j x w) c)" "F \<longrightarrow> silent (ctx_at (put_ctx j x w) c)"
    using wire_state_others [of H S c x0 x] silent_others [of c x0 x] c assms(2-4)
    by (simp_all add: ctx_at_def put_ctx_def)
  with Some assms(5) show ?thesis by (simp add: wire_at_def put_ctx_def)
qed (use assms in \<open>simp add: wire_at_def put_ctx_def\<close>)

lemma wire_at_same: "wd_conns w' i = Some (x_conn x) \<Longrightarrow> wd_man w' = x_man x \<Longrightarrow> wd_queue w' = x_queue x \<Longrightarrow>
   wire_state H S x \<Longrightarrow> (F \<longrightarrow> silent x) \<Longrightarrow> wire_at H S F i w'"
  by (cases x) (simp add: wire_at_def ctx_at_def)

section \<open>Operations that go through the connections\<close>

lemma wire_state_send:
  assumes "conn_inv True False x" "wire_state H S x"
  shows "wire_state (H @ [m]) S (send e m x)"
proof (cases "inv_ok True False x")
  case True
  then have "served x" "\<not> c_writing_message (x_conn x) \<and> c_connected (x_conn x) \<longrightarrow> writes (x_conn x) = []"
    by (auto simp: inv_ok_def write_ok_def)
  moreover have "served (send e m x)" using append_ok [OF True] by (simp add: inv_ok_def)
  ultimately show ?thesis using assms(2) wire_send by (simp add: wire_state_def)
next
  case False
  with assms(1) have w: "waiting True False x" by (simp add: conn_inv_def)
  with assms(2) waiting_not_served have "unanswered H x" "S = []" by (auto simp: wire_state_def)
  moreover have "\<not> served (send e m x)" using waiting_append [OF w] waiting_not_served by blast
  ultimately show ?thesis using unanswered_append by (simp add: wire_state_def)
qed

lemma served_cleanup: "served (cleanup e x) = served x"
  by (simp add: served_def early_def)

lemma wire_state_close: "wire_state H S x \<Longrightarrow> wire_state H S (close_connection e x)"
  using wire.base_cleanup [OF wire_ok_base] unanswered_cleanup
  by (auto simp: wire_state_def close_connection_def served_cleanup)

lemma silent_send: "silent x \<Longrightarrow> silent (send e m x)"
  by (simp add: silent_def send_def Let_def served_def asked_def early_def writes_def)

lemma silent_close: "silent x \<Longrightarrow> silent (close_connection e x)"
  by (simp add: silent_def close_connection_def served_cleanup writes_def)

text \<open>An operation \<open>f\<close> on a list of connections, which hands \<open>ms\<close> to each it comes to.\<close>

lemma at_conn_wire:
  assumes w: "world_inv True False w" and i: "wire_at H S F i w"
    and f: "\<And>x H. conn_inv True False x \<Longrightarrow> wire_state H S x \<Longrightarrow> wire_state (H @ ms) S (f x)"
      "\<And>x. silent x \<Longrightarrow> silent (f x)" "\<And>x j. j \<noteq> c_id (x_conn x) \<Longrightarrow> others j x (f x)"
  shows "wire_at (H @ (if j = i \<and> wd_conns w i \<noteq> None then ms else [])) S F i (at_conn j f w)"
proof (cases "wd_conns w j")
  case (Some c)
  with w have c: "c_id c = j" "conn_inv True False (ctx_at w c)" by (auto simp: world_inv_def)
  show ?thesis
  proof (cases "j = i")
    case True
    have "wire_at (H @ ms) S F i (put_ctx i (f (ctx_at w c)) w)"
      by (rule wire_at_same [of _ _ "f (ctx_at w c)"])
        (use i True Some c f(1,2) in \<open>simp_all add: wire_at_def put_ctx_def\<close>)
    with True Some show ?thesis by (simp add: at_conn_def)
  next
    case False
    have "others i (ctx_at w c) (f (ctx_at w c))" by (rule f(3)) (use False c in \<open>simp add: ctx_at_def\<close>)
    from wire_at_others [OF i _ _ this False] w have "wire_at H S F i (put_ctx j (f (ctx_at w c)) w)"
      by (auto simp: ctx_at_def world_inv_def)
    with False Some show ?thesis by (simp add: at_conn_def)
  qed
qed (use i in \<open>auto simp: at_conn_def\<close>)

lemma at_conn_known: "wd_conns (at_conn j f w) i = None \<longleftrightarrow> wd_conns w i = None"
  by (auto simp: at_conn_def put_ctx_def split: option.splits)

lemma fold_at_conn_wire:
  assumes "world_inv True False w" "wire_at H S F i w"
    and f: "\<And>x H. conn_inv True False x \<Longrightarrow> wire_state H S x \<Longrightarrow> wire_state (H @ ms) S (f x)"
      "\<And>x. silent x \<Longrightarrow> silent (f x)" "\<And>x j. j \<noteq> c_id (x_conn x) \<Longrightarrow> others j x (f x)"
      "\<And>x. conn_inv True False x \<Longrightarrow> conn_inv True False (f x)" "\<And>x. c_id (x_conn (f x)) = c_id (x_conn x)"
  shows "wire_at (H @ (if wd_conns w i = None then [] else concat (map (\<lambda>j. ms) (filter (\<lambda>j. j = i) order)))) S F i
    (fold (\<lambda>j. at_conn j f) order w)"
  using assms(1,2)
proof (induction order arbitrary: w H)
  case (Cons j order)
  from Cons.IH [OF at_conn_inv [OF Cons.prems(1) f(4,5,3)] at_conn_wire [OF Cons.prems(1,2) f(1-3)], of j]
  show ?case by (auto simp: at_conn_known split: if_splits)
qed simp

section \<open>What a step hands to a connection\<close>

text \<open>The connections the manager sends to, in order; the message filter may stop it.\<close>

definition receivers :: "message \<Rightarrow> (nat \<times> string \<Rightarrow> bool) \<Rightarrow> world \<Rightarrow> nat list" where
  "receivers msg P w =
     (if cm_finished (wd_man w) then []
      else case allowed_loop msg w (map fst (filter P (cm_connections (wd_man w)))) of
        Inl _ \<Rightarrow> []
      | Inr conns \<Rightarrow> conns)"

definition handed_to :: "nat \<Rightarrow> world_event \<Rightarrow> world \<Rightarrow> message option list" where
  "handed_to i ev w =
     (case wd_conns w i of
        None \<Rightarrow> []
      | Some c \<Rightarrow>
          (case ev of
             We_conn j cev \<Rightarrow> if j = i then handed cev (ctx_at w c) else []
           | We_send to msg \<Rightarrow> map (\<lambda>j. Some msg) (filter (\<lambda>j. j = i) (receivers msg (\<lambda>p. snd p = to) w))
           | We_send_id to msg \<Rightarrow> map (\<lambda>j. Some msg) (filter (\<lambda>j. j = i) (receivers msg (\<lambda>p. fst p = to) w))
           | We_finish order \<Rightarrow> if cm_finished (wd_man w) then [] else map (\<lambda>j. None) (filter (\<lambda>j. j = i) order)
           | _ \<Rightarrow> []))"

definition written_by :: "nat \<Rightarrow> world_event \<Rightarrow> world \<Rightarrow> (io_op \<times> bool) list" where
  "written_by i ev w =
     (case ev of
        We_conn j cev \<Rightarrow> if j = i then (case wd_conns w i of None \<Rightarrow> [] | Some c \<Rightarrow> written cev (ctx_at w c)) else []
      | _ \<Rightarrow> [])"

lemma concat_singletons: "concat (map (\<lambda>j. [m]) js) = map (\<lambda>j. m) js"
  by (induction js) simp_all

lemma wire_at_man:
  assumes "wire_at H S F i w"
  shows "wire_at H S F i (w\<lparr>wd_man := m\<rparr>)"
proof -
  have s: "served (ctx_at (w\<lparr>wd_man := m\<rparr>) c) = served (ctx_at w c)" for c by (simp add: served_def asked_def ctx_at_def)
  then have "wire_state H S (ctx_at (w\<lparr>wd_man := m\<rparr>) c) = wire_state H S (ctx_at w c)"
    "silent (ctx_at (w\<lparr>wd_man := m\<rparr>) c) = silent (ctx_at w c)" for c
    by (simp_all add: wire_state_def s silent_def) (simp_all add: wire_ok_def wire_base_def unanswered_def ctx_at_def)
  with assms show ?thesis by (simp add: wire_at_def split: option.splits)
qed

lemma send_each_wire:
  assumes "world_inv True False w" "wire_at H S F i w"
  shows "wire_at (H @ (if wd_conns w i = None then [] else map (\<lambda>j. Some msg) (filter (\<lambda>j. j = i) conns))) S F i
    (send_each e msg conns w)"
proof -
  have "wire_at (H @ (if wd_conns w i = None then [] else concat (map (\<lambda>j. [Some msg]) (filter (\<lambda>j. j = i) conns)))) S F i
      (fold (\<lambda>j. at_conn j (send e (Some msg))) conns w)"
    by (rule fold_at_conn_wire [OF assms])
      (simp_all add: wire_state_send silent_send oth.K_send others_refl conn_inv_send send_id)
  then show ?thesis by (simp only: send_each_def concat_singletons)
qed

lemma send_wire:
  assumes w: "world_inv True False w" "wire_at H S F i w"
  shows "wire_at (H @ handed_to i (We_send to msg) w) S F i (snd (send_by_name e to msg w))"
    "wire_at (H @ handed_to i (We_send_id k msg) w) S F i (snd (send_by_id e k msg w))"
proof -
  have none: "wire_at (H @ handed_to i (We_send to msg) w) S F i w" if "receivers msg (\<lambda>p. snd p = to) w = []"
    using that w(2) by (simp add: handed_to_def split: option.splits)
  show "wire_at (H @ handed_to i (We_send to msg) w) S F i (snd (send_by_name e to msg w))"
  proof (cases "cm_finished (wd_man w) \<or> filter (\<lambda>p. snd p = to) (cm_connections (wd_man w)) = []")
    case True
    then have "receivers msg (\<lambda>p. snd p = to) w = []" by (auto simp: receivers_def)
    from none [OF this] True wire_at_man [OF none [OF this]] show ?thesis
      by (auto simp: send_by_name_def split: prod.splits)
  next
    case False
    then obtain p ps where "filter (\<lambda>p. snd p = to) (cm_connections (wd_man w)) = p # ps" "\<not> cm_finished (wd_man w)"
      by (auto simp: neq_Nil_conv)
    with none send_each_wire [OF w] show ?thesis
      by (auto simp: send_by_name_def receivers_def handed_to_def split: sum.splits option.splits if_splits)
  qed
  have none: "wire_at (H @ handed_to i (We_send_id k msg) w) S F i w" if "receivers msg (\<lambda>p. fst p = k) w = []"
    using that w(2) by (simp add: handed_to_def split: option.splits)
  show "wire_at (H @ handed_to i (We_send_id k msg) w) S F i (snd (send_by_id e k msg w))"
  proof (cases "cm_finished (wd_man w) \<or> filter (\<lambda>p. fst p = k) (cm_connections (wd_man w)) = []")
    case True
    then have "receivers msg (\<lambda>p. fst p = k) w = []" by (auto simp: receivers_def)
    from none [OF this] True show ?thesis by (auto simp: send_by_id_def)
  next
    case False
    then obtain p ps where "filter (\<lambda>p. fst p = k) (cm_connections (wd_man w)) = p # ps" "\<not> cm_finished (wd_man w)"
      by (auto simp: neq_Nil_conv)
    with none send_each_wire [OF w] show ?thesis
      by (auto simp: send_by_id_def receivers_def handed_to_def split: sum.splits option.splits if_splits)
  qed
qed

lemma finish_wire:
  assumes w: "world_inv True False w" "wire_at H S F i w"
  shows "wire_at (H @ handed_to i (We_finish order) w) S F i (manager_finish e order w)"
proof (cases "cm_finished (wd_man w)")
  case True
  with w(2) show ?thesis by (simp add: handed_to_def manager_finish_def split: option.splits)
next
  case False
  let ?w = "w\<lparr>wd_man := (wd_man w)\<lparr>cm_finished := True, cm_connections := []\<rparr>\<rparr>"
  have "world_inv True False ?w" using finish_inv [OF w(1), of undefined "[]"] False by (simp add: manager_finish_def)
  note fold = fold_at_conn_wire [OF this wire_at_man [OF w(2)], of "[None]" "\<lambda>x. close_connection e (finish e x)" order]
  have "wire_at (H @ (if wd_conns ?w i = None then [] else concat (map (\<lambda>j. [None]) (filter (\<lambda>j. j = i) order)))) S F i
      (fold (\<lambda>j. at_conn j (\<lambda>x. close_connection e (finish e x))) order ?w)"
    by (rule fold) (simp_all add: finish_def wire_state_close wire_state_send silent_close silent_send close_others oth.K_send
        others_refl conn_inv_send conn_inv_close send_id)
  with False show ?thesis
    by (auto simp: manager_finish_def handed_to_def concat_singletons split: option.splits)
qed

section \<open>Steps\<close>

definition fails :: "(io_op \<times> bool) list \<Rightarrow> bool" where
  "fails ws \<longleftrightarrow> (\<exists>p\<in>set ws. \<not> snd p)"

text \<open>Nothing can be written before the request is answered, and nothing after a write has failed.\<close>

lemma silent_step:
  assumes inv: "conn_inv True False x" and ev: "ev \<noteq> Ce_expires" and step: "conn_step e ev x = Some x'"
    and "F \<longrightarrow> silent x" "F \<or> fails (written ev x)"
  shows "silent x'"
proof (cases F)
  case True
  with assms(4) silent_dead [OF inv] have "dead x" by simp
  from dead_step [OF this ev step] dead_silent show ?thesis by blast
next
  case False
  with assms(5) obtain k where k: "ev = Ce_written k True"
    by (cases ev) (auto simp: fails_def written_def)
  have "\<not> waiting True False x"
    using k step by (auto simp: conn_step_def Let_def waiting_def nth_Cons' split: if_splits io_op.splits)
  with inv have "inv_ok True False x" by (simp add: conn_inv_def)
  from failed_dead [OF this step [unfolded k]] show ?thesis by (rule dead_silent)
qed

lemma conn_wire:
  assumes w: "world_inv True False w" "wire_at H S F i w" and ev: "cev \<noteq> Ce_expires"
    and step: "world_step e (We_conn j cev) w = Some w'"
  shows "wire_at (H @ handed_to i (We_conn j cev) w) (S @ message_texts (map fst (written_by i (We_conn j cev) w)))
    (F \<or> fails (written_by i (We_conn j cev) w)) i w'"
proof -
  from step obtain c x where c: "wd_conns w j = Some c" "conn_event_alone cev" "conn_step e cev (ctx_at w c) = Some x"
    "w' = put_ctx j x w"
    by (auto simp: world_step_def split: if_splits option.splits)
  from w(1) c(1) have id: "c_id c = j" "conn_inv True False (ctx_at w c)" by (auto simp: world_inv_def)
  show ?thesis
  proof (cases "j = i")
    case True
    let ?F = "F \<or> fails (written cev (ctx_at w c))"
    from w(2) c(1) True have at: "wire_state H S (ctx_at w c)" "F \<longrightarrow> silent (ctx_at w c)" by (simp_all add: wire_at_def)
    then have "wire_inv H S (ctx_at w c)" using id(2) by (simp add: wire_inv_def)
    from wire_inv_step [OF this ev c(3)]
    have "wire_state (H @ handed cev (ctx_at w c)) (S @ message_texts (map fst (written cev (ctx_at w c)))) x"
      by (simp add: wire_inv_def)
    moreover have "?F \<longrightarrow> silent x" using silent_step [OF id(2) ev c(3) at(2)] by simp
    ultimately have "wire_at (H @ handed cev (ctx_at w c)) (S @ message_texts (map fst (written cev (ctx_at w c)))) ?F i w'"
      using True by (intro wire_at_same [of _ _ x]) (simp_all add: c(4) put_ctx_def)
    with True c(1) show ?thesis by (simp add: handed_to_def written_by_def)
  next
    case False
    have "others i (ctx_at w c) x"
      by (rule others_step [OF c(3)]) (use False id(1) c(2) in \<open>auto simp: ctx_at_def conn_event_alone_def\<close>)
    from wire_at_others [OF w(2) _ _ this False] w(1) False show ?thesis
      by (auto simp: c(4) ctx_at_def world_inv_def handed_to_def written_by_def fails_def split: option.splits)
  qed
qed

lemma accept_wire:
  assumes w: "world_inv True False w" "wire_at H S F i w" and step: "world_step e (We_accept j addr) w = Some w'"
  shows "wire_at H S F i w'"
proof -
  let ?x = "ctx_at w (conn_init j)"
  from step have j: "wd_conns w j = None" "w' = put_ctx j (start e addr ?x) w" by (auto simp: world_step_def split: if_splits)
  show ?thesis
  proof (cases "j = i")
    case True
    with w(2) j(1) have n: "H = []" "S = []" "\<not> F" by (simp_all add: wire_at_def)
    have c: "wd_conns w' j = Some (x_conn (start e addr ?x))" "ctx_at w' (x_conn (start e addr ?x)) = start e addr ?x"
      by (simp_all add: j(2) put_ctx_def ctx_at_def)
    have "conn_inv True False (start e addr ?x)"
      using accept_inv [OF w(1) j(1), of e addr] c unfolding world_inv_def j(2) by metis
    moreover have "first_write [] (start e addr ?x)"
      by (rule start_first) (simp add: unanswered_def conn_init_def writes_def ctx_at_def)
    ultimately have "wire_state [] [] (start e addr ?x)" using first_wire_inv by (simp add: wire_inv_def)
    with n True c show ?thesis by (simp add: wire_at_def)
  next
    case False
    have "others i ?x (start e addr ?x)" by (rule start_others) (use False in \<open>simp add: ctx_at_def conn_init_def\<close>)
    from wire_at_others [OF w(2) _ _ this False] w(1) show ?thesis by (auto simp: j(2) ctx_at_def world_inv_def)
  qed
qed

lemma opened_failed_wire:
  assumes w: "world_inv True False w" "wire_at H S F i w"
  shows "wire_at H S F i (notify_opened_failed e to j w)"
proof -
  have "wire_at (H @ (if j = i \<and> wd_conns w i \<noteq> None then [] else [])) S F i (at_conn j (close_connection e) w)"
    by (rule at_conn_wire [OF w]) (simp_all add: wire_state_close silent_close close_others others_refl)
  with w(2) show ?thesis by (simp add: notify_opened_failed_def)
qed

lemma wire_at_step:
  assumes w: "world_inv True False w" "wire_at H S F i w" and ev: "\<forall>j. ev \<noteq> We_conn j Ce_expires"
    and step: "world_step e ev w = Some w'"
  shows "wire_at (H @ handed_to i ev w) (S @ message_texts (map fst (written_by i ev w))) (F \<or> fails (written_by i ev w)) i w'"
proof (cases ev)
  case (We_conn j cev)
  with conn_wire [OF w] ev step show ?thesis by blast
next
  case (We_accept j addr)
  with accept_wire [OF w] step show ?thesis by (simp add: handed_to_def written_by_def fails_def split: option.split)
next
  case (We_send to msg)
  with send_wire(1) [OF w] step show ?thesis
    by (auto simp: world_step_def written_by_def fails_def split: if_splits)
next
  case (We_send_id k msg)
  with send_wire(2) [OF w] step show ?thesis
    by (auto simp: world_step_def written_by_def fails_def split: if_splits)
next
  case (We_opened_failed to j)
  with opened_failed_wire [OF w] step show ?thesis
    by (auto simp: world_step_def handed_to_def written_by_def fails_def split: if_splits option.split)
next
  case (We_finish order)
  with finish_wire [OF w] step show ?thesis
    by (auto simp: world_step_def written_by_def fails_def split: if_splits)
qed

section \<open>Runs\<close>

text \<open>What a run of the world hands to a connection, and which of its writes complete.\<close>

fun world_log :: "nat \<Rightarrow> (env \<times> world_event) list \<Rightarrow> world \<Rightarrow> message option list \<times> (io_op \<times> bool) list" where
  "world_log i [] w = ([], [])"
| "world_log i ((e, ev) # evs) w =
     (case world_step e ev w of
        None \<Rightarrow> ([], [])
      | Some y \<Rightarrow> (case world_log i evs y of (hs, ws) \<Rightarrow> (handed_to i ev w @ hs, written_by i ev w @ ws)))"

lemma wire_at_run:
  assumes "world_run evs w = Some w'" "world_timely evs" "world_inv True False w" "wire_at H S F i w"
    "world_log i evs w = (hs, ws)"
  shows "wire_at (H @ hs) (S @ message_texts (map fst ws)) (F \<or> fails ws) i w'"
  using assms
proof (induction evs arbitrary: w H S F hs ws)
  case (Cons p evs)
  obtain e ev where p: "p = (e, ev)" by (cases p)
  from Cons.prems(1) obtain y where y: "world_step e ev w = Some y" "world_run evs y = Some w'"
    by (auto simp: p split: Option.bind_splits)
  obtain hs' ws' where l: "world_log i evs y = (hs', ws')" by (cases "world_log i evs y")
  with Cons.prems(5) y(1) have log: "hs = handed_to i ev w @ hs'" "ws = written_by i ev w @ ws'" by (simp_all add: p)
  have ev: "\<forall>j. ev \<noteq> We_conn j Ce_expires" "world_timely evs"
    using Cons.prems(2) by (auto simp: world_timely_def p)
  have inv: "world_inv True False y" using world_step_inv [OF Cons.prems(3) _ y(1)] ev(1) by blast
  have f: "F \<or> fails ws \<longleftrightarrow> (F \<or> fails (written_by i ev w)) \<or> fails ws'" by (auto simp: log fails_def)
  from Cons.IH [OF y(2) ev(2) inv wire_at_step [OF Cons.prems(3,4) ev(1) y(1)] l] show ?case
    unfolding f by (simp add: log)
qed (simp add: fails_def)

lemma world_wire:
  assumes "world_run evs (world_init m) = Some w" "world_timely evs" "cm_connections m = []"
    "world_log i evs (world_init m) = (hs, ws)" "wd_conns w i = Some c"
  shows "printed hs (message_texts (map fst ws)) c" "conn_inv True False (ctx_at w c)" "c_connected c \<Longrightarrow> \<not> fails ws"
proof -
  have init: "world_inv True False (world_init m)" by (rule world_init_inv) (use assms(3) in simp_all)
  have "wire_at [] [] False i (world_init m)" by (simp add: wire_at_def world_init_def)
  from wire_at_run [OF assms(1,2) init this assms(4)] assms(5)
  have at: "wire_state hs (message_texts (map fst ws)) (ctx_at w c)" "fails ws \<longrightarrow> silent (ctx_at w c)"
    by (simp_all add: wire_at_def)
  from wire_state_printed [OF at(1)] show "printed hs (message_texts (map fst ws)) c" by (simp add: ctx_at_def)
  from at(2) show "c_connected c \<Longrightarrow> \<not> fails ws" by (auto simp: silent_def ctx_at_def)
  from world_run_inv [OF assms(1) init] assms(2,5) show "conn_inv True False (ctx_at w c)" by (auto simp: world_inv_def)
qed

section \<open>Properties\<close>


definition sample_run :: "(env \<times> world_event) list" where
  "sample_run = map (Pair sample_env) [We_accept 1 (Some ''h''), We_conn 1 (Ce_request False sample_get),
     We_conn 1 (Ce_written 0 False), We_send ''swan'' (message_init ''a''), We_accept 2 (Some ''h''),
     We_conn 1 (Ce_written 1 False)]"


end
