(* ===== verification/Sockets.thy ===== *)
theory Sockets
  imports Server
begin

text \<open>
  Sockets and traits of connections (\<open>connection_socket.hpp\<close>, \<open>ssl_connection_socket.hpp\<close>,
  \<open>connection_traits.hpp\<close>, \<open>ssl_connection_traits.hpp\<close>, \<open>ssl_context.hpp\<close>). A connection is compiled
  once for plain sockets and once for TLS; what the two instances owe to \<open>connection_impl\<close> is the locale
  \<open>socket_traits\<close>, interpreted on both. Of a socket the model has whether it is open, whether it has
  been shut down, and the handshakes that have been started on its stream; the stream itself belongs
  to Boost.Asio and OpenSSL.
\<close>

section \<open>Sockets\<close>

record connection_socket =
  sk_open :: bool
  sk_shut :: bool
  sk_started :: "io_op list"

definition connection_socket_new :: connection_socket where
  "connection_socket_new = \<lparr>sk_open = False, sk_shut = False, sk_started = []\<rparr>"

text \<open>A plain socket has no handshake: the handler is dropped and never called.\<close>

definition plain_async_handshake :: "connection_socket \<Rightarrow> connection_socket" where
  "plain_async_handshake s = s"

definition ssl_async_handshake :: "connection_socket \<Rightarrow> connection_socket" where
  "ssl_async_handshake s = s\<lparr>sk_started := sk_started s @ [Io_handshake]\<rparr>"

text \<open>Closing, the same on both after \<open>lowest_layer\<close>: the outcome of shutting down is ignored, the one of
  closing is not; theory \<open>Connection\<close> takes it that closing an open socket does not throw.\<close>

definition plain_close :: "bool \<Rightarrow> unit result \<Rightarrow> connection_socket \<Rightarrow> unit result \<times> connection_socket" where
  "plain_close shut closed s = (closed, s\<lparr>sk_shut := sk_shut s \<or> shut, sk_open := False\<rparr>)"

definition ssl_close :: "bool \<Rightarrow> unit result \<Rightarrow> connection_socket \<Rightarrow> unit result \<times> connection_socket" where
  "ssl_close shut closed s = (closed, s\<lparr>sk_shut := sk_shut s \<or> shut, sk_open := False\<rparr>)"

section \<open>Traits\<close>

text \<open>The traits hold the manager and the invoker, which must be there.\<close>

record traits =
  tr_invoker :: bool
  tr_manager :: bool
  tr_context :: bool

definition connection_traits_init :: "bool \<Rightarrow> bool \<Rightarrow> traits result" where
  "connection_traits_init cm hi =
     assert_that hi (assert_that cm (Inr \<lparr>tr_invoker = hi, tr_manager = cm, tr_context = False\<rparr>))"

definition plain_secure :: bool where
  "plain_secure = False"

definition plain_create_socket :: connection_socket where
  "plain_create_socket = connection_socket_new"

definition ssl_connection_traits_init :: "bool \<Rightarrow> bool \<Rightarrow> traits result" where
  "ssl_connection_traits_init cm hi =
     bind_result (connection_traits_init cm hi) (\<lambda>t. Inr (t\<lparr>tr_context := True\<rparr>))"

definition ssl_secure :: bool where
  "ssl_secure = True"

definition ssl_create_socket :: connection_socket where
  "ssl_create_socket = connection_socket_new"

definition ssl_traits_init :: "(tls_call \<Rightarrow> unit result) \<Rightarrow> settings \<Rightarrow> unit result" where
  "ssl_traits_init tls s = ssl_context_init tls s"

section \<open>What a connection relies on\<close>

text \<open>A new socket is closed; a handshake is started exactly when the traits are secure; closing a
  socket closes it, also when it throws, and leaves the outstanding operations to their completion.\<close>

locale socket_traits =
  fixes secure :: bool
    and create_socket :: connection_socket
    and async_handshake :: "connection_socket \<Rightarrow> connection_socket"
    and close :: "bool \<Rightarrow> unit result \<Rightarrow> connection_socket \<Rightarrow> unit result \<times> connection_socket"
  assumes new_closed: "\<not> sk_open create_socket"
    and handshake_secure: "sk_started (async_handshake s) = sk_started s @ (if secure then [Io_handshake] else [])"
    and handshake_open: "sk_open (async_handshake s) = sk_open s"
    and close_closes: "close shut closed s = (r, s') \<Longrightarrow> r = closed \<and> \<not> sk_open s' \<and> sk_started s' = sk_started s"
begin

text \<open>What \<open>connection_impl::handshake\<close> starts is what the handshake of the socket starts, or the read
  of the request: exactly one operation, whose completion goes on with the connection.\<close>

lemma handshake_starts:
  assumes "e_secure e = secure"
  shows "c_pending (x_conn (handshake e x)) = c_pending (x_conn x) @
      (if secure then sk_started (async_handshake (s\<lparr>sk_started := []\<rparr>)) else [Io_read_request])"
    and "length (c_pending (x_conn (handshake e x))) = Suc (length (c_pending (x_conn x)))"
  using assms handshake_secure [of "s\<lparr>sk_started := []\<rparr>"]
  by (simp_all add: handshake_def read_request_def setup_timeout_def)

text \<open>\<open>cleanup\<close> closes the socket once: the second time it is not open any more.\<close>

lemma cleanup_closes:
  assumes "sk_open s = c_socket_open (x_conn x)"
  shows "sk_open (if sk_open s then snd (close shut closed s) else s) = c_socket_open (x_conn (cleanup e x))"
  using close_closes [of shut closed s "fst (close shut closed s)" "snd (close shut closed s)"] by simp

end

interpretation plain: socket_traits plain_secure plain_create_socket plain_async_handshake plain_close
  by unfold_locales
    (auto simp: plain_secure_def plain_create_socket_def connection_socket_new_def plain_async_handshake_def plain_close_def)

interpretation tls: socket_traits ssl_secure ssl_create_socket ssl_async_handshake ssl_close
  by unfold_locales
    (auto simp: ssl_secure_def ssl_create_socket_def connection_socket_new_def ssl_async_handshake_def ssl_close_def)

lemma traits_need_both:
  "(\<exists>t. connection_traits_init cm hi = Inr t) \<longleftrightarrow> cm \<and> hi"
  "(\<exists>t. ssl_connection_traits_init cm hi = Inr t) \<longleftrightarrow> cm \<and> hi"
  by (auto simp: connection_traits_init_def ssl_connection_traits_init_def assert_that_def)

text \<open>The acceptor of a kind makes connections of that kind: the flag of the acceptor is the one of the traits.\<close>

lemma acceptors_secure:
  assumes "init_data ssl s b sv = (r, sv')"
  shows "map_option ac_secure (sv_acceptor sv') = Some plain_secure"
    "b \<Longrightarrow> map_option ac_secure (sv_ssl_acceptor sv') = Some ssl_secure"
  using assms by (auto simp: init_data_def Let_def acceptor_init_def plain_secure_def ssl_secure_def split: if_splits)

end
