(* ===== verification/Unit_Tests.thy ===== *)
theory Unit_Tests
  imports World Enumerations Xml
begin

text \<open>
  The unit tests of the repository (\<open>tests/\<close>), stated of the model: each lemma has the name of a test
  case, or of the first of several, and says that the definitions give what the tests expect of the
  code. The tests run on several types of ranges, which are all strings here. The mock listener accepts
  all connections and throws when it is told of a message that nobody takes; what it remembers is read
  off the calls. The tests with bytes outside ASCII, and the two that only count what the mock connection
  is sent and whether it is finished, are left out; theory
  \<open>World\<close> says more of what sending and the finish do to the connections of the server.
\<close>

section \<open>Strings\<close>

lemma test_trim: "trim [] = []" "trim ''  test  '' = ''test''"
  by code_simp+

lemma test_trim_left: "trim_left ''   test  '' = ''test  ''"
  by code_simp

lemma test_trim_right: "trim_right ''  test  '' = ''  test''"
  by code_simp

text \<open>The loops of the tests, which split until nothing is left and check every piece.\<close>

fun pieces :: "nat \<Rightarrow> (string \<Rightarrow> bool \<times> string \<times> string) \<Rightarrow> string \<Rightarrow> string list option" where
  "pieces 0 split value = None"
| "pieces (Suc n) split value =
     (if range_empty value then Some []
      else case split value of (_, head, tail) \<Rightarrow> map_option ((#) head) (pieces n split (trim tail)))"

lemma test_split:
  "pieces 6 (\<lambda>s. split_once_char s (CHR '' '')) ''best test best test best'' =
     Some [''best'', ''test'', ''best'', ''test'', ''best'']"
  "map_option (map trim) (pieces 6 (\<lambda>s. split_once_cstr s ''test'') ''best test best test best'') =
     Some [''best'', ''best'', ''best'']"
  "map_option (map trim) (pieces 6 (\<lambda>s. split_once_range s ''test'') ''best test best test best'') =
     Some [''best'', ''best'', ''best'']"
  by code_simp+

lemma test_split_first_of:
  "pieces 7 (\<lambda>s. split_first_of_once_cstr s ''&;'') ''a&b;c&d;e&f'' = Some [''a'', ''b'', ''c'', ''d'', ''e'', ''f'']"
  "pieces 7 (\<lambda>s. split_first_of_once s ''&;'') ''a&b;c&d;e&f'' = Some [''a'', ''b'', ''c'', ''d'', ''e'', ''f'']"
  by code_simp+

lemma test_starts_ends:
  "starts_with ''testing'' ''test''" "\<not> starts_with ''production'' ''test''"
  "ends_with ''testing'' ''ing''" "\<not> ends_with ''production'' ''ing''"
  by code_simp+

section \<open>Ranges\<close>

lemma test_construct: "range_empty []" "range_size [] = 0" "\<not> range_empty ''12345''" "range_size ''12345'' = 5"
  by code_simp+

lemma test_comparision:
  "range_eq ''test string'' ''test string''" "range_le ''test string'' ''test string''"
  "range_ge ''test string'' ''test string''" "\<not> range_neq ''test string'' ''test string''"
  by code_simp+

lemma test_reversed_comparision:
  "range_eq (rev ''test string'') (rev ''test string'')" "range_le (rev ''test string'') (rev ''test string'')"
  "range_ge (rev ''test string'') (rev ''test string'')" "\<not> range_neq (rev ''test string'') (rev ''test string'')"
  by code_simp+

section \<open>Percent encoding\<close>

lemma test_urlencode_latin: "urlencode [] = []" "urlencode ''abcd efgh'' = ''abcd%20efgh''"
  by code_simp+

lemma test_urldecode_latin:
  "urldecode [] = []" "urldecode ''abcd%20efgh'' = ''abcd efgh''" "urldecode ''abcd%20efgh%'' = ''abcd efgh%''"
  by code_simp+

section \<open>Lines\<close>

fun all_lines :: "nat \<Rightarrow> line_reader \<Rightarrow> (string \<times> string) list" where
  "all_lines 0 r = []"
| "all_lines (Suc n) r = (case read_line r of None \<Rightarrow> [] | Some (line, eol, r') \<Rightarrow> (line, eol) # all_lines n r')"

lemma test_read_lines:
  "all_lines 6 (line_reader (''123'' @ [CHR 0x0A, CHR 0x0D] @ ''456'' @ crlf @ ''789'' @ crlf @ crlf @ ''12'' @
     [CHR 0x0A] @ ''345'')) =
   [(''123'', [CHR 0x0A, CHR 0x0D]), (''456'', crlf), (''789'', crlf @ crlf), (''12'', [CHR 0x0A]), (''345'', [])]"
  by code_simp

lemma test_read_spaces:
  "map fst (all_lines 4 (line_reader (''123'' @ [CHR 0x0A] @ '' 123'' @ [CHR 0x0A, CHR 0x09] @ ''123'' @ [CHR 0x0A] @
     '' 123'' @ [CHR 0x0A] @ ''456'' @ [CHR 0x0A] @ ''789''))) =
   [''123'' @ [CHR 0x0A] @ '' 123'' @ [CHR 0x0A, CHR 0x09] @ ''123'' @ [CHR 0x0A] @ '' 123'', ''456'', ''789'']"
  by code_simp

section \<open>Requests\<close>

lemma test_get:
  "map_sum id (\<lambda>r. (param r ''id'', param r ''reason'')) (request_init (''GET /test?id=1;reason=test HTTP/1.1'' @ crlf @ crlf)) =
     Inr (''1'', ''test'')"
  by code_simp

lemma test_cookies:
  "map_sum id (\<lambda>r. (cookie r ''id'', cookie r ''reason''))
     (request_init (''GET / HTTP/1.1'' @ crlf @ ''Cookie: reason=test; id=1'' @ crlf @ crlf)) = Inr (''1'', ''test'')"
  by code_simp

lemma test_complex_get:
  "map_sum id (\<lambda>r. header r ''accept'') (request_init (''get /test?id=1;reason=test http/1.1'' @ crlf @ ''accept: '' @ crlf @
     '' text/css;'' @ crlf @ '' text/html'' @ crlf @ crlf)) = Inr ''text/css; text/html''"
  by code_simp

lemma test_bad_method:
  "request_init (''post /test?id=1;reason=test http/1.1'' @ crlf @ crlf) = Inl (Http_error method_not_allowed)"
  by code_simp

lemma test_bad_protocol_version:
  "request_init (''get /test?id=1;reason=test http/0.9'' @ crlf @ crlf) = Inl (Http_error version_not_supported)"
  by code_simp

section \<open>The match condition\<close>

text \<open>The position of the result is at the end of a line.\<close>

definition at_line_end :: "int \<Rightarrow> string \<Rightarrow> bool" where
  "at_line_end max_size s \<longleftrightarrow>
     (case request_checker max_size s of (i, complete) \<Rightarrow> complete \<and> i < length s \<and> is_line_end (s ! i))"

lemma test_checker:
  "\<not> snd (request_checker 128 [])"
  "at_line_end 128 (''GET / HTTP/1.1'' @ crlf @ ''Host: xiva.yandex.net'' @ crlf @ crlf)"
  "at_line_end 128 (''GET / HTTP/1.1'' @ [CHR 0x0A] @ ''Host: xiva.yandex.net'' @ [CHR 0x0A, CHR 0x0A])"
  "\<not> snd (request_checker 128 ''GET / HTTP/1.1'')"
  by code_simp+

lemma test_too_large:
  "request_checker 20 (''GET / HTTP/1.1'' @ [CHR 0x0A] @ ''Host: xiva.yandex.net'' @ [CHR 0x0A, CHR 0x0A]) = (38, True)"
  "length (''GET / HTTP/1.1'' @ [CHR 0x0A] @ ''Host: xiva.yandex.net'' @ [CHR 0x0A, CHR 0x0A]) = 38"
  by code_simp+

section \<open>Dates, queues and names\<close>

lemma test_format:
  "http_date_line \<lparr>pt_weekday = 5, pt_day = 2, pt_month = 2, pt_year = 2007, pt_hours = 11, pt_minutes = 36,
     pt_seconds = 18\<rparr> = Inr (''Date: Fri, 02 Feb 2007 11:36:18 GMT'' @ crlf)"
  by code_simp

text \<open>The items come out in order, as far as they come out before the queue is finished.\<close>

fun pops :: "nat \<Rightarrow> 'a threaded_queue \<Rightarrow> 'a list" where
  "pops 0 q = []"
| "pops (Suc n) q = (case queue_pop q of Some (Some x, q') \<Rightarrow> x # pops n q' | _ \<Rightarrow> [])"

lemma test_queue_push:
  "pops 100 (fold (\<lambda>i q. snd (queue_push i q)) [0..<100] queue_init) = [0..<100]"
  "queue_pop (queue_finish q) = Some (None, queue_finish q)"
  by code_simp (simp add: queue_pop_def queue_finish_def)

lemma test_matcher:
  "url_receiver ''/swan'' = Inr ''swan''" "url_receiver ''/swan?id=123'' = Inr ''swan''"
  "url_receiver ''/swan%20swan'' = Inr ''swan swan''" "url_receiver [] = Inl (Http_error not_found)"
  "url_receiver ''/swan/'' = Inl (Http_error not_found)"
  by code_simp+

section \<open>Listeners and the manager\<close>

definition mock_listener :: user_listener where
  "mock_listener = \<lparr>ul_opened = (\<lambda>_ _. Inr ()), ul_closed = (\<lambda>_ _. Inr ()),
     ul_disconnected = (\<lambda>_. Inl (Xiva_error ''disconnected''))\<rparr>"

text \<open>A hundred listeners are told of three connections and of the end of one.\<close>

lemma test_listener:
  "notify_connection_opened (replicate 100 mock_listener) ''swan'' 1 = (Inr (), map (\<lambda>i. Ev_opened i ''swan'' 1) [0..<100])"
  "notify_connection_closed (replicate 100 mock_listener) ''highpower'' 2 =
     map (\<lambda>i. Ev_closed i ''highpower'' 2) (rev [0..<100])"
  by code_simp+

definition mock_manager :: manager where
  "mock_manager = manager_add_listener mock_listener (manager_init None)"

definition mock_connection :: "string \<Rightarrow> connection_base" where
  "mock_connection to = set_name to connection_base_init"

definition fill_connections :: "nat list \<Rightarrow> string \<Rightarrow> manager \<Rightarrow> manager" where
  "fill_connections ids to m = fold (\<lambda>i m. snd (insert_connection (\<lambda>_. 0) i (mock_connection to) m)) ids m"

definition remove_all :: "nat list \<Rightarrow> string \<Rightarrow> manager \<Rightarrow> manager" where
  "remove_all ids to m = fold (\<lambda>i m. remove_connection (\<lambda>_. 0) i (mock_connection to) m) ids m"

lemma test_add:
  "fst (insert_connection (\<lambda>_. 0) 1 (mock_connection ''highpower'') mock_manager) = Inr True"
  "fst (insert_connection (\<lambda>_. 0) 1 (mock_connection ''highpower'') (fill_connections [1] ''highpower'' mock_manager)) =
     Inl (Xiva_error ''same connection'')"
  by code_simp+

lemma test_deletion:
  "manager_empty (remove_all [20..<25] ''highpower'' (remove_all [10..<20] ''bobuk'' (remove_all [0..<10] ''swan''
     (fill_connections [20..<25] ''highpower'' (fill_connections [10..<20] ''bobuk''
       (fill_connections [0..<10] ''swan'' mock_manager))))))"
  by code_simp

lemma test_disconnected:
  "fst (send_by_name sample_env ''compwolf'' (message_init ''test'') (world_init mock_manager)) =
     Inl (Xiva_error ''disconnected'')"
  "fst (send_by_name sample_env ''highpower'' (message_init ''test'')
     (world_init (fill_connections [10..<20] ''bobuk'' (fill_connections [0..<10] ''swan'' mock_manager)))) =
     Inl (Xiva_error ''disconnected'')"
  by code_simp+

section \<open>Settings\<close>

text \<open>The file \<open>test.conf\<close> as libxml2 parses it.\<close>

definition text_node :: "string \<Rightarrow> xml_node" where
  "text_node t = \<lparr>xn_children = [(True, Some t)], xn_attrs = []\<rparr>"

definition test_conf :: libxml_doc where
  "test_conf = \<lparr>lx_root = True, lx_include = 0, lx_eval = (\<lambda>name. Some (map_of
     [(''/xiva/variables/variable'', [variable_node (''id'', ''1'')]),
      (''/xiva/endpoint/backlog'', [text_node ''10'']),
      (''/xiva/endpoint/socket'', [text_node ''/tmp/xiva-${id}.sock'']),
      (''/xiva/proxy-deny/url'', map (\<lambda>i. text_node (''http://127.0.0.1/'' @ show_nat i @ ''.html'')) [1..<6])] name)), lx_error = None\<rparr>"

definition test_settings :: "xml_settings result" where
  "test_settings = xml_init [] ''xiva'' (\<lambda>_ v. Some (read_number 10 v)) ''test.conf'' (Some (read_document ''xiva'' test_conf))"

lemma test_value:
  "bind_result test_settings (\<lambda>s. xml_as mx s ''/xiva/endpoint/backlog'') = Inr 10"
  "bind_result test_settings (\<lambda>s. xml_value s ''/xiva/endpoint/socket'') = Inr ''/tmp/xiva-1.sock''"
  by code_simp+

lemma test_enumeration:
  "map_sum id (\<lambda>s. map_sum id (read_all xml_enumeration_empty (xml_enumeration_next (xs_vars s)))
      (xml_enumeration_init s ''/xiva/proxy-deny/url'')) test_settings =
   Inr (Inr (Some (Inr [''http://127.0.0.1/1.html'', ''http://127.0.0.1/2.html'', ''http://127.0.0.1/3.html'',
     ''http://127.0.0.1/4.html'', ''http://127.0.0.1/5.html''])))"
  by code_simp

end
