(* ===== verification/Spec2Isabelle.thy ===== *)
theory Spec2Isabelle
  imports Request_Params Delivery Daemon Python_Server Lifecycle Util Xml World_Wire Sockets Unit_Tests
begin

text \<open>
  A verification library for xiva, a C++ server that keeps HTTP and WebSocket connections of
  users open and sends them messages by the name of the user.

  \<^bold>\<open>How the program works, and which theory models which part.\<close>
  A client connects, the acceptor makes a \<open>connection_impl\<close>, which reads a request until the match
  condition \<open>http_request_checker\<close> is satisfied and parses it into a \<open>request_impl\<close>. The invoker
  asks the response handler of the application for the name of the user and the response; the
  connection writes the head of the answer, and \<open>connection_manager\<close> registers it under its name.
  From then on messages that any thread hands to the \<open>message_queue\<close> are given to the manager, which
  sends them to the allowed connections of the name, and listeners are told of connections that
  open and close.

  \<^item> \<open>Prelude\<close>: the exceptions of the program as the datatype \<open>xiva_error\<close>, the type \<open>'a result\<close> of
    what may throw, characters as numbers, decimal numbers, generic lemmas. \<open>Ordered_Map\<close>: the
    \<open>std::map\<close> and \<open>std::multimap\<close> of the program as sorted lists; its locale \<open>comparator\<close> states
    what the operations need of a comparison, and is interpreted on the comparisons of the code.
  \<^item> \<open>Text\<close> (\<open>char_traits.hpp\<close>, \<open>range.hpp\<close>, \<open>string_utils.hpp\<close>, \<open>functors.hpp\<close>), \<open>Urlencode\<close>
    (\<open>urlencode.hpp\<close>), \<open>Line_Reader\<close> (\<open>line_reader.hpp\<close>), \<open>Http\<close> (\<open>http.hpp\<close>, \<open>http.cpp\<close>).
  \<^item> \<open>Request\<close> (\<open>request_helper.hpp\<close>, \<open>request_impl\<close>), \<open>Request_Params\<close> (what its parameters and
    cookies return), \<open>Request_Checker\<close> (\<open>request_checker.hpp\<close>), \<open>Websocket\<close> (\<open>websocket_info\<close>).
  \<^item> \<open>Channels\<close>: channels, messages, \<open>response_impl\<close>, the formatters of a connection and the
    statistics of the channels. \<open>Connection_Base\<close>: what a connection prints.
  \<^item> \<open>Queues\<close>: \<open>threaded_queue\<close>, \<open>message_queue\<close>, reference counts and \<open>resource\<close>; \<open>Listeners\<close>: the
    guards, \<open>compound_listener\<close> and \<open>threaded_listener\<close>; \<open>Handlers\<close>: the response handlers and
    \<open>threaded_handler_invoker\<close>. Their operations hold a mutex of the object, so interleavings
    of threads are sequences of operations.
  \<^item> \<open>Manager\<close>: the registry of \<open>connection_manager\<close>. \<open>Connection\<close>: every handler of
    \<open>connection_impl\<close> as a function on a context of the connection (record \<open>conn\<close>), the manager and
    the queue of the invoker. An asynchronous operation of Boost.Asio is an entry of \<open>c_pending\<close>, a
    running timer is \<open>c_timer\<close>, a handler that is ready to run is in \<open>c_ready\<close>;
    \<open>Connection_Events\<close> turns the completions, the expiry of timers, the answers of worker
    threads and what other connections do into events, and \<open>conn_step\<close> says what each does, \<open>None\<close>
    where it cannot happen. \<open>World\<close>: any number of connections with the manager's operations that
    go through them, \<open>world_step\<close> and \<open>world_run\<close>. \<open>Connection_Wire\<close> and \<open>World_Wire\<close>: what a run
    puts on the wire of a connection. \<open>Sockets\<close>: the plain and the TLS socket and the traits of the
    server that choose between them; the locale \<open>socket_traits\<close> is what the connection uses of either.
  \<^item> \<open>Settings\<close> (\<open>daemon/\<close> and \<open>stdext/stdin_reader.cpp\<close>): variables, command line, XML settings;
    \<open>Xml\<close>: the texts of nodes that the settings read (\<open>daemon/xml.cpp\<close>).
    \<open>Server\<close>: \<open>acceptor\<close>, \<open>connection_data\<close>, \<open>server_impl\<close> from its construction to its end, and setting
    up TLS. \<open>Delivery\<close>: the message queue, the manager and the connections composed in the server.
    \<open>Lifecycle\<close>: \<open>start\<close>, \<open>stop\<close> and the destructor of the server between threads, as the step relation
    \<open>life_step\<close>. \<open>Util\<close>: the command-line client \<open>utils/main.cpp\<close>.
    \<open>Daemon\<close>: \<open>dynamic_loader\<close> and \<open>daemon/main.cpp\<close>. \<open>Loggers\<close>: \<open>stdio_logger\<close>, \<open>syslog_logger\<close> and
    \<open>system_error\<close>. \<open>Enumerations\<close>: the loop over an enumeration and the contract it needs, as the locale
    \<open>enumeration\<close>, interpreted on the enumerations of the library and the daemon.
  \<^item> The bindings to Python (\<open>python/\<close>): \<open>Interpreter\<close> has the lock of the interpreter and the threads at
    it, as the step relation \<open>py_step\<close>; \<open>Python_Workers\<close> the list of objects to be destroyed and the
    logger; \<open>Python_Adapters\<close> the settings, handlers, listeners, filters and formatters written in Python,
    and the request and response it sees; \<open>Python_Server\<close> the class \<open>python_server\<close>.

  \<^bold>\<open>What the lemmas show.\<close> Parsers and printers are related by round trips (requests, parameters,
  cookies, percent encoding, frames, chunks, pages). The match condition is complete exactly where the
  parser finds the end of the headers, and waits before. The statistics refine a multiset; variables
  agree with a recursive reference. Queues are first-in first-out for every interleaving,
  every message and every request is handled exactly once, an object is deleted once, and a
  listener is told of a connection once.

  For a connection, \<open>Connection_Rules\<close> has a rule for the ends of each operation;
  its locale \<open>write_rules\<close> states what a predicate must promise for the primitive steps, and derives
  that every operation keeps it. \<open>Connection_Phase\<close> interprets it on the invariants of
  a connection, and \<open>Connection_Frame\<close> extends it (\<open>event_rules\<close>) for facts that later
  events cannot change. \<open>Connection_Safety\<close> proves that every event keeps \<open>conn_inv\<close>, from which the
  properties of all runs in \<open>Connection_Runs\<close> and of all connections in \<open>World\<close> follow: one write at a
  time, no message stuck, a registry that agrees with the connections.

  \<open>Connection_Wire\<close> interprets \<open>write_rules\<close> once more, on an invariant that relates what has been
  handed to a connection to what it has written: a run refines \<open>print_all\<close>, which prints one message
  after the other. \<open>World_Wire\<close> carries this through the operations of the manager, so that the
  clients of all connections read exactly the messages that were sent to them, in order.

  In the server, messages sent through the queue have the effect of sending them directly, the
  shut-down closes and forgets every connection, its destruction neither overtakes \<open>start\<close> nor
  deadlocks, and modules stay loaded until the server is gone. The
  lock of the Python interpreter admits one thread at a time. The loop over an enumeration ends.

  \<open>Unit_Tests\<close> has the test cases of the repository (\<open>tests/\<close>) as lemmas: the model gives what they expect.

  Some theorems show where the code does not do what it means to; each says so in its text.

  \<^bold>\<open>Conventions and bounds.\<close> A character is a byte; \<open>uchar\<close> and \<open>schar\<close> read it unsigned and
  signed. Counters of the statistics and of references are words of 32 bits; the arithmetic of percent
  encoding and of the keys of the old WebSocket handshake is at its width; \<open>size_t\<close> has 64 bits.
  The other loops are structural recursions or recursions with a measure, so no fuel is used. An exception is
  the left side of a result; what C++ leaves undefined is \<open>Undefined_behaviour\<close>. A thread
  that would wait is the value \<open>None\<close>. Whether timers run at once when they expire, and whether
  listeners accept connections, are hypotheses where a property needs them. The handlers of a
  connection take a logger that does not throw for granted; \<open>Loggers\<close> shows when it does. A loop that
  may not end is a \<open>while_option\<close> or a \<open>partial_function\<close>, with the value \<open>None\<close>.

  \<^bold>\<open>Parameters.\<close> OpenSSL (digests, base64), the CRC-32 of Boost, \<open>lexical_cast\<close>, the document
  libxml2 has parsed with the nodes an expression selects, files, the clock, the outcome
  of system calls and of network operations, and the objects of the application (handler, listeners,
  filters, formatters), libltdl and the objects of Python are arguments of the definitions that use them.

  \<^bold>\<open>Not modelled.\<close> The streams of Boost.Asio and OpenSSL below the sockets; the creation and joining of
  threads; the registration of classes with Boost.Python, which is a list of names; headers that only
  forward to others.
\<close>

end
